(* ===== verification/Quapi_Prelude.thy ===== *)
theory Quapi_Prelude
  imports Main "HOL-Library.Word"
begin

text \<open>
  Shared ground of the development: C integers at their width, C arrays of
  \<open>char\<close> with the two primitive accesses the code performs on them
  (\<open>memcpy\<close> into a buffer, reading a slice of a buffer), the decimal rendering that
  \<open>printf\<close> gives an \<open>int\<close>, and the outcome of running a piece of C code.

  An \<open>int\<close> or \<open>int32_t\<close> of the code is an \<open>int\<close> whose arithmetic goes
  through \<open>s32\<close>, the two's complement wrap-around at 32 bits; in the range
  \<open>in32\<close> the wrap-around is the identity. A \<open>char\<close> array is a list of characters; a
  byte on a pipe is an \<open>8 word\<close>.
\<close>

named_theorems c_int \<open>facts that remove the 32-bit wrap-around in range\<close>
named_theorems c_mem \<open>facts on slices of buffers after a copy\<close>
named_theorems c_text \<open>facts on the decimal rendering of integers\<close>

type_synonym byte = "8 word"

abbreviation NL :: char where "NL \<equiv> CHR 0x0A"
abbreviation CR :: char where "CR \<equiv> CHR 0x0D"
abbreviation TAB :: char where "TAB \<equiv> CHR 0x09"
abbreviation NUL :: char where "NUL \<equiv> CHR 0x00"
abbreviation SPC :: char where "SPC \<equiv> CHR 0x20"

section \<open>Integers of 32 bits\<close>

definition s32 :: "int \<Rightarrow> int" where
  "s32 x = signed_take_bit 31 x"

definition in32 :: "int \<Rightarrow> bool" where
  "in32 x \<longleftrightarrow> - (2 ^ 31) \<le> x \<and> x < 2 ^ 31"

text \<open>The literals the API documents: strictly larger than \<open>INT32_MIN\<close>.\<close>

definition lit_ok :: "int \<Rightarrow> bool" where
  "lit_ok x \<longleftrightarrow> - (2 ^ 31) < x \<and> x < 2 ^ 31"

lemma in32_s32 [simp, intro]: "in32 (s32 x)"
proof -
  have "signed_take_bit 31 x < 2 ^ 31"
    by (rule signed_take_bit_int_less_exp)
  moreover have "- (2 ^ 31) \<le> signed_take_bit 31 x"
    by (rule signed_take_bit_int_greater_eq_minus_exp)
  ultimately show ?thesis by (simp add: s32_def in32_def)
qed

lemma s32_id [c_int]: "in32 x \<Longrightarrow> s32 x = x"
  unfolding s32_def in32_def
  by (rule signed_take_bit_int_eq_self) auto

lemma s32_idem [simp]: "s32 (s32 x) = s32 x"
  by (simp add: s32_id)

lemma lit_ok_in32 [c_int]: "lit_ok x \<Longrightarrow> in32 x"
  by (simp add: lit_ok_def in32_def)

lemma lit_ok_uminus [simp]: "lit_ok (- x) = lit_ok x"
  by (auto simp: lit_ok_def)

lemma s32_lit [c_int]: "lit_ok x \<Longrightarrow> s32 x = x"
  by (simp add: s32_id lit_ok_in32)

lemma s32_small [c_int]: "0 \<le> x \<Longrightarrow> x < 2 ^ 31 \<Longrightarrow> s32 x = x"
  by (simp add: s32_id in32_def)

lemma s32_wraps: "s32 (2 ^ 31) = - (2 ^ 31)"
  by (simp add: s32_def)

section \<open>Buffers\<close>

text \<open>\<open>memcpy (buf + off) xs (length xs)\<close>, and reading \<open>n\<close> elements at an offset.\<close>

definition poke :: "'a list \<Rightarrow> nat \<Rightarrow> 'a list \<Rightarrow> 'a list" where
  "poke buf off xs = take off buf @ xs @ drop (off + length xs) buf"

definition peek :: "'a list \<Rightarrow> nat \<Rightarrow> nat \<Rightarrow> 'a list" where
  "peek buf off n = take n (drop off buf)"

lemma length_poke [c_mem]: "off + length xs \<le> length buf \<Longrightarrow> length (poke buf off xs) = length buf"
  by (simp add: poke_def)

lemma length_peek [c_mem]: "off + n \<le> length buf \<Longrightarrow> length (peek buf off n) = n"
  by (simp add: peek_def)

lemma peek_0 [simp]: "peek buf off 0 = []"
  by (simp add: peek_def)

lemma poke_Nil [simp]: "poke buf off [] = buf"
  by (simp add: poke_def)

lemma peek_poke_same [c_mem]: "off \<le> length buf \<Longrightarrow> n \<le> length xs \<Longrightarrow> peek (poke buf off xs) off n = take n xs"
  by (simp add: peek_def poke_def)

lemma peek_poke_after [c_mem]:
  "off + length xs \<le> length buf \<Longrightarrow> off + length xs \<le> i \<Longrightarrow> peek (poke buf off xs) i n = peek buf i n"
  by (simp add: peek_def poke_def)

lemma peek_add: "peek buf off (m + n) = peek buf off m @ peek buf (off + m) n"
  by (simp add: peek_def take_add add.commute)

lemma peek_drop: "drop k (peek buf off n) = peek buf (off + k) (n - k)"
  by (simp add: peek_def drop_take add.commute)

lemma peek_take: "take k (peek buf off n) = peek buf off (min k n)"
  by (simp add: peek_def)

section \<open>Decimal rendering\<close>

definition digit :: "nat \<Rightarrow> char" where
  "digit n = char_of (48 + n)"

fun show_nat :: "nat \<Rightarrow> string" where
  "show_nat n = (if n < 10 then [digit n] else show_nat (n div 10) @ [digit (n mod 10)])"

declare show_nat.simps [simp del]

text \<open>What \<open>%d\<close> prints.\<close>

definition show_int :: "int \<Rightarrow> string" where
  "show_int i = (if i < 0 then CHR ''-'' # show_nat (nat (- i)) else show_nat (nat i))"

lemma show_nat_digit [c_text]: "n < 10 \<Longrightarrow> show_nat n = [digit n]"
  by (simp add: show_nat.simps)

lemma show_nat_step [c_text]: "10 \<le> n \<Longrightarrow> show_nat n = show_nat (n div 10) @ [digit (n mod 10)]"
  by (subst show_nat.simps) simp

lemma show_nat_nonempty [simp]: "show_nat n \<noteq> []"
  by (subst show_nat.simps) simp

lemma show_int_nonempty [simp]: "show_int i \<noteq> []"
  by (simp add: show_int_def)

lemma digit_0 [simp]: "digit 0 = CHR ''0''"
  unfolding digit_def by code_simp

lemma show_int_0 [simp]: "show_int 0 = ''0''"
  by (simp add: show_int_def c_text)

lemma length_show_nat: "n < 10 ^ Suc k \<Longrightarrow> length (show_nat n) \<le> Suc k"
proof (induction k arbitrary: n)
  case 0
  then show ?case by (simp add: c_text)
next
  case (Suc k)
  show ?case
  proof (cases "n < 10")
    case True
    then show ?thesis by (simp add: c_text)
  next
    case False
    have "n div 10 < 10 ^ Suc k" using Suc.prems by (simp add: less_mult_imp_div_less mult.commute)
    then have "length (show_nat (n div 10)) \<le> Suc k" by (rule Suc.IH)
    with False show ?thesis by (simp add: show_nat_step)
  qed
qed

lemma length_show_int [c_text]:
  assumes "in32 i"
  shows "length (show_int i) \<le> 11"
proof (cases "i < 0")
  case True
  with assms have "nat (- i) < 10 ^ Suc 9" by (simp add: in32_def)
  from length_show_nat [OF this] True show ?thesis by (simp add: show_int_def)
next
  case False
  with assms have "nat i < 10 ^ Suc 9" by (simp add: in32_def)
  from length_show_nat [OF this] False show ?thesis by (simp add: show_int_def)
qed

section \<open>Outcomes\<close>

text \<open>
  What running a C function on a state can come to besides diverging: it returns, the
  process exits with a status, an \<open>assert\<close> of the source fails, or the code has
  undefined behaviour. Divergence is the \<open>None\<close> of an option around it, where a
  loop may not end.
\<close>

datatype 'a outcome = Ret 'a | Exited int | Assert_Failed | Undefined_Behaviour

fun bind_outcome :: "'a outcome \<Rightarrow> ('a \<Rightarrow> 'b outcome) \<Rightarrow> 'b outcome" where
  "bind_outcome (Ret x) f = f x"
| "bind_outcome (Exited n) f = Exited n"
| "bind_outcome Assert_Failed f = Assert_Failed"
| "bind_outcome Undefined_Behaviour f = Undefined_Behaviour"

fun returns :: "'a outcome \<Rightarrow> bool" where
  "returns (Ret x) = True"
| "returns _ = False"

lemma bind_outcome_Ret_iff: "bind_outcome m f = Ret y \<longleftrightarrow> (\<exists>x. m = Ret x \<and> f x = Ret y)"
  by (cases m) auto

end
