(* ===== verification/Quapi_Definitions.thy ===== *)
theory Quapi_Definitions
  imports Quapi_Prelude
begin

text \<open>
  The shared declarations of \<open>common/include/quapi/definitions.h\<close> and
  \<open>message.h\<close> and the enum helpers of \<open>common/src/common.c\<close>: the states of the
  library and of the preloaded runtime, status codes, message types with their C
  enumeration codes, the header data, the names printed for them, and the cached
  lookups of the debug and trace environment variables.
\<close>

section \<open>Enumerations\<close>

datatype quapi_state =
    QUAPI_INPUT | QUAPI_INPUT_LITERALS | QUAPI_INPUT_ASSUMPTIONS | QUAPI_WORKING
  | QUAPI_SAT | QUAPI_UNSAT | QUAPI_ABORTED | QUAPI_ERROR | QUAPI_UNKNOWN | QUAPI_UNDEFINED

datatype quapi_preload_state =
    PRELOAD_UNINITIATED | WAITING_FOR_HEADER | READING_PREFIX | READING_EXISTS
  | READING_FORALL | READING_MATRIX | READING_CLAUSE | WORKING | PRELOAD_UNKNOWN

datatype quapi_status =
    QUAPI_OK | QUAPI_WRITE_ERROR | QUAPI_ALLOC_ERROR | QUAPI_PARAMETER_ERROR
  | QUAPI_INVALID_SOLVER_STATE_ERROR | QUAPI_OTHER_ERROR

datatype quapi_msg_type =
    MSG_UNDEFINED | MSG_HEADER | MSG_QUANTIFIER | MSG_LITERAL | MSG_FORK
  | MSG_FORK_REPORT | MSG_STARTED | MSG_SOLVE | MSG_EXIT_CODE | MSG_DESTRUCTED

definition QUAPI_API_VERSION :: int where
  "QUAPI_API_VERSION = 3"

fun quapi_state_str :: "quapi_state \<Rightarrow> string" where
  "quapi_state_str QUAPI_INPUT = ''INPUT''"
| "quapi_state_str QUAPI_INPUT_LITERALS = ''INPUT_LITERALS''"
| "quapi_state_str QUAPI_INPUT_ASSUMPTIONS = ''INPUT_ASSUMPTIONS''"
| "quapi_state_str QUAPI_WORKING = ''WORKING''"
| "quapi_state_str QUAPI_SAT = ''SAT''"
| "quapi_state_str QUAPI_UNSAT = ''UNSAT''"
| "quapi_state_str QUAPI_ERROR = ''ERROR''"
| "quapi_state_str QUAPI_ABORTED = ''ABORTED''"
| "quapi_state_str QUAPI_UNKNOWN = ''UNKNOWN''"
| "quapi_state_str QUAPI_UNDEFINED = ''UNDEFINED''"

fun quapi_preload_state_str :: "quapi_preload_state \<Rightarrow> string" where
  "quapi_preload_state_str PRELOAD_UNINITIATED = ''UNINITIATED''"
| "quapi_preload_state_str WAITING_FOR_HEADER = ''WAITING_FOR_HEADER''"
| "quapi_preload_state_str READING_PREFIX = ''READING_PREFIX''"
| "quapi_preload_state_str READING_EXISTS = ''READING_EXISTS''"
| "quapi_preload_state_str READING_FORALL = ''READING_FORALL''"
| "quapi_preload_state_str READING_MATRIX = ''READING_MATRIX''"
| "quapi_preload_state_str READING_CLAUSE = ''READING_CLAUSE''"
| "quapi_preload_state_str WORKING = ''WORKING''"
| "quapi_preload_state_str PRELOAD_UNKNOWN = ''UNKNOWN''"

fun quapi_status_str :: "quapi_status \<Rightarrow> string" where
  "quapi_status_str QUAPI_OK = ''OK''"
| "quapi_status_str QUAPI_WRITE_ERROR = ''WRITE_ERROR''"
| "quapi_status_str QUAPI_ALLOC_ERROR = ''ALLOC_ERROR''"
| "quapi_status_str QUAPI_PARAMETER_ERROR = ''PARAMETER_ERROR''"
| "quapi_status_str QUAPI_INVALID_SOLVER_STATE_ERROR = ''INVALID_SOLVER_STATE_ERROR''"
| "quapi_status_str QUAPI_OTHER_ERROR = ''OTHER_ERROR''"

section \<open>Message types and their codes\<close>

text \<open>The value C gives each enumerator, and the enumerator of a value.\<close>

fun msg_type_code :: "quapi_msg_type \<Rightarrow> int" where
  "msg_type_code MSG_UNDEFINED = 0"
| "msg_type_code MSG_HEADER = 1"
| "msg_type_code MSG_QUANTIFIER = 2"
| "msg_type_code MSG_LITERAL = 3"
| "msg_type_code MSG_FORK = 4"
| "msg_type_code MSG_FORK_REPORT = 5"
| "msg_type_code MSG_STARTED = 6"
| "msg_type_code MSG_SOLVE = 7"
| "msg_type_code MSG_EXIT_CODE = 8"
| "msg_type_code MSG_DESTRUCTED = 9"

definition msg_type_of_code :: "int \<Rightarrow> quapi_msg_type option" where
  "msg_type_of_code c =
     (if c = 0 then Some MSG_UNDEFINED
      else if c = 1 then Some MSG_HEADER
      else if c = 2 then Some MSG_QUANTIFIER
      else if c = 3 then Some MSG_LITERAL
      else if c = 4 then Some MSG_FORK
      else if c = 5 then Some MSG_FORK_REPORT
      else if c = 6 then Some MSG_STARTED
      else if c = 7 then Some MSG_SOLVE
      else if c = 8 then Some MSG_EXIT_CODE
      else if c = 9 then Some MSG_DESTRUCTED
      else None)"

text \<open>
  \<open>quapi_msg_is_known\<close> takes whatever integer was read as a type; an integer that is
  no enumerator falls out of the switch.
\<close>

definition quapi_msg_is_known :: "int \<Rightarrow> bool" where
  "quapi_msg_is_known c =
     (case msg_type_of_code c of
        Some MSG_UNDEFINED \<Rightarrow> True
      | Some MSG_HEADER \<Rightarrow> True
      | Some MSG_QUANTIFIER \<Rightarrow> True
      | Some MSG_LITERAL \<Rightarrow> True
      | Some MSG_SOLVE \<Rightarrow> True
      | Some MSG_FORK \<Rightarrow> True
      | Some MSG_FORK_REPORT \<Rightarrow> True
      | Some MSG_STARTED \<Rightarrow> True
      | Some MSG_EXIT_CODE \<Rightarrow> True
      | Some MSG_DESTRUCTED \<Rightarrow> True
      | None \<Rightarrow> False)"

fun quapi_msg_type_str :: "quapi_msg_type \<Rightarrow> string" where
  "quapi_msg_type_str MSG_UNDEFINED = ''UNDEFINED''"
| "quapi_msg_type_str MSG_HEADER = ''HEADER''"
| "quapi_msg_type_str MSG_QUANTIFIER = ''QUANTIFIER''"
| "quapi_msg_type_str MSG_LITERAL = ''LITERAL''"
| "quapi_msg_type_str MSG_SOLVE = ''SOLVE''"
| "quapi_msg_type_str MSG_FORK = ''FORK''"
| "quapi_msg_type_str MSG_FORK_REPORT = ''FORK REPORT''"
| "quapi_msg_type_str MSG_STARTED = ''STARTED''"
| "quapi_msg_type_str MSG_EXIT_CODE = ''EXIT CODE''"
| "quapi_msg_type_str MSG_DESTRUCTED = ''DESTRUCTED''"

lemma msg_type_of_code_code [simp]: "msg_type_of_code (msg_type_code t) = Some t"
  by (cases t) (simp_all add: msg_type_of_code_def)

lemma msg_type_code_inject: "msg_type_code a = msg_type_code b \<longleftrightarrow> a = b"
  by (metis msg_type_of_code_code option.inject)

lemma msg_type_of_code_Some: "msg_type_of_code c = Some t \<longleftrightarrow> c = msg_type_code t"
  by (cases t) (auto simp: msg_type_of_code_def)

lemma msg_type_code_range: "0 \<le> msg_type_code t \<and> msg_type_code t < 10"
  by (cases t) simp_all

lemma quapi_msg_is_known_iff: "quapi_msg_is_known c \<longleftrightarrow> (\<exists>t. msg_type_of_code c = Some t)"
  unfolding quapi_msg_is_known_def
  by (simp split: option.split quapi_msg_type.split)

text \<open>An enum of C is ordered by its codes.\<close>

instantiation quapi_msg_type :: linorder
begin

definition less_eq_quapi_msg_type :: "quapi_msg_type \<Rightarrow> quapi_msg_type \<Rightarrow> bool" where
  "less_eq_quapi_msg_type a b \<longleftrightarrow> msg_type_code a \<le> msg_type_code b"

definition less_quapi_msg_type :: "quapi_msg_type \<Rightarrow> quapi_msg_type \<Rightarrow> bool" where
  "less_quapi_msg_type a b \<longleftrightarrow> msg_type_code a < msg_type_code b"

instance
proof
  fix a b c :: quapi_msg_type
  show "(a < b) = (a \<le> b \<and> \<not> b \<le> a)"
    by (auto simp: less_eq_quapi_msg_type_def less_quapi_msg_type_def)
  show "a \<le> a" by (simp add: less_eq_quapi_msg_type_def)
  show "a \<le> b \<Longrightarrow> b \<le> c \<Longrightarrow> a \<le> c" by (simp add: less_eq_quapi_msg_type_def)
  show "a \<le> b \<Longrightarrow> b \<le> a \<Longrightarrow> a = b"
    by (metis less_eq_quapi_msg_type_def msg_type_code_inject order_antisym)
  show "a \<le> b \<or> b \<le> a" by (auto simp: less_eq_quapi_msg_type_def)
qed

end

section \<open>Header data\<close>

record quapi_msg_header_data =
  literals :: int
  clauses :: int
  prefixdepth :: int
  forked_child_read_pipe_r :: int
  forked_child_read_pipe_w :: int
  forked_child_write_pipe_r :: int
  forked_child_write_pipe_w :: int
  message_to_parent_pipe_r :: int
  message_to_parent_pipe_w :: int

text \<open>The fields in the order in which they are sent.\<close>

definition header_fields :: "quapi_msg_header_data \<Rightarrow> int list" where
  "header_fields h =
     [literals h, clauses h, prefixdepth h,
      forked_child_read_pipe_r h, forked_child_read_pipe_w h,
      forked_child_write_pipe_r h, forked_child_write_pipe_w h,
      message_to_parent_pipe_r h, message_to_parent_pipe_w h]"

definition header_ok :: "quapi_msg_header_data \<Rightarrow> bool" where
  "header_ok h \<longleftrightarrow> (\<forall>x \<in> set (header_fields h). in32 x)"

lemma length_header_fields [simp]: "length (header_fields h) = 9"
  by (simp add: header_fields_def)

section \<open>Cached environment lookups\<close>

text \<open>
  \<open>quapi_check_debug\<close> and \<open>quapi_check_trace\<close> keep a static \<open>int\<close>, \<open>-1\<close>
  until the first call; \<open>env\<close> is what \<open>getenv\<close> returns at the time of the call.
\<close>

definition quapi_check_debug :: "int \<Rightarrow> string option \<Rightarrow> bool \<times> int" where
  "quapi_check_debug debug env =
     (let d = (if debug = -1 then (if env \<noteq> None then 1 else 0) else debug) in (d \<noteq> 0, d))"

definition quapi_check_trace :: "int \<Rightarrow> string option \<Rightarrow> bool \<times> int" where
  "quapi_check_trace trace env =
     (let t = (if trace = -1 then (if env \<noteq> None then 1 else 0) else trace) in (t \<noteq> 0, t))"

lemma quapi_check_debug_cached:
  "fst (quapi_check_debug (snd (quapi_check_debug (-1) env)) env') = (env \<noteq> None)"
  by (simp add: quapi_check_debug_def Let_def)

end
