(* ===== verification/Quapi_Message.thy ===== *)
theory Quapi_Message
  imports Quapi_Definitions
begin

text \<open>
  The messages of \<open>common/include/quapi/message.h\<close> and their way over a pipe in
  \<open>common/src/common.c\<close>. A message is a tag and a union of four bytes; the tagged
  union is the datatype \<open>quapi_msg\<close>, and \<open>msg_arr\<close> is its five bytes. The union
  members that a message type does not write keep the bytes \<open>u\<close> that were in memory
  before. Only a header message has a trailer (three bytes of padding and nine integers).

  The writers and readers of the code are functions of the stream operations they call;
  the locales \<open>record_sink\<close> and \<open>record_source\<close> state what those operations promise,
  and their clients are proved once for every stream that keeps the promise: the
  \<open>FILE\<close> of this theory and the zero-copy pipe of \<open>Quapi_Zerocopy\<close>.
\<close>

unbundle bit_operations_syntax

section \<open>Integers as bytes\<close>

definition le32 :: "int \<Rightarrow> byte list" where
  "le32 x = [word_of_int x, word_of_int (x div 2 ^ 8), word_of_int (x div 2 ^ 16), word_of_int (x div 2 ^ 24)]"

definition un_le32 :: "byte list \<Rightarrow> int" where
  "un_le32 bs = s32 (uint (bs ! 0) + 2 ^ 8 * uint (bs ! 1) + 2 ^ 16 * uint (bs ! 2) + 2 ^ 24 * uint (bs ! 3))"

lemma length_le32 [simp]: "length (le32 x) = 4"
  by (simp add: le32_def)

lemma le32_nonempty [simp]: "le32 x \<noteq> []"
  by (simp add: le32_def)

lemma mod_split_256: "0 \<le> m \<Longrightarrow> (x :: int) mod (256 * m) = x mod 256 + 256 * (x div 256 mod m)"
  by (subst zmod_zmult2_eq) (simp_all only: add.commute)

lemma mod_2_32_bytes:
  fixes x :: int
  shows "x mod 256 + 256 * (x div 256 mod 256) + 65536 * (x div 65536 mod 256)
      + 16777216 * (x div 16777216 mod 256) = x mod 4294967296"
proof -
  have 1: "x mod 4294967296 = x mod 256 + 256 * (x div 256 mod 16777216)"
    using mod_split_256 [of 16777216 x] by (simp only: zero_le_numeral mult_numeral_1 numeral_times_numeral semiring_norm simp_thms)
  have 2: "x div 256 mod 16777216 = x div 256 mod 256 + 256 * (x div 65536 mod 65536)"
    using mod_split_256 [of 65536 "x div 256"] zdiv_zmult2_eq [of 256 x 256]
    by (simp only: zero_le_numeral numeral_times_numeral semiring_norm simp_thms)
  have 3: "x div 65536 mod 65536 = x div 65536 mod 256 + 256 * (x div 16777216 mod 256)"
    using mod_split_256 [of 256 "x div 65536"] zdiv_zmult2_eq [of 256 x 65536]
    by (simp only: zero_le_numeral numeral_times_numeral semiring_norm simp_thms)
  have "p + 256 * q + 65536 * r + 16777216 * t = p + 256 * (q + 256 * (r + 256 * t))"
    for p q r t :: int by (simp add: algebra_simps)
  then show ?thesis by (simp only: 1 2 3)
qed

lemma un_le32_le32_append: "un_le32 (le32 x @ bs) = s32 x"
proof -
  have "un_le32 (le32 x @ bs) = signed_take_bit 31 (x mod 256 + 256 * (x div 256 mod 256)
      + 65536 * (x div 65536 mod 256) + 16777216 * (x div 16777216 mod 256))"
    by (simp only: un_le32_def le32_def s32_def) (simp add: uint_word_of_int)
  also have "\<dots> = signed_take_bit 31 (take_bit 32 x)"
    by (simp only: mod_2_32_bytes) (simp add: take_bit_eq_mod)
  also have "\<dots> = s32 x" by (simp add: s32_def signed_take_bit_take_bit)
  finally show ?thesis .
qed

lemma un_le32_le32 [simp]: "un_le32 (le32 x) = s32 x"
  using un_le32_le32_append [of x "[]"] by simp

section \<open>Messages\<close>

datatype quapi_msg =
    MUndefined
  | MHeader int         \<comment> \<open>\<open>api_version\<close>\<close>
  | MQuantifier int     \<comment> \<open>\<open>lit\<close>\<close>
  | MLiteral int        \<comment> \<open>\<open>lit\<close>\<close>
  | MFork bool          \<comment> \<open>\<open>wait_for_exit_code_and_report\<close>, a bit field of one bit\<close>
  | MFork_Report int    \<comment> \<open>\<open>solver_child_pid\<close>\<close>
  | MStarted int        \<comment> \<open>\<open>api_version\<close>\<close>
  | MSolve
  | MExit_Code int      \<comment> \<open>\<open>exit_code\<close>\<close>
  | MDestructed

fun msg_type :: "quapi_msg \<Rightarrow> quapi_msg_type" where
  "msg_type MUndefined = MSG_UNDEFINED"
| "msg_type (MHeader v) = MSG_HEADER"
| "msg_type (MQuantifier l) = MSG_QUANTIFIER"
| "msg_type (MLiteral l) = MSG_LITERAL"
| "msg_type (MFork w) = MSG_FORK"
| "msg_type (MFork_Report p) = MSG_FORK_REPORT"
| "msg_type (MStarted v) = MSG_STARTED"
| "msg_type MSolve = MSG_SOLVE"
| "msg_type (MExit_Code c) = MSG_EXIT_CODE"
| "msg_type MDestructed = MSG_DESTRUCTED"

text \<open>Every integer member fits its C type.\<close>

fun msg_ok :: "quapi_msg \<Rightarrow> bool" where
  "msg_ok (MHeader v) = in32 v"
| "msg_ok (MQuantifier l) = in32 l"
| "msg_ok (MLiteral l) = in32 l"
| "msg_ok (MFork_Report p) = in32 p"
| "msg_ok (MStarted v) = in32 v"
| "msg_ok (MExit_Code c) = in32 c"
| "msg_ok _ = True"

text \<open>
  The bytes of the union after the message's member was assigned over the old bytes
  \<open>u\<close>: a bit field writes bit 0 of the first byte, an empty member writes nothing.
\<close>

fun msg_data :: "byte list \<Rightarrow> quapi_msg \<Rightarrow> byte list" where
  "msg_data u (MHeader v) = le32 v"
| "msg_data u (MQuantifier l) = le32 l"
| "msg_data u (MLiteral l) = le32 l"
| "msg_data u (MFork w) = (if w then hd u OR 1 else hd u AND NOT 1) # tl u"
| "msg_data u (MFork_Report p) = le32 p"
| "msg_data u (MStarted v) = le32 v"
| "msg_data u (MExit_Code c) = le32 c"
| "msg_data u MSolve = u"
| "msg_data u MUndefined = u"
| "msg_data u MDestructed = u"

definition msg_arr :: "byte list \<Rightarrow> quapi_msg \<Rightarrow> byte list" where
  "msg_arr u m = msg_data u m @ [word_of_int (msg_type_code (msg_type m))]"

text \<open>
  Reading the five bytes back. The type byte is a \<open>char\<close>, signed on the platforms the
  code supports; a byte that is no message type gives no message.
\<close>

definition msg_of_arr :: "byte list \<Rightarrow> quapi_msg option" where
  "msg_of_arr arr =
     (case msg_type_of_code (sint (arr ! 4)) of
        None \<Rightarrow> None
      | Some t \<Rightarrow> Some (case t of
            MSG_UNDEFINED \<Rightarrow> MUndefined
          | MSG_HEADER \<Rightarrow> MHeader (un_le32 arr)
          | MSG_QUANTIFIER \<Rightarrow> MQuantifier (un_le32 arr)
          | MSG_LITERAL \<Rightarrow> MLiteral (un_le32 arr)
          | MSG_FORK \<Rightarrow> MFork (bit (arr ! 0) 0)
          | MSG_FORK_REPORT \<Rightarrow> MFork_Report (un_le32 arr)
          | MSG_STARTED \<Rightarrow> MStarted (un_le32 arr)
          | MSG_SOLVE \<Rightarrow> MSolve
          | MSG_EXIT_CODE \<Rightarrow> MExit_Code (un_le32 arr)
          | MSG_DESTRUCTED \<Rightarrow> MDestructed))"

lemma length_msg_data [simp]: "length u = 4 \<Longrightarrow> length (msg_data u m) = 4"
  by (cases m) auto

lemma length_msg_arr [simp]: "length u = 4 \<Longrightarrow> length (msg_arr u m) = 5"
  by (simp add: msg_arr_def)

lemma sint_type_code: "sint (word_of_int (msg_type_code t) :: byte) = msg_type_code t"
  by (cases t) simp_all

lemma msg_of_arr_type: "length u = 4 \<Longrightarrow> msg_type_of_code (sint (msg_arr u m ! 4)) = Some (msg_type m)"
proof -
  assume "length u = 4"
  then have "msg_arr u m ! 4 = word_of_int (msg_type_code (msg_type m))"
    using nth_append_length [of "msg_data u m"] by (simp add: msg_arr_def)
  then show ?thesis by (simp only: sint_type_code msg_type_of_code_code)
qed

lemma msg_of_arr_msg_arr:
  assumes "length u = 4" and "msg_ok m"
  shows "msg_of_arr (msg_arr u m) = Some m"
proof -
  obtain b u' where u: "u = b # u'" using assms(1) by (cases u) auto
  have ty: "msg_type_of_code (sint (msg_arr u m ! 4)) = Some (msg_type m)"
    by (rule msg_of_arr_type [OF assms(1)])
  have "bit (b OR 1) 0" "\<not> bit (b AND NOT 1) 0"
    by (simp_all add: bit_simps)
  then show ?thesis
    using ty assms(2)
    by (cases m) (simp_all add: msg_of_arr_def msg_arr_def un_le32_le32_append s32_id u)
qed

section \<open>The header message\<close>

text \<open>
  \<open>serialize_header\<close>: the five bytes of the message, three bytes of padding, the nine
  integers of the header data. \<open>malloc_ok\<close> is whether \<open>malloc\<close> gave memory.
\<close>

definition header_trail :: "quapi_msg_header_data \<Rightarrow> byte list" where
  "header_trail h = [0, 0, 0] @ concat (map le32 (header_fields h))"

definition serialize_header ::
    "bool \<Rightarrow> byte list \<Rightarrow> quapi_msg \<Rightarrow> quapi_msg_header_data \<Rightarrow> quapi_status \<times> byte list" where
  "serialize_header malloc_ok u m h =
     (if \<not> malloc_ok then (QUAPI_ALLOC_ERROR, [])
      else (QUAPI_OK, msg_arr u m @ header_trail h))"

text \<open>
  \<open>read_trailing_into_header\<close> on the bytes read after a header message. They are moved
  three places to the front where they lie (\<open>memmove\<close>), so their memory has to be
  \<open>writable\<close>: it is for a \<open>FILE\<close>, whose trailer is read into an array on the stack, and
  it is not for a zero-copy pipe, whose read returns a pointer into a mapping that was made
  with \<open>PROT_READ\<close>. The move faults there.
\<close>

definition read_trailing_into_header :: "bool \<Rightarrow> byte list \<Rightarrow> quapi_msg_header_data outcome" where
  "read_trailing_into_header writable trail0 =
     (if \<not> writable then Undefined_Behaviour
      else
        (let trail = drop 3 trail0;
             var = (\<lambda>k. un_le32 (peek trail (4 * k) 4))
         in Ret \<lparr>literals = var 0, clauses = var 1, prefixdepth = var 2,
              forked_child_read_pipe_r = var 3, forked_child_read_pipe_w = var 4,
              forked_child_write_pipe_r = var 5, forked_child_write_pipe_w = var 6,
              message_to_parent_pipe_r = var 7, message_to_parent_pipe_w = var 8\<rparr>))"

definition header_trail_len :: nat where
  "header_trail_len = 3 + 4 * 3 + 4 * 6"

lemma length_header_trail [simp]: "length (header_trail h) = header_trail_len"
  by (simp add: header_trail_def header_fields_def header_trail_len_def)

lemma header_trail_nonempty [simp]: "header_trail h \<noteq> []"
  by (simp add: header_trail_def)

lemma read_trailing_header_trail:
  assumes "header_ok h"
  shows "read_trailing_into_header True (header_trail h) = Ret h"
proof -
  have "peek (le32 x @ ys) 0 4 = le32 x" for x ys by (simp add: peek_def)
  moreover have "peek (le32 x @ ys) (4 + k) n = peek ys k n" for x ys k n
    by (simp add: peek_def)
  ultimately show ?thesis
    using assms
    by (simp add: read_trailing_into_header_def header_trail_def header_fields_def header_ok_def
        peek_def drop_append s32_id Let_def)
qed

section \<open>Writing and reading messages\<close>

text \<open>
  \<open>quapi_write_msg_to_file\<close>: \<open>pwrite\<close> is \<open>fwrite (data, len, 1, f)\<close> (or the
  zero-copy write), \<open>pflush\<close> is \<open>fflush\<close> (or the zero-copy flush).
\<close>

definition quapi_write_msg_to_file ::
    "('s \<Rightarrow> byte list \<Rightarrow> int \<times> 's) \<Rightarrow> ('s \<Rightarrow> 's) \<Rightarrow> bool \<Rightarrow> 's \<Rightarrow> byte list \<Rightarrow> quapi_msg \<Rightarrow>
     quapi_msg_header_data option \<Rightarrow> (quapi_status \<times> 's) outcome" where
  "quapi_write_msg_to_file pwrite pflush malloc_ok f u m hdata =
     bind_outcome
       (if msg_type m = MSG_HEADER
        then (case hdata of None \<Rightarrow> Assert_Failed | Some h \<Rightarrow> Ret (serialize_header malloc_ok u m h))
        else Ret (QUAPI_OK, msg_arr u m))
       (\<lambda>(s, data).
          if s \<noteq> QUAPI_OK then Ret (s, f)
          else
            (let (r, f') = pwrite f data in
             if r = 1 then
               Ret (QUAPI_OK, if msg_type m \<in> {MSG_HEADER, MSG_FORK, MSG_SOLVE, MSG_STARTED}
                              then pflush f' else f')
             else if r = -1 then Ret (QUAPI_WRITE_ERROR, f')
             else Ret (QUAPI_OTHER_ERROR, f')))"

text \<open>\<open>quapi_write_msg_to_fd\<close>: \<open>fdwrite\<close> is \<open>write\<close> on the descriptor.\<close>

definition quapi_write_msg_to_fd ::
    "('p \<Rightarrow> byte list \<Rightarrow> int \<times> 'p) \<Rightarrow> bool \<Rightarrow> 'p \<Rightarrow> byte list \<Rightarrow> quapi_msg \<Rightarrow>
     quapi_msg_header_data option \<Rightarrow> (quapi_status \<times> 'p) outcome" where
  "quapi_write_msg_to_fd fdwrite malloc_ok fd u m hdata =
     bind_outcome
       (if msg_type m = MSG_HEADER
        then (case hdata of None \<Rightarrow> Assert_Failed | Some h \<Rightarrow> Ret (serialize_header malloc_ok u m h))
        else Ret (QUAPI_OK, msg_arr u m))
       (\<lambda>(s, data).
          if s \<noteq> QUAPI_OK then Ret (s, fd)
          else
            (let (r, fd') = fdwrite fd data in
             if r = int (length data) then Ret (QUAPI_OK, fd')
             else if r = -1 then Ret (QUAPI_WRITE_ERROR, fd')
             else Ret (QUAPI_OTHER_ERROR, fd')))"

text \<open>
  \<open>quapi_read_msg_from_file\<close>: \<open>pread f n\<close> is \<open>fread (p, n, 1, f)\<close> with the bytes it
  read, or \<open>None\<close> when it did not read them all (end of file). A type that is not
  known ends the process; a trailer that cannot be read leaves the header data
  indeterminate (the missing trailer of a zero-copy pipe is a null pointer that is moved
  through). \<open>writable\<close> is whether the bytes the stream gives may be written. The three
  assertions of the function are that its pointers are not null; the model has no null
  pointer for a stream, a message or a read function, so there is no branch for them.
\<close>

definition quapi_read_msg_from_file ::
    "bool \<Rightarrow> ('s \<Rightarrow> nat \<Rightarrow> byte list option \<times> 's) \<Rightarrow> 's \<Rightarrow> quapi_msg_header_data \<Rightarrow>
     ((quapi_msg \<times> quapi_msg_header_data) option \<times> 's) outcome" where
  "quapi_read_msg_from_file writable pread f hdata =
     (case pread f 5 of
        (None, f1) \<Rightarrow> Ret (None, f1)
      | (Some arr, f1) \<Rightarrow>
          (if \<not> quapi_msg_is_known (sint (arr ! 4)) then Exited (-1)
           else
             (case msg_of_arr arr of
                None \<Rightarrow> Exited (-1)
              | Some m \<Rightarrow>
                  (if msg_type m = MSG_HEADER then
                     (case pread f1 header_trail_len of
                        (None, f2) \<Rightarrow> Undefined_Behaviour
                      | (Some trail, f2) \<Rightarrow>
                          bind_outcome (read_trailing_into_header writable trail)
                            (\<lambda>h. Ret (Some (m, h), f2)))
                   else Ret (Some (m, hdata), f1)))))"

text \<open>
  \<open>quapi_read_msg_from_fd\<close> on the bytes waiting in a pipe: \<open>read\<close> gives at most five
  of them. The message is \<open>None\<close> when its type byte is no message type (the function does
  not check it). The trailer of a header message would be read from \<open>STDIN_FILENO\<close>;
  \<open>hdata\<close> is null in every call of the code, where that is undefined.
\<close>

definition quapi_read_msg_from_fd ::
    "byte list \<Rightarrow> (quapi_msg option option \<times> byte list) outcome" where
  "quapi_read_msg_from_fd fd =
     (let arr = take 5 fd; fd' = drop 5 fd in
      if length arr \<noteq> 5 then Ret (None, fd')
      else
        (case msg_of_arr arr of
           None \<Rightarrow> Ret (Some None, fd')
         | Some m \<Rightarrow>
             (if msg_type m = MSG_HEADER then Undefined_Behaviour
              else Ret (Some (Some m), fd'))))"

lemma quapi_read_msg_from_fd_msg:
  assumes "length u = 4" and "msg_ok m" and "msg_type m \<noteq> MSG_HEADER"
  shows "quapi_read_msg_from_fd (msg_arr u m @ rest) = Ret (Some (Some m), rest)"
  using assms by (simp add: quapi_read_msg_from_fd_def msg_of_arr_msg_arr)

text \<open>The bytes one message puts on a stream, trailer included.\<close>

definition frame :: "byte list \<Rightarrow> quapi_msg_header_data \<Rightarrow> quapi_msg \<Rightarrow> byte list" where
  "frame u h m = msg_arr u m @ (if msg_type m = MSG_HEADER then header_trail h else [])"

lemma length_frame: "length u = 4 \<Longrightarrow> 5 \<le> length (frame u h m) \<and> length (frame u h m) \<le> 44"
  by (simp add: frame_def header_trail_len_def)

text \<open>A writer that writes a list of messages, and a reader that reads as many as it can.\<close>

fun write_msgs ::
    "('s \<Rightarrow> quapi_msg \<Rightarrow> (quapi_status \<times> 's) outcome) \<Rightarrow> quapi_msg list \<Rightarrow> 's \<Rightarrow> 's outcome" where
  "write_msgs w [] s = Ret s"
| "write_msgs w (m # ms) s =
     bind_outcome (w s m) (\<lambda>(st, s'). if st = QUAPI_OK then write_msgs w ms s' else Assert_Failed)"

fun read_msgs ::
    "('s \<Rightarrow> ((quapi_msg \<times> quapi_msg_header_data) option \<times> 's) outcome) \<Rightarrow> nat \<Rightarrow> 's \<Rightarrow> quapi_msg list outcome" where
  "read_msgs rd 0 s = Ret []"
| "read_msgs rd (Suc n) s =
     bind_outcome (rd s) (\<lambda>(res, s'). case res of
         None \<Rightarrow> Ret []
       | Some (m, h) \<Rightarrow> bind_outcome (read_msgs rd n s') (\<lambda>ms. Ret (m # ms)))"

section \<open>What the streams promise\<close>

text \<open>
  A sink is written in records: one \<open>pwrite\<close> adds one record of a size it can carry,
  and after a flush the other end can read every record written so far. \<open>holds s rs\<close>: the
  stream was given the records \<open>rs\<close>; \<open>arrived s rs\<close>: these are all at the other end.
\<close>

locale record_sink =
  fixes pwrite :: "'s \<Rightarrow> byte list \<Rightarrow> int \<times> 's"
    and pflush :: "'s \<Rightarrow> 's"
    and fits :: "nat \<Rightarrow> bool"
    and holds :: "'s \<Rightarrow> byte list list \<Rightarrow> bool"
    and arrived :: "'s \<Rightarrow> byte list list \<Rightarrow> bool"
  assumes fits_frames: "5 \<le> n \<Longrightarrow> n \<le> 44 \<Longrightarrow> fits n"
    and write_record: "holds s rs \<Longrightarrow> fits (length r) \<Longrightarrow> \<exists>s'. pwrite s r = (1, s') \<and> holds s' (rs @ [r])"
    and flush_holds: "holds s rs \<Longrightarrow> holds (pflush s) rs"
    and flush_arrives: "holds s rs \<Longrightarrow> arrived (pflush s) rs"
begin

lemma write_msg:
  assumes "holds s rs" and "length u = 4" and "msg_type m = MSG_HEADER \<longrightarrow> hdata = Some h"
  shows "\<exists>s'. quapi_write_msg_to_file pwrite pflush True s u m hdata = Ret (QUAPI_OK, s')
    \<and> holds s' (rs @ [frame u h m])
    \<and> (msg_type m \<in> {MSG_HEADER, MSG_FORK, MSG_SOLVE, MSG_STARTED} \<longrightarrow> arrived s' (rs @ [frame u h m]))"
proof -
  have "fits (length (frame u h m))"
    using length_frame [OF assms(2)] by (intro fits_frames) auto
  with write_record [OF assms(1)] obtain s1
    where "pwrite s (frame u h m) = (1, s1)" and "holds s1 (rs @ [frame u h m])" by blast
  with assms(3) show ?thesis
    by (auto simp: quapi_write_msg_to_file_def serialize_header_def frame_def
        intro: flush_holds flush_arrives split: if_splits)
qed

lemma write_msgs:
  assumes "holds s rs" "length u = 4"
  shows "\<exists>s'. write_msgs (\<lambda>s m. quapi_write_msg_to_file pwrite pflush True s u m (Some h)) ms s = Ret s'
    \<and> holds s' (rs @ map (frame u h) ms)"
  using assms(1)
proof (induction ms arbitrary: s rs)
  case (Cons m ms)
  from write_msg [OF Cons.prems assms(2), of m "Some h" h] obtain s1
    where "quapi_write_msg_to_file pwrite pflush True s u m (Some h) = Ret (QUAPI_OK, s1)"
      "holds s1 (rs @ [frame u h m])" by auto
  with Cons.IH [of s1 "rs @ [frame u h m]"] show ?case by auto
qed auto

end

text \<open>
  A source gives the records back: a read of a nonempty part of the first record gives
  that part, and a read when nothing is left gives nothing.
\<close>

locale record_source =
  fixes pread :: "'s \<Rightarrow> nat \<Rightarrow> byte list option \<times> 's"
    and carries :: "'s \<Rightarrow> byte list list \<Rightarrow> bool"
  assumes read_part: "carries s ((a @ b) # rs) \<Longrightarrow> a \<noteq> [] \<Longrightarrow>
      \<exists>s'. pread s (length a) = (Some a, s') \<and> carries s' (if b = [] then rs else b # rs)"
    and read_end: "carries s [] \<Longrightarrow> 0 < n \<Longrightarrow> \<exists>s'. pread s n = (None, s')"
begin

text \<open>The five bytes of a message are read first; the trailer is the next record then.\<close>

lemma read_arr:
  assumes c: "carries s (frame u h m # rs)" and u: "length u = 4"
  shows "\<exists>s1. pread s 5 = (Some (msg_arr u m), s1)
    \<and> carries s1 (if msg_type m = MSG_HEADER then header_trail h # rs else rs)"
    and "quapi_msg_is_known (sint (msg_arr u m ! 4))"
proof -
  let ?b = "if msg_type m = MSG_HEADER then header_trail h else []"
  have len: "length (msg_arr u m) = 5" using u by simp
  then have ne: "msg_arr u m \<noteq> []" by auto
  from read_part [OF c [unfolded frame_def] ne] len
  show "\<exists>s1. pread s 5 = (Some (msg_arr u m), s1)
    \<and> carries s1 (if msg_type m = MSG_HEADER then header_trail h # rs else rs)"
    by (auto split: if_splits)
  show "quapi_msg_is_known (sint (msg_arr u m ! 4))"
    using msg_of_arr_type [OF u] by (auto simp only: quapi_msg_is_known_iff)
qed

lemma read_trail:
  assumes "carries s (header_trail h # rs)"
  shows "\<exists>s'. pread s header_trail_len = (Some (header_trail h), s') \<and> carries s' rs"
  using read_part [of s "header_trail h" "[]" rs] assms by simp

lemma read_msg:
  assumes c: "carries s (frame u h m # rs)" and u: "length u = 4" and m: "msg_ok m" and h: "header_ok h"
    and w: "msg_type m = MSG_HEADER \<longrightarrow> writable"
  shows "\<exists>s'. quapi_read_msg_from_file writable pread s hd0 =
      Ret (Some (m, if msg_type m = MSG_HEADER then h else hd0), s') \<and> carries s' rs"
proof -
  obtain s1 where s1: "pread s 5 = (Some (msg_arr u m), s1)"
    "carries s1 (if msg_type m = MSG_HEADER then header_trail h # rs else rs)"
    using read_arr(1) [OF c u] by blast
  show ?thesis
  proof (cases "msg_type m = MSG_HEADER")
    case True
    with read_trail [of s1 h rs] s1(2) obtain s2
      where "pread s1 header_trail_len = (Some (header_trail h), s2)" "carries s2 rs" by auto
    with s1 read_arr(2) [OF c u] True u m h w show ?thesis
      by (simp add: quapi_read_msg_from_file_def msg_of_arr_msg_arr read_trailing_header_trail)
  qed (use s1 read_arr(2) [OF c u] u m in \<open>simp add: quapi_read_msg_from_file_def msg_of_arr_msg_arr\<close>)
qed

text \<open>A header message that lies in memory that cannot be written is not survived.\<close>

lemma read_header_faults:
  assumes c: "carries s (frame u h m # rs)" and u: "length u = 4" and m: "msg_ok m" "msg_type m = MSG_HEADER"
  shows "quapi_read_msg_from_file False pread s hd0 = Undefined_Behaviour"
proof -
  obtain s1 where s1: "pread s 5 = (Some (msg_arr u m), s1)" "carries s1 (header_trail h # rs)"
    using read_arr(1) [OF c u] m(2) by auto
  from read_trail [OF s1(2)] obtain s2 where "pread s1 header_trail_len = (Some (header_trail h), s2)" by blast
  with s1 read_arr(2) [OF c u] u m show ?thesis
    by (simp add: quapi_read_msg_from_file_def msg_of_arr_msg_arr read_trailing_into_header_def)
qed

lemma read_msg_end:
  assumes "carries s []"
  shows "\<exists>s'. quapi_read_msg_from_file writable pread s hd0 = Ret (None, s')"
  using read_end [OF assms, of 5] by (auto simp: quapi_read_msg_from_file_def)

lemma read_msgs:
  assumes "carries s (map (frame u h) ms)" "length u = 4" "\<forall>m \<in> set ms. msg_ok m" "header_ok h" "length ms < n"
  shows "read_msgs (\<lambda>s. quapi_read_msg_from_file writable pread s h) n s =
    (if \<not> writable \<and> (\<exists>m \<in> set ms. msg_type m = MSG_HEADER) then Undefined_Behaviour else Ret ms)"
  using assms(1,3,5)
proof (induction ms arbitrary: s n)
  case Nil
  then obtain k where "n = Suc k" by (cases n) auto
  with Nil read_msg_end [of s writable h] show ?case by auto
next
  case (Cons m ms)
  then obtain k where n: "n = Suc k" by (cases n) auto
  show ?case
  proof (cases "msg_type m = MSG_HEADER \<and> \<not> writable")
    case True
    with read_header_faults [of s u h m "map (frame u h) ms" h] Cons.prems assms(2) n show ?thesis by simp
  next
    case False
    with read_msg [of s u h m "map (frame u h) ms" writable h] Cons.prems assms(2,4) obtain s'
      where "quapi_read_msg_from_file writable pread s h = Ret (Some (m, h), s')" "carries s' (map (frame u h) ms)"
      by auto
    with Cons.IH [of s' k] Cons.prems n False show ?thesis by auto
  qed
qed

end

section \<open>C streams\<close>

text \<open>
  A \<open>FILE\<close> open for writing on a pipe: bytes in its buffer, bytes already passed to
  the pipe, the buffer's capacity, and whether the other end has gone. A write that
  fills the buffer passes everything on; it fails when it has to and nobody reads.
\<close>

record file_out =
  fo_buffer :: "byte list"
  fo_pipe :: "byte list"
  fo_capacity :: nat
  fo_broken :: bool

definition file_write :: "file_out \<Rightarrow> byte list \<Rightarrow> int \<times> file_out" where
  "file_write f bs =
     (let b = fo_buffer f @ bs in
      if length b < fo_capacity f then (1, f\<lparr>fo_buffer := b\<rparr>)
      else if fo_broken f then (0, f)
      else (1, f\<lparr>fo_buffer := [], fo_pipe := fo_pipe f @ b\<rparr>))"

definition file_flush :: "file_out \<Rightarrow> file_out" where
  "file_flush f =
     (if fo_broken f then f
      else f\<lparr>fo_buffer := [], fo_pipe := fo_pipe f @ fo_buffer f\<rparr>)"

definition file_out_holds :: "file_out \<Rightarrow> byte list list \<Rightarrow> bool" where
  "file_out_holds f rs \<longleftrightarrow> \<not> fo_broken f \<and> fo_pipe f @ fo_buffer f = concat rs"

definition file_out_arrived :: "file_out \<Rightarrow> byte list list \<Rightarrow> bool" where
  "file_out_arrived f rs \<longleftrightarrow> fo_pipe f = concat rs"

interpretation file_sink: record_sink file_write file_flush "\<lambda>n. True" file_out_holds file_out_arrived
  by unfold_locales
    (auto simp: file_write_def file_flush_def file_out_holds_def file_out_arrived_def Let_def)

text \<open>
  A \<open>FILE\<close> open for reading on a pipe, seen as all the bytes that come before the
  other end closes it: \<open>fread (p, n, 1, f)\<close> gives \<open>n\<close> of them or hits the end.
\<close>

definition file_read :: "byte list \<Rightarrow> nat \<Rightarrow> byte list option \<times> byte list" where
  "file_read f n = (if n \<le> length f then (Some (take n f), drop n f) else (None, []))"

definition file_in_carries :: "byte list \<Rightarrow> byte list list \<Rightarrow> bool" where
  "file_in_carries f rs \<longleftrightarrow> f = concat rs"

interpretation file_source: record_source file_read file_in_carries
  by unfold_locales (auto simp: file_read_def file_in_carries_def)

end
