(* ===== verification/Quapi_Int_To_Str.thy ===== *)
theory Quapi_Int_To_Str
  imports Quapi_Prelude
begin

text \<open>
  The integer printer of \<open>preload/src/runtime.c\<close>: \<open>digits2\<close>, \<open>int_to_str_\<close> and
  \<open>int_to_str\<close>, which write a number backwards from the end of a buffer, two digits at
  a time from a table of pairs. Memory is the buffer, a pointer into it an offset. The
  result is that of \<open>printf\<close>, right-aligned in the buffer.
\<close>

definition digits_table :: string where
  "digits_table =
     ''0001020304050607080910111213141516171819'' @
     ''2021222324252627282930313233343536373839'' @
     ''4041424344454647484950515253545556575859'' @
     ''6061626364656667686970717273747576777879'' @
     ''8081828384858687888990919293949596979899''"

text \<open>\<open>digits2\<close> points into the table; its callers copy two characters from there.\<close>

definition digits2 :: "nat \<Rightarrow> string" where
  "digits2 v = peek digits_table (v * 2) 2"

function int_to_str_loop :: "int \<Rightarrow> string \<Rightarrow> nat \<Rightarrow> string \<times> nat" where
  "int_to_str_loop i mem out =
     (if 100 \<le> i then
        int_to_str_loop (i div 100) (poke mem (out - 2) (digits2 (nat (i mod 100)))) (out - 2)
      else if i < 10 then (poke mem (out - 1) [char_of (48 + i)], out - 1)
      else (poke mem (out - 2) (digits2 (nat i)), out - 2))"
  by pat_completeness auto
termination
  by (relation "measure (\<lambda>(i, mem, out). nat i)") auto

declare int_to_str_loop.simps [simp del]

definition int_to_str_pos :: "int \<Rightarrow> string \<Rightarrow> nat \<Rightarrow> string \<times> nat" where
  "int_to_str_pos i mem sz = int_to_str_loop i mem sz"

definition int_to_str :: "int \<Rightarrow> string \<Rightarrow> nat \<Rightarrow> string \<times> nat" where
  "int_to_str i mem sz =
     (let negative = i < 0;
          (mem', begin) = int_to_str_pos (if negative then s32 (0 - i) else i) mem sz
      in if negative then (poke mem' (begin - 1) ''-'', begin - 1) else (mem', begin))"

section \<open>The table\<close>

definition digit_pair :: "nat \<Rightarrow> string" where
  "digit_pair v = [digit (v div 10), digit (v mod 10)]"

lemma digits_table_pairs: "digits_table = concat (map digit_pair [0..<100])"
  by code_simp

lemma drop_pairs: "(\<And>v. length (f v) = 2) \<Longrightarrow> v \<le> n \<Longrightarrow>
    drop (v * 2) (concat (map f [0..<n])) = concat (map f [v..<n])"
proof (induction v)
  case 0
  then show ?case by simp
next
  case (Suc v)
  have "drop (Suc v * 2) (concat (map f [0..<n])) = drop 2 (drop (v * 2) (concat (map f [0..<n])))"
    by (simp add: add.commute)
  with Suc show ?case by (simp add: upt_conv_Cons)
qed

lemma digits2_digits [c_text]: "v < 100 \<Longrightarrow> digits2 v = [digit (v div 10), digit (v mod 10)]"
proof -
  assume v: "v < 100"
  have "drop (v * 2) digits_table = concat (map digit_pair [v..<100])"
    unfolding digits_table_pairs using v by (intro drop_pairs) (simp_all add: digit_pair_def)
  also have "\<dots> = digit_pair v @ concat (map digit_pair [Suc v..<100])"
    using v by (simp only: upt_conv_Cons list.map concat.simps)
  finally show ?thesis by (simp add: digits2_def peek_def digit_pair_def)
qed

lemma show_nat_pair [c_text]:
  assumes "100 \<le> n"
  shows "show_nat n = show_nat (n div 100) @ digits2 (n mod 100)"
proof -
  have "n div 10 div 10 = n div 100" by (simp add: div_mult2_eq [symmetric])
  moreover have "n mod 100 = 10 * (n div 10 mod 10) + n mod 10"
    using mod_mult2_eq [of n 10 10] by simp
  then have "n mod 100 div 10 = n div 10 mod 10" and "n mod 100 mod 10 = n mod 10"
    by simp_all
  moreover have "show_nat (n div 10) = show_nat (n div 10 div 10) @ [digit (n div 10 mod 10)]"
    using assms by (intro show_nat_step) simp
  ultimately show ?thesis
    using assms by (simp add: show_nat_step [of n] digits2_digits)
qed

lemma show_nat_two [c_text]: "10 \<le> n \<Longrightarrow> n < 100 \<Longrightarrow> show_nat n = digits2 n"
  by (simp add: show_nat_step show_nat_digit digits2_digits)

section \<open>Equivalence with the decimal rendering\<close>

lemma poke_before_poke [c_mem]:
  assumes "off + length xs = off'" and "off' + length ys \<le> length mem"
  shows "poke (poke mem off' ys) off xs = poke mem off (xs @ ys)"
  using assms by (auto simp: poke_def min_def add.assoc)

lemma char_of_digit: "0 \<le> i \<Longrightarrow> i < 10 \<Longrightarrow> char_of (48 + i) = digit (nat i)"
proof -
  assume "0 \<le> i"
  then have "48 + i = int (48 + nat i)" by simp
  then show ?thesis unfolding digit_def by (simp only: char_of_nat)
qed

lemma int_to_str_loop_show:
  "0 \<le> i \<Longrightarrow> length (show_nat (nat i)) \<le> out \<Longrightarrow> out \<le> length mem \<Longrightarrow>
   int_to_str_loop i mem out =
     (poke mem (out - length (show_nat (nat i))) (show_nat (nat i)), out - length (show_nat (nat i)))"
proof (induction i mem out rule: int_to_str_loop.induct)
  case (1 i mem out)
  consider (big) "100 \<le> i" | (one) "i < 10" | (two) "10 \<le> i" "i < 100" by linarith
  then show ?case
  proof cases
    case big
    have n: "nat (i div 100) = nat i div 100" "nat (i mod 100) = nat i mod 100"
      using big by (simp_all add: nat_div_distrib nat_mod_distrib)
    have d2: "length (digits2 (nat i mod 100)) = 2" by (simp add: digits2_digits)
    have sn: "show_nat (nat i) = show_nat (nat i div 100) @ digits2 (nat i mod 100)"
      using big by (intro show_nat_pair) linarith
    have out: "length (show_nat (nat i div 100)) + 2 \<le> out"
      using "1.prems"(2) d2 by (simp add: sn)
    have "int_to_str_loop i mem out =
        int_to_str_loop (i div 100) (poke mem (out - 2) (digits2 (nat i mod 100))) (out - 2)"
      using big by (subst int_to_str_loop.simps) (simp add: n)
    also have "\<dots> = (poke (poke mem (out - 2) (digits2 (nat i mod 100)))
          (out - 2 - length (show_nat (nat i div 100))) (show_nat (nat i div 100)),
          out - 2 - length (show_nat (nat i div 100)))"
      using "1.IH" [OF big] big out "1.prems"(3) d2 by (simp add: n length_poke)
    finally show ?thesis
      using out "1.prems"(3) d2 by (simp add: poke_before_poke sn)
  next
    case one
    with "1.prems" show ?thesis
      by (subst int_to_str_loop.simps) (simp add: show_nat_digit char_of_digit)
  next
    case two
    then have "length (digits2 (nat i)) = 2" by (simp add: digits2_digits)
    with two show ?thesis
      by (subst int_to_str_loop.simps) (simp add: show_nat_two)
  qed
qed

lemma int_to_str_show [c_text]:
  assumes i: "lit_ok i" and sz: "11 \<le> sz" and mem: "sz \<le> length mem"
  shows "int_to_str i mem sz =
    (poke mem (sz - length (show_int i)) (show_int i), sz - length (show_int i))"
proof (cases "i < 0")
  case True
  have s: "s32 (- i) = - i" using i by (simp add: s32_lit)
  have len: "length (show_nat (nat (- i))) + 1 \<le> 11"
    using length_show_int [of i] i True by (simp add: lit_ok_in32 show_int_def)
  have "int_to_str_pos (- i) mem sz =
      (poke mem (sz - length (show_nat (nat (- i)))) (show_nat (nat (- i))),
       sz - length (show_nat (nat (- i))))"
    unfolding int_to_str_pos_def using True len sz mem by (intro int_to_str_loop_show) auto
  with True len sz mem show ?thesis
    by (simp add: int_to_str_def s show_int_def poke_before_poke)
next
  case False
  have len: "length (show_nat (nat i)) \<le> 11"
    using length_show_int [of i] i False by (simp add: lit_ok_in32 show_int_def)
  have "int_to_str_pos i mem sz =
      (poke mem (sz - length (show_nat (nat i))) (show_nat (nat i)), sz - length (show_nat (nat i)))"
    unfolding int_to_str_pos_def using False len sz mem by (intro int_to_str_loop_show) auto
  with False show ?thesis by (simp add: int_to_str_def show_int_def)
qed

end
