(* ===== verification/Quapi_Runtime.thy ===== *)
theory Quapi_Runtime
  imports Quapi_Message Quapi_Int_To_Str
begin

text \<open>
  The preloaded runtime of \<open>preload/src/runtime.c\<close>: the process that replaces the
  solver's standard input. It reads messages from the library and turns each into a piece
  of DIMACS text, which the solver reads through \<open>quapi_read\<close>. The record
  \<open>quapi_runtime\<close> is the struct of \<open>preload/include/quapi/runtime.h\<close>, followed by the
  parts of the process it acts on: the results its calls of \<open>fork\<close> will have
  (\<open>rt_forks\<close>), the bytes it has sent to the library (\<open>rt_to_parent\<close>), whether
  its standard input is open, and the flag shared with \<open>inject_main.c\<close>.

  The output buffer is the array \<open>rt_outbuf_stack\<close> and an offset \<open>rt_outbuf\<close> into it,
  as the code prints some numbers backwards from its end. A state of the machine is a
  function from the runtime and a message to the next state; \<open>err\<close> called with \<open>%s\<close> and
  an integer is undefined behaviour.
\<close>

section \<open>State\<close>

datatype wait_status = Wait_Exited int | Wait_Signaled int | Wait_Failed

text \<open>
  What a call of \<open>fork\<close> does, from the point of view of the process that is followed: it
  fails; the process is the parent, learns the child's pid, and a later \<open>waitpid\<close>
  gives a status; the process is the child, whose standard input carries the given bytes.
\<close>

datatype fork_outcome = Fork_Failed | Fork_Parent int wait_status | Fork_Child "byte list"

record quapi_runtime =
  rt_in_stream :: "byte list"
  rt_header_data :: quapi_msg_header_data
  rt_last_read_msg :: quapi_msg
  rt_state :: quapi_preload_state
  rt_outbuf :: nat
  rt_outbuf_stack :: string
  rt_filler_clause :: string
  rt_filler_clause_len :: nat
  rt_outbuf_len :: int
  rt_outbuf_written :: int
  rt_solver_child_pid :: int
  rt_written_clauses :: int
  rt_repeat_state :: bool
  rt_quantifier_count :: nat
  rt_initiated :: bool
  rt_forks :: "fork_outcome list"
  rt_to_parent :: "byte list"
  rt_stdin_open :: bool
  rt_send_destructed_msg :: bool

definition outbuf_size :: nat where "outbuf_size = 64"
definition filler_size :: nat where "filler_size = 64"

text \<open>The static initialiser of \<open>global_runtime\<close>.\<close>

definition zero_header :: quapi_msg_header_data where
  "zero_header = \<lparr>literals = 0, clauses = 0, prefixdepth = 0,
     forked_child_read_pipe_r = 0, forked_child_read_pipe_w = 0,
     forked_child_write_pipe_r = 0, forked_child_write_pipe_w = 0,
     message_to_parent_pipe_r = 0, message_to_parent_pipe_w = 0\<rparr>"

definition global_runtime :: "byte list \<Rightarrow> fork_outcome list \<Rightarrow> quapi_runtime" where
  "global_runtime input forks =
     \<lparr>rt_in_stream = input, rt_header_data = zero_header, rt_last_read_msg = MUndefined,
      rt_state = WAITING_FOR_HEADER, rt_outbuf = 0,
      rt_outbuf_stack = replicate outbuf_size NUL, rt_filler_clause = replicate filler_size NUL,
      rt_filler_clause_len = 0, rt_outbuf_len = 0, rt_outbuf_written = 0,
      rt_solver_child_pid = 0, rt_written_clauses = 0, rt_repeat_state = False,
      rt_quantifier_count = 0, rt_initiated = False, rt_forks = forks, rt_to_parent = [],
      rt_stdin_open = True, rt_send_destructed_msg = True\<rparr>"

text \<open>
  \<open>quapi_runtime_init\<close>: the function pointers it looks up are the C library's own
  functions, which the model uses directly.
\<close>

definition quapi_runtime_init :: "quapi_runtime \<Rightarrow> quapi_runtime outcome" where
  "quapi_runtime_init r =
     (if rt_initiated r then Assert_Failed
      else Ret (r\<lparr>rt_outbuf := 0,
                  rt_filler_clause := poke (replicate filler_size NUL) 0 (''-1 1 0'' @ [NL]),
                  rt_filler_clause_len := 7,
                  rt_initiated := True\<rparr>))"

section \<open>Messages to the library and forking\<close>

definition pipe_write :: "byte list \<Rightarrow> byte list \<Rightarrow> int \<times> byte list" where
  "pipe_write p bs = (int (length bs), p @ bs)"

definition send_to_parent :: "quapi_msg \<Rightarrow> quapi_runtime \<Rightarrow> quapi_runtime" where
  "send_to_parent m r =
     (case quapi_write_msg_to_fd pipe_write True (rt_to_parent r) (replicate 4 0) m None of
        Ret (s, p) \<Rightarrow> r\<lparr>rt_to_parent := p\<rparr>
      | _ \<Rightarrow> r)"

text \<open>
  The exit status computed from \<open>waitpid\<close>: a failed wait leaves the status word 0, a
  signal gives 0.
\<close>

fun wait_exit_status :: "wait_status \<Rightarrow> int" where
  "wait_exit_status (Wait_Exited n) = n mod 256"
| "wait_exit_status (Wait_Signaled n) = 0"
| "wait_exit_status Wait_Failed = 0"

definition fork_solving_child :: "quapi_runtime \<Rightarrow> bool \<Rightarrow> quapi_runtime" where
  "fork_solving_child r wait_for_exit_code_and_report =
     (let r1 = (if wait_for_exit_code_and_report then r\<lparr>rt_send_destructed_msg := False\<rparr> else r) in
      case rt_forks r1 of
        Fork_Parent pid st # fs \<Rightarrow>
          (let r2 = send_to_parent (MFork_Report pid) (r1\<lparr>rt_forks := fs, rt_solver_child_pid := pid\<rparr>) in
           if wait_for_exit_code_and_report
           then send_to_parent (MExit_Code (wait_exit_status st)) r2 else r2)
      | Fork_Child input # fs \<Rightarrow>
          r1\<lparr>rt_forks := fs, rt_solver_child_pid := 0, rt_in_stream := input\<rparr>
      | Fork_Failed # fs \<Rightarrow> r1\<lparr>rt_forks := fs, rt_solver_child_pid := -1\<rparr>
      | [] \<Rightarrow> r1\<lparr>rt_solver_child_pid := -1\<rparr>)"

section \<open>Printing into the output buffer\<close>

text \<open>\<open>snprintf (mem + off, sz, ...)\<close> of text \<open>s\<close>: what is stored, cut to the size.\<close>

definition snprintf_at :: "string \<Rightarrow> nat \<Rightarrow> nat \<Rightarrow> string \<Rightarrow> string" where
  "snprintf_at mem off sz s = poke mem off (take (sz - 1) s @ [NUL])"

text \<open>\<open>r->outbuf_len = snprintf (r->outbuf, sizeof (r->outbuf_stack), ...)\<close>.\<close>

definition print_outbuf :: "string \<Rightarrow> quapi_runtime \<Rightarrow> quapi_runtime" where
  "print_outbuf s r =
     r\<lparr>rt_outbuf_stack := snprintf_at (rt_outbuf_stack r) (rt_outbuf r) outbuf_size s,
       rt_outbuf_len := int (length s)\<rparr>"

text \<open>The same after \<open>r->outbuf = r->outbuf_stack\<close>.\<close>

definition print_outbuf_stack :: "string \<Rightarrow> quapi_runtime \<Rightarrow> quapi_runtime" where
  "print_outbuf_stack s r = print_outbuf s (r\<lparr>rt_outbuf := 0\<rparr>)"

text \<open>
  \<open>int_to_str\<close> into the last \<open>sz\<close> bytes, a space in front when \<open>sep\<close>, and the
  length up to the end of these bytes.
\<close>

definition print_int :: "bool \<Rightarrow> int \<Rightarrow> nat \<Rightarrow> quapi_runtime \<Rightarrow> quapi_runtime" where
  "print_int sep i sz r =
     (let (mem, out) = int_to_str i (rt_outbuf_stack r) sz;
          (mem', out') = (if sep then (poke mem (out - 1) '' '', out - 1) else (mem, out))
      in r\<lparr>rt_outbuf_stack := mem', rt_outbuf := out', rt_outbuf_len := int sz - int out'\<rparr>)"

section \<open>The states\<close>

type_synonym state_fun = "quapi_runtime \<Rightarrow> quapi_msg \<Rightarrow> (quapi_preload_state \<times> quapi_runtime) outcome"

definition st_waiting_for_header :: state_fun where
  "st_waiting_for_header r m =
     (let h = rt_header_data r;
          r1 = print_outbuf (''p cnf '' @ show_int (literals h) @ '' '' @ show_int (clauses h) @ [NL]) r;
          r2 = (if literals h = 0
                then r1\<lparr>rt_filler_clause := poke (rt_filler_clause r1) 0 (''0'' @ [NL]),
                        rt_filler_clause_len := 2\<rparr>
                else r1)
      in case m of
           MHeader v \<Rightarrow> Ret (READING_PREFIX, send_to_parent (MStarted QUAPI_API_VERSION) r2)
         | _ \<Rightarrow> Ret (READING_PREFIX, r2))"

definition st_reading_prefix :: state_fun where
  "st_reading_prefix r m =
     (case m of
        MQuantifier lit \<Rightarrow>
          (if lit > 0 then
             (let r1 = print_outbuf (''e '' @ show_int lit) r;
                  r2 = (if rt_quantifier_count r1 = 0
                        then (let f = show_int lit @ '' -'' @ show_int lit @ '' 0'' @ [NL] in
                              r1\<lparr>rt_filler_clause := snprintf_at (rt_filler_clause r1) 0 filler_size f,
                                 rt_filler_clause_len := length f\<rparr>)
                        else r1)
              in Ret (READING_EXISTS, r2\<lparr>rt_quantifier_count := Suc (rt_quantifier_count r2)\<rparr>))
           else if lit < 0 then
             (let r1 = print_outbuf (''a '' @ show_int (s32 (- lit))) r
              in Ret (READING_FORALL, r1\<lparr>rt_quantifier_count := Suc (rt_quantifier_count r1)\<rparr>))
           else Ret (READING_PREFIX, r))
      | MLiteral lit \<Rightarrow> Ret (READING_MATRIX, r)
      | MFork wait_flag \<Rightarrow> Ret (READING_PREFIX, fork_solving_child (r\<lparr>rt_outbuf_len := -1\<rparr>) wait_flag)
      | MSolve \<Rightarrow> Ret (READING_MATRIX, r\<lparr>rt_repeat_state := True\<rparr>)
      | _ \<Rightarrow> Undefined_Behaviour)"

definition st_reading_exists :: state_fun where
  "st_reading_exists r m =
     (case m of
        MQuantifier lit \<Rightarrow>
          (if lit < 0 then
             (let r1 = print_outbuf_stack ('' 0'' @ [NL] @ ''a '' @ show_int (s32 (- lit))) r
              in Ret (READING_FORALL, r1\<lparr>rt_quantifier_count := Suc (rt_quantifier_count r1)\<rparr>))
           else if lit > 0 then
             (let r1 = print_int True lit outbuf_size r
              in Ret (READING_EXISTS, r1\<lparr>rt_quantifier_count := Suc (rt_quantifier_count r1)\<rparr>))
           else Ret (READING_PREFIX, print_outbuf_stack ('' 0'' @ [NL]) r))
      | MLiteral lit \<Rightarrow> Ret (READING_CLAUSE, print_outbuf_stack ('' 0'' @ [NL] @ show_int lit) r)
      | _ \<Rightarrow> Undefined_Behaviour)"

definition st_reading_forall :: state_fun where
  "st_reading_forall r m =
     (case m of
        MQuantifier lit \<Rightarrow>
          (if lit > 0 then
             (let r1 = print_outbuf_stack ('' 0'' @ [NL] @ ''e '' @ show_int lit) r
              in Ret (READING_EXISTS, r1\<lparr>rt_quantifier_count := Suc (rt_quantifier_count r1)\<rparr>))
           else if lit < 0 then
             (let r1 = print_int True (s32 (- lit)) outbuf_size r
              in Ret (READING_FORALL, r1\<lparr>rt_quantifier_count := Suc (rt_quantifier_count r1)\<rparr>))
           else Ret (READING_PREFIX, print_outbuf_stack ('' 0'' @ [NL]) r))
      | MLiteral lit \<Rightarrow> Ret (READING_CLAUSE, print_outbuf_stack ('' 0'' @ [NL] @ show_int lit) r)
      | _ \<Rightarrow> Undefined_Behaviour)"

definition st_reading_clause :: state_fun where
  "st_reading_clause r m =
     (case m of
        MLiteral lit \<Rightarrow>
          (let r1 = print_int True lit (outbuf_size - 1) r in
           if lit = 0 then
             Ret (READING_MATRIX,
               r1\<lparr>rt_outbuf_stack := poke (rt_outbuf_stack r1) (outbuf_size - 1) [NL],
                  rt_outbuf_len := rt_outbuf_len r1 + 1,
                  rt_written_clauses := s32 (rt_written_clauses r1 + 1)\<rparr>)
           else Ret (READING_CLAUSE, r1))
      | _ \<Rightarrow> Undefined_Behaviour)"

definition st_reading_matrix :: state_fun where
  "st_reading_matrix r m =
     (case m of
        MLiteral lit \<Rightarrow>
          (let r1 = print_int False lit outbuf_size r in
           if lit = 0 then Ret (READING_MATRIX, r1) else Ret (READING_CLAUSE, r1))
      | MFork wait_flag \<Rightarrow> Ret (READING_MATRIX, (fork_solving_child r wait_flag)\<lparr>rt_outbuf_len := -1\<rparr>)
      | MSolve \<Rightarrow>
          (if rt_written_clauses r < clauses (rt_header_data r) then
             Ret (READING_MATRIX,
               r\<lparr>rt_outbuf_stack := poke (rt_outbuf_stack r) (rt_outbuf r)
                                      (peek (rt_filler_clause r) 0 (rt_filler_clause_len r)),
                 rt_outbuf_len := int (rt_filler_clause_len r),
                 rt_written_clauses := s32 (rt_written_clauses r + 1),
                 rt_repeat_state := True\<rparr>)
           else Ret (WORKING, r\<lparr>rt_repeat_state := False\<rparr>))
      | _ \<Rightarrow> Ret (READING_MATRIX, r))"

definition st_working :: state_fun where
  "st_working r m = Ret (WORKING, r\<lparr>rt_stdin_open := False, rt_outbuf_len := -2\<rparr>)"

text \<open>Calling \<open>r->state\<close>; the states that are no functions are never stored.\<close>

fun state_function :: "quapi_preload_state \<Rightarrow> state_fun" where
  "state_function WAITING_FOR_HEADER = st_waiting_for_header"
| "state_function READING_PREFIX = st_reading_prefix"
| "state_function READING_EXISTS = st_reading_exists"
| "state_function READING_FORALL = st_reading_forall"
| "state_function READING_CLAUSE = st_reading_clause"
| "state_function READING_MATRIX = st_reading_matrix"
| "state_function WORKING = st_working"
| "state_function PRELOAD_UNINITIATED = (\<lambda>r m. Undefined_Behaviour)"
| "state_function PRELOAD_UNKNOWN = (\<lambda>r m. Undefined_Behaviour)"

definition run_state :: "quapi_runtime \<Rightarrow> quapi_msg \<Rightarrow> quapi_runtime outcome" where
  "run_state r m =
     bind_outcome (state_function (rt_state r) r m) (\<lambda>(st, r'). Ret (r'\<lparr>rt_state := st\<rparr>))"

section \<open>Advancing the machine\<close>

definition read_msg :: "quapi_runtime \<Rightarrow> (quapi_msg option \<times> quapi_runtime) outcome" where
  "read_msg r =
     bind_outcome (quapi_read_msg_from_file True file_read (rt_in_stream r) (rt_header_data r))
       (\<lambda>(res, f). case res of
          None \<Rightarrow> Ret (None, r\<lparr>rt_in_stream := f\<rparr>)
        | Some (m, h) \<Rightarrow>
            Ret (Some m, r\<lparr>rt_in_stream := f, rt_header_data := h, rt_last_read_msg := m\<rparr>))"

text \<open>The inner loop of \<open>advance_state\<close>: states run on one message until text is there.\<close>

partial_function (option) state_loop :: "quapi_runtime \<Rightarrow> quapi_msg \<Rightarrow> quapi_runtime outcome option" where
  "state_loop r m =
     (if rt_outbuf_len r = 0 then
        (case run_state r m of
           Ret r' \<Rightarrow> state_loop r' m
         | Exited n \<Rightarrow> Some (Exited n)
         | Assert_Failed \<Rightarrow> Some Assert_Failed
         | Undefined_Behaviour \<Rightarrow> Some Undefined_Behaviour)
      else Some (Ret r))"

text \<open>The outer loop: messages are read until one gives text.\<close>

partial_function (option) message_loop :: "quapi_runtime \<Rightarrow> quapi_runtime outcome option" where
  "message_loop r =
     (if rt_outbuf_len r = -1 then
        (case read_msg r of
           Ret (mo, r1) \<Rightarrow>
             (case mo of
                None \<Rightarrow> Some (Exited 0)
              | Some m \<Rightarrow>
                  Option.bind (state_loop (r1\<lparr>rt_outbuf_len := 0\<rparr>) m)
                    (\<lambda>res. case res of
                       Ret r2 \<Rightarrow> message_loop r2
                     | Exited n \<Rightarrow> Some (Exited n)
                     | Assert_Failed \<Rightarrow> Some Assert_Failed
                     | Undefined_Behaviour \<Rightarrow> Some Undefined_Behaviour))
         | Exited n \<Rightarrow> Some (Exited n)
         | Assert_Failed \<Rightarrow> Some Assert_Failed
         | Undefined_Behaviour \<Rightarrow> Some Undefined_Behaviour)
      else Some (Ret r))"

definition advance_state :: "quapi_runtime \<Rightarrow> quapi_runtime outcome option" where
  "advance_state r =
     (if rt_outbuf_len r = -2 then Some (Ret r)
      else if rt_repeat_state r then Some (run_state (r\<lparr>rt_outbuf_len := 0\<rparr>) (rt_last_read_msg r))
      else message_loop (r\<lparr>rt_outbuf_len := -1\<rparr>))"

section \<open>Reading\<close>

text \<open>
  \<open>process_buf_for_dbg_print\<close> writes a visible line end and a terminator into a buffer
  for a trace message. The buffer's length is \<open>buf_len\<close>.
\<close>

definition process_buf_for_dbg_print :: "string \<Rightarrow> nat \<Rightarrow> int \<times> string" where
  "process_buf_for_dbg_print buf content_len =
     (if content_len + 1 \<ge> length buf then (0, buf)
      else if buf ! (content_len - 1) = NL \<and> content_len + 4 < length buf then
        (2, poke buf (content_len - 1) [CHR 0xE2, CHR 0x8F, CHR 0x8E, NUL])
      else (1, buf[content_len := NUL]))"

text \<open>The trace output of \<open>update_buf\<close> marks the caller's buffer and undoes the mark.\<close>

definition trace_buf :: "string \<Rightarrow> nat \<Rightarrow> string" where
  "trace_buf buf len =
     (if len + 1 < length buf then
        (let (str_trace, buf1) = process_buf_for_dbg_print buf len;
             buf2 = (if str_trace > 0 then buf1[len := NUL] else buf1)
         in if str_trace = 2 then buf2[len - 1 := NL] else buf2)
      else buf)"

definition update_buf :: "bool \<Rightarrow> quapi_runtime \<Rightarrow> string \<Rightarrow> int \<times> string \<times> quapi_runtime" where
  "update_buf trace r buf =
     (if rt_outbuf_len r = -2 then (0, buf, r)
      else
        (let len = min (rt_outbuf_len r - rt_outbuf_written r) (int (length buf)) in
         if len > 0 then
           (let buf1 = poke buf 0 (peek (rt_outbuf_stack r) (rt_outbuf r + nat (rt_outbuf_written r)) (nat len));
                r1 = r\<lparr>rt_outbuf_written := rt_outbuf_written r + len\<rparr>;
                buf2 = (if trace then trace_buf buf1 (nat len) else buf1)
            in (len, buf2, r1))
         else (len, buf, r)))"

text \<open>
  \<open>quapi_read\<close> into the caller's buffer; the result is the number of bytes, the buffer
  and the runtime.
\<close>

definition quapi_read :: "bool \<Rightarrow> quapi_runtime \<Rightarrow> string \<Rightarrow> (int \<times> string \<times> quapi_runtime) outcome option" where
  "quapi_read trace r buf =
     (let (bytes, buf1, r1) = update_buf trace r buf;
          mark_eof = (\<lambda>(bytes, buf, r).
             (bytes, if bytes = 0 \<and> 0 < length buf then buf[0 := CHR 0xFF] else buf, r))
      in if bytes = 0 then
           (case advance_state (r1\<lparr>rt_outbuf := 0, rt_outbuf_written := 0\<rparr>) of
              None \<Rightarrow> None
            | Some (Ret r2) \<Rightarrow> Some (Ret (mark_eof (update_buf trace r2 buf1)))
            | Some (Exited n) \<Rightarrow> Some (Exited n)
            | Some Assert_Failed \<Rightarrow> Some Assert_Failed
            | Some Undefined_Behaviour \<Rightarrow> Some Undefined_Behaviour)
         else Some (Ret (mark_eof (bytes, buf1, r1))))"

end
