(* ===== verification/Quapi_Emission.thy ===== *)
theory Quapi_Emission
  imports Quapi_Runtime
begin

text \<open>
  What the runtime's machine prints, without its buffers. The view of a runtime is what
  its next texts depend on; \<open>emit\<close> is the text of one message and the next view,
  \<open>None\<close> for a message the protocol does not allow there; \<open>stream_text\<close> is the
  text up to the end of file for a sequence of messages. The lemmas relate one
  run of \<open>state_loop\<close> in the 64-byte buffer to \<open>emit\<close>, and \<open>message_loop\<close> to
  \<open>stream_text\<close>.
\<close>

section \<open>The abstract machine\<close>

record rview =
  v_state :: quapi_preload_state
  v_clauses :: int
  v_filler :: string
  v_written :: int
  v_quantifiers :: nat

definition view :: "quapi_runtime \<Rightarrow> rview" where
  "view r = \<lparr>v_state = rt_state r, v_clauses = clauses (rt_header_data r),
     v_filler = peek (rt_filler_clause r) 0 (rt_filler_clause_len r),
     v_written = rt_written_clauses r, v_quantifiers = rt_quantifier_count r\<rparr>"

definition header_text :: "quapi_msg_header_data \<Rightarrow> string" where
  "header_text h = ''p cnf '' @ show_int (literals h) @ '' '' @ show_int (clauses h) @ [NL]"

definition filler_text :: "int \<Rightarrow> string" where
  "filler_text lit = show_int lit @ '' -'' @ show_int lit @ '' 0'' @ [NL]"

definition block_end :: string where
  "block_end = '' 0'' @ [NL]"

fun emit_quantifier :: "rview \<Rightarrow> int \<Rightarrow> (string \<times> rview) option" where
  "emit_quantifier v lit =
     (let v' = v\<lparr>v_quantifiers := Suc (v_quantifiers v)\<rparr> in
      if \<not> lit_ok lit then None
      else case v_state v of
        READING_PREFIX \<Rightarrow>
          (if lit > 0 then
             Some (''e '' @ show_int lit, v'\<lparr>v_state := READING_EXISTS,
               v_filler := if v_quantifiers v = 0 then filler_text lit else v_filler v\<rparr>)
           else if lit < 0 then Some (''a '' @ show_int (- lit), v'\<lparr>v_state := READING_FORALL\<rparr>)
           else None)
      | READING_EXISTS \<Rightarrow>
          (if lit > 0 then Some ('' '' @ show_int lit, v')
           else if lit < 0 then
             Some (block_end @ ''a '' @ show_int (- lit), v'\<lparr>v_state := READING_FORALL\<rparr>)
           else Some (block_end, v\<lparr>v_state := READING_PREFIX\<rparr>))
      | READING_FORALL \<Rightarrow>
          (if lit > 0 then
             Some (block_end @ ''e '' @ show_int lit, v'\<lparr>v_state := READING_EXISTS\<rparr>)
           else if lit < 0 then Some ('' '' @ show_int (- lit), v')
           else Some (block_end, v\<lparr>v_state := READING_PREFIX\<rparr>))
      | _ \<Rightarrow> None)"

fun emit_literal :: "rview \<Rightarrow> int \<Rightarrow> (string \<times> rview) option" where
  "emit_literal v lit =
     (if \<not> lit_ok lit then None
      else if v_state v \<in> {READING_PREFIX, READING_MATRIX} then
        Some (show_int lit, v\<lparr>v_state := if lit = 0 then READING_MATRIX else READING_CLAUSE\<rparr>)
      else if v_state v \<in> {READING_EXISTS, READING_FORALL} then
        Some (block_end @ show_int lit, v\<lparr>v_state := READING_CLAUSE\<rparr>)
      else if v_state v = READING_CLAUSE then
        (if lit = 0 then
           Some (block_end, v\<lparr>v_state := READING_MATRIX, v_written := s32 (v_written v + 1)\<rparr>)
         else Some ('' '' @ show_int lit, v))
      else None)"

lemma emit_quantifier_lit_ok: "emit_quantifier v lit = Some x \<Longrightarrow> lit_ok lit"
  by (rule ccontr) simp

lemma emit_literal_lit_ok: "emit_literal v lit = Some x \<Longrightarrow> lit_ok lit"
  by (rule ccontr) simp

fun emit :: "quapi_msg_header_data \<Rightarrow> rview \<Rightarrow> quapi_msg \<Rightarrow> (string \<times> rview) option" where
  "emit h v (MHeader x) =
     (if v_state v = WAITING_FOR_HEADER then
        Some (header_text h, v\<lparr>v_state := READING_PREFIX, v_clauses := clauses h,
          v_filler := if literals h = 0 then ''0'' @ [NL] else v_filler v\<rparr>)
      else None)"
| "emit h v (MQuantifier lit) = emit_quantifier v lit"
| "emit h v (MLiteral lit) = emit_literal v lit"
| "emit h v _ = None"

text \<open>The fillers that bring the number of clauses up to the header's.\<close>

definition fillers :: "rview \<Rightarrow> string" where
  "fillers v = concat (replicate (nat (v_clauses v - v_written v)) (v_filler v))"

fun stream_text :: "quapi_msg_header_data \<Rightarrow> rview \<Rightarrow> quapi_msg list \<Rightarrow> string option" where
  "stream_text h v [] = None"
| "stream_text h v (m # ms) =
     (case m of
        MSolve \<Rightarrow>
          (if v_state v \<in> {READING_PREFIX, READING_MATRIX} then Some (fillers v) else None)
      | MFork w \<Rightarrow>
          (if v_state v \<in> {READING_PREFIX, READING_MATRIX} then stream_text h v ms else None)
      | _ \<Rightarrow>
          (case emit h v m of
             None \<Rightarrow> None
           | Some (t, v') \<Rightarrow> map_option (\<lambda>t'. t @ t') (stream_text h v' ms)))"

section \<open>The buffer\<close>

definition rt_wf :: "quapi_runtime \<Rightarrow> bool" where
  "rt_wf r \<longleftrightarrow> length (rt_outbuf_stack r) = outbuf_size \<and> length (rt_filler_clause r) = filler_size
     \<and> 0 < rt_filler_clause_len r \<and> rt_filler_clause_len r \<le> filler_size
     \<and> in32 (rt_written_clauses r)"

text \<open>The output buffer presents the text \<open>t\<close>, inside the array.\<close>

definition presents :: "quapi_runtime \<Rightarrow> string \<Rightarrow> bool" where
  "presents r t \<longleftrightarrow> rt_outbuf_len r = int (length t)
     \<and> rt_outbuf r + length t \<le> outbuf_size
     \<and> peek (rt_outbuf_stack r) (rt_outbuf r) (length t) = t"

text \<open>The parts of the runtime that printing leaves alone.\<close>

definition same_input :: "quapi_runtime \<Rightarrow> quapi_runtime \<Rightarrow> bool" where
  "same_input r r' \<longleftrightarrow> rt_in_stream r' = rt_in_stream r \<and> rt_forks r' = rt_forks r
     \<and> rt_header_data r' = rt_header_data r \<and> rt_last_read_msg r' = rt_last_read_msg r
     \<and> rt_outbuf_written r' = rt_outbuf_written r \<and> rt_repeat_state r' = rt_repeat_state r"

lemma send_to_parent_eq:
  "msg_type m \<noteq> MSG_HEADER \<Longrightarrow>
   send_to_parent m r = r\<lparr>rt_to_parent := rt_to_parent r @ msg_arr (replicate 4 0) m\<rparr>"
  by (simp add: send_to_parent_def quapi_write_msg_to_fd_def pipe_write_def)

lemma peek_snprintf_at [c_mem]:
  "off \<le> length mem \<Longrightarrow> length s < sz \<Longrightarrow> n = length s \<Longrightarrow> peek (snprintf_at mem off sz s) off n = s"
  by (simp add: snprintf_at_def c_mem)

lemma length_snprintf_at [c_mem]:
  "length s < sz \<Longrightarrow> off + sz \<le> length mem \<Longrightarrow> length (snprintf_at mem off sz s) = length mem"
  by (simp add: snprintf_at_def c_mem)

lemma print_outbuf_presents:
  assumes "rt_outbuf r = 0" and "length (rt_outbuf_stack r) = outbuf_size" and "length s < outbuf_size"
  shows "presents (print_outbuf s r) s"
    and "length (rt_outbuf_stack (print_outbuf s r)) = outbuf_size"
  using assms
  by (simp_all add: presents_def print_outbuf_def c_mem)

definition int_text :: "bool \<Rightarrow> int \<Rightarrow> string" where
  "int_text sep i = (if sep then '' '' else []) @ show_int i"

lemma length_int_text: "lit_ok i \<Longrightarrow> length (int_text sep i) \<le> 12"
  using length_show_int [OF lit_ok_in32, of i] by (simp add: int_text_def)

lemma print_int_eq:
  assumes "lit_ok i" and "12 \<le> sz" and "sz \<le> length (rt_outbuf_stack r)"
  shows "print_int sep i sz r =
    r\<lparr>rt_outbuf_stack := poke (rt_outbuf_stack r) (sz - length (int_text sep i)) (int_text sep i),
      rt_outbuf := sz - length (int_text sep i), rt_outbuf_len := int (length (int_text sep i))\<rparr>"
proof -
  have "length (show_int i) \<le> 11" using assms(1) by (intro length_show_int lit_ok_in32)
  moreover have "int_to_str i (rt_outbuf_stack r) sz =
      (poke (rt_outbuf_stack r) (sz - length (show_int i)) (show_int i), sz - length (show_int i))"
    using assms by (intro int_to_str_show) auto
  ultimately show ?thesis
    using assms(2,3) by (auto simp: print_int_def int_text_def poke_before_poke of_nat_diff)
qed

lemma poke_end_presents:
  assumes "length t \<le> sz" and "sz \<le> length mem"
  shows "peek (poke mem (sz - length t) t) (sz - length t) (length t) = t"
    and "length (poke mem (sz - length t) t) = length mem"
  using assms by (simp_all add: c_mem)

lemma peek_poke_next:
  "off + n + 1 \<le> length mem \<Longrightarrow> peek (poke mem (off + n) [c]) off (Suc n) = peek mem off n @ [c]"
  by (simp add: peek_def poke_def drop_append min_def drop_take)

lemma peek_clause_end [c_mem]:
  "length mem = 64 \<Longrightarrow> peek (poke (poke mem 61 '' 0'') 63 [c]) 61 (Suc (Suc (Suc 0))) = '' 0'' @ [c]"
  using peek_poke_next [of 61 2 "poke mem 61 '' 0''" c]
  by (simp add: c_mem eval_nat_numeral)

section \<open>One message through the state loop\<close>

text \<open>What one run of the inner loop owes to \<open>emit\<close>.\<close>

definition emitted :: "quapi_runtime \<Rightarrow> string \<Rightarrow> rview \<Rightarrow> quapi_runtime \<Rightarrow> bool" where
  "emitted r t v' r' \<longleftrightarrow> view r' = v' \<and> presents r' t \<and> t \<noteq> [] \<and> rt_wf r' \<and> same_input r r'"

lemma state_loop_stop: "rt_outbuf_len r \<noteq> 0 \<Longrightarrow> state_loop r m = Some (Ret r)"
  by (subst state_loop.simps) simp

lemma state_loop_step: "rt_outbuf_len r = 0 \<Longrightarrow> run_state r m = Ret r' \<Longrightarrow> state_loop r m = state_loop r' m"
  by (subst state_loop.simps) simp

lemma state_loop_emitted:
  assumes "rt_outbuf_len r = 0" and "run_state r m = Ret r'" and "emitted r t v' r'"
  shows "\<exists>r'. state_loop r m = Some (Ret r') \<and> emitted r t v' r'"
proof -
  have "rt_outbuf_len r' \<noteq> 0" using assms(3) by (simp add: emitted_def presents_def)
  then have "state_loop r m = Some (Ret r')"
    using state_loop_step [OF assms(1,2)] state_loop_stop by simp
  with assms(3) show ?thesis by blast
qed

lemmas emission_defs = emitted_def view_def rt_wf_def same_input_def run_state_def

lemma emitted_print_outbuf:
  assumes "emitted r t v' (print_outbuf t (r'\<lparr>rt_outbuf := 0\<rparr>))"
  shows "emitted r t v' (print_outbuf_stack t r')"
  using assms by (simp add: print_outbuf_stack_def)

lemma literal_lengths:
  "lit_ok i \<Longrightarrow> length (show_int i) \<le> 11"
  by (intro length_show_int lit_ok_in32)

lemma emit_header:
  assumes "rt_wf r" "rt_outbuf_len r = 0" "rt_outbuf r = 0" "header_ok (rt_header_data r)"
    and "rt_state r = WAITING_FOR_HEADER"
  shows "\<exists>r'. state_loop r (MHeader x) = Some (Ret r') \<and>
    emitted r (header_text (rt_header_data r))
      ((view r)\<lparr>v_state := READING_PREFIX,
         v_filler := if literals (rt_header_data r) = 0 then ''0'' @ [NL] else v_filler (view r)\<rparr>) r'"
proof -
  let ?h = "rt_header_data r"
  have "length (show_int (literals ?h)) \<le> 11" "length (show_int (clauses ?h)) \<le> 11"
    using assms(4) by (auto simp: header_ok_def header_fields_def intro: length_show_int)
  then have len: "length (header_text ?h) < outbuf_size"
    by (simp add: header_text_def outbuf_size_def)
  obtain r' where r': "run_state r (MHeader x) = Ret r'"
    and eq: "r' = (if literals ?h = 0
        then (print_outbuf (header_text ?h) r)\<lparr>rt_filler_clause := poke (rt_filler_clause r) 0 (''0'' @ [NL]),
               rt_filler_clause_len := 2\<rparr>
        else print_outbuf (header_text ?h) r)
      \<lparr>rt_to_parent := rt_to_parent r @ msg_arr (replicate 4 0) (MStarted QUAPI_API_VERSION),
        rt_state := READING_PREFIX\<rparr>"
    using assms(5)
    by (simp add: run_state_def st_waiting_for_header_def header_text_def print_outbuf_def
        send_to_parent_eq Let_def)
  have "emitted r (header_text ?h)
      ((view r)\<lparr>v_state := READING_PREFIX,
         v_filler := if literals ?h = 0 then ''0'' @ [NL] else v_filler (view r)\<rparr>) r'"
    using print_outbuf_presents [OF assms(3) _ len] assms(1)
    unfolding eq emitted_def
    by (auto simp: view_def rt_wf_def same_input_def presents_def print_outbuf_def header_text_def
        filler_size_def c_mem)
  from state_loop_emitted [OF assms(2) r' this] show ?thesis .
qed

lemmas print_defs = presents_def print_outbuf_stack_def print_outbuf_def
  outbuf_size_def filler_size_def c_mem

lemma emit_prefix_quantifier:
  assumes wf: "rt_wf r" and 0: "rt_outbuf r = 0" and st: "rt_state r = READING_PREFIX"
    and em: "emit_quantifier (view r) lit = Some (t, v')"
  shows "\<exists>r'. run_state r (MQuantifier lit) = Ret r' \<and> emitted r t v' r'"
proof -
  have ok: "lit_ok lit" using em by (rule emit_quantifier_lit_ok)
  have nz: "lit \<noteq> 0"
    using em st by (auto simp: view_def Let_def split: if_splits)
  have len: "length (show_int lit) \<le> 11" "length (show_int (- lit)) \<le> 11" "s32 (- lit) = - lit"
    using ok by (simp_all add: literal_lengths s32_lit)
  have fl: "length (filler_text lit) < filler_size"
    using len by (simp add: filler_text_def filler_size_def)
  show ?thesis
    using em wf 0 st nz len fl ok
    by (auto simp: emission_defs st_reading_prefix_def print_defs filler_text_def Let_def
        split: if_splits)
qed

text \<open>A number printed backwards into the end of the buffer.\<close>

lemma print_int_emits:
  assumes "rt_wf r" "lit_ok lit"
  shows "presents (print_int True lit outbuf_size r) ('' '' @ show_int lit)"
    and "length (rt_outbuf_stack (print_int True lit outbuf_size r)) = outbuf_size"
  using assms length_int_text [OF assms(2), of True]
  by (simp_all add: print_int_eq rt_wf_def presents_def outbuf_size_def int_text_def c_mem)

lemma emit_block_quantifier:
  assumes wf: "rt_wf r" and st: "rt_state r \<in> {READING_EXISTS, READING_FORALL}"
    and em: "emit_quantifier (view r) lit = Some (t, v')"
  shows "\<exists>r'. run_state r (MQuantifier lit) = Ret r' \<and> emitted r t v' r'"
proof -
  have ok: "lit_ok lit" "lit_ok (- lit)" "s32 (- lit) = - lit"
    using emit_quantifier_lit_ok [OF em] by (simp_all add: s32_lit)
  have len: "length (show_int lit) \<le> 11" "length (show_int (- lit)) \<le> 11"
    using ok by (simp_all add: literal_lengths)
  note it = length_int_text [OF ok(1), of True] length_int_text [OF ok(2), of True]
  show ?thesis
    using em wf st len it ok
    by (auto simp: emission_defs st_reading_exists_def st_reading_forall_def print_defs
        print_int_eq int_text_def block_end_def Let_def split: if_splits)
qed

lemma emit_literal_step:
  assumes wf: "rt_wf r" and st: "rt_state r \<noteq> READING_PREFIX"
    and em: "emit_literal (view r) lit = Some (t, v')"
  shows "\<exists>r'. run_state r (MLiteral lit) = Ret r' \<and> emitted r t v' r'"
proof -
  have ok: "lit_ok lit" using em by (rule emit_literal_lit_ok)
  have s: "rt_state r \<in> {READING_EXISTS, READING_FORALL, READING_MATRIX, READING_CLAUSE}"
    using em st by (auto simp: view_def split: if_splits)
  have len: "length (show_int lit) \<le> 11" using ok by (rule literal_lengths)
  note it = length_int_text [OF ok, of True] length_int_text [OF ok, of False]
  show ?thesis
    using em wf s len it ok
    by (auto simp: emission_defs st_reading_exists_def st_reading_forall_def
        st_reading_clause_def st_reading_matrix_def print_defs
        print_int_eq int_text_def block_end_def Let_def split: if_splits)
qed

text \<open>
  A literal that ends the prefix is first taken by \<open>READING_PREFIX\<close>, which prints
  nothing, and then by \<open>READING_MATRIX\<close>.
\<close>

lemma emit_message:
  assumes wf: "rt_wf r" and len: "rt_outbuf_len r = 0" and out: "rt_outbuf r = 0"
    and h: "header_ok (rt_header_data r)" and em: "emit (rt_header_data r) (view r) m = Some (t, v')"
  shows "\<exists>r'. state_loop r m = Some (Ret r') \<and> emitted r t v' r'"
proof (cases m)
  case (MHeader x)
  with em have "rt_state r = WAITING_FOR_HEADER" by (simp add: view_def split: if_splits)
  moreover have "t = header_text (rt_header_data r)"
    and "v' = (view r)\<lparr>v_state := READING_PREFIX,
           v_filler := if literals (rt_header_data r) = 0 then ''0'' @ [NL] else v_filler (view r)\<rparr>"
    using em MHeader by (auto simp: view_def split: if_splits)
  ultimately show ?thesis
    using emit_header [OF wf len out h, of x] MHeader by simp
next
  case (MQuantifier lit)
  with em have e: "emit_quantifier (view r) lit = Some (t, v')" by simp
  have "rt_state r \<in> {READING_PREFIX, READING_EXISTS, READING_FORALL}"
    using e by (auto simp: view_def Let_def split: if_splits quapi_preload_state.splits)
  then have "\<exists>r'. run_state r (MQuantifier lit) = Ret r' \<and> emitted r t v' r'"
    using emit_prefix_quantifier [OF wf out _ e] emit_block_quantifier [OF wf _ e] by auto
  with MQuantifier state_loop_emitted [OF len] show ?thesis by blast
next
  case (MLiteral lit)
  with em have e: "emit_literal (view r) lit = Some (t, v')" by simp
  show ?thesis
  proof (cases "rt_state r = READING_PREFIX")
    case False
    from emit_literal_step [OF wf False e] MLiteral state_loop_emitted [OF len] show ?thesis by blast
  next
    case True
    let ?r = "r\<lparr>rt_state := READING_MATRIX\<rparr>"
    have e': "emit_literal (view ?r) lit = Some (t, v')"
      using e True by (simp add: view_def split: if_splits)
    have wf': "rt_wf ?r" and st': "rt_state ?r \<noteq> READING_PREFIX" using wf by (simp_all add: rt_wf_def)
    from emit_literal_step [OF wf' st' e'] obtain r'
      where r': "run_state ?r (MLiteral lit) = Ret r'" "emitted ?r t v' r'" by blast
    from state_loop_emitted [OF _ r'] len obtain r''
      where r'': "state_loop ?r (MLiteral lit) = Some (Ret r'')" "emitted ?r t v' r''" by auto
    have "state_loop r (MLiteral lit) = state_loop ?r (MLiteral lit)"
      using True len by (intro state_loop_step) (simp_all add: run_state_def st_reading_prefix_def)
    moreover have "emitted r t v' r''" using r''(2) by (simp add: emitted_def same_input_def)
    ultimately show ?thesis using r''(1) MLiteral by auto
  qed
qed (use em in simp_all)

section \<open>The messages a process gets\<close>

text \<open>
  \<open>flow h bs fs ms\<close>: with the bytes \<open>bs\<close> on its input and the results \<open>fs\<close> of its
  calls of \<open>fork\<close>, a process reads the messages \<open>ms\<close>. At a fork it stays on its input
  when it is the parent and changes to the child's when it is the child.
\<close>

inductive flow :: "quapi_msg_header_data \<Rightarrow> byte list \<Rightarrow> fork_outcome list \<Rightarrow> quapi_msg list \<Rightarrow> bool"
  for h :: quapi_msg_header_data where
  flow_end: "flow h bs fs []"
| flow_msg: "length u = 4 \<Longrightarrow> msg_ok m \<Longrightarrow> msg_type m \<noteq> MSG_FORK \<Longrightarrow> flow h bs fs ms \<Longrightarrow>
    flow h (frame u h m @ bs) fs (m # ms)"
| flow_parent: "length u = 4 \<Longrightarrow> flow h bs fs ms \<Longrightarrow>
    flow h (frame u h (MFork w) @ bs) (Fork_Parent pid st # fs) (MFork w # ms)"
| flow_child: "length u = 4 \<Longrightarrow> flow h input fs ms \<Longrightarrow>
    flow h (frame u h (MFork w) @ bs) (Fork_Child input # fs) (MFork w # ms)"

inductive_cases flow_ConsE: "flow h bs fs (m # ms)"
inductive_cases flow_forkE: "flow h bs fs (MFork w # ms)"

lemma read_msg_frame:
  assumes "rt_in_stream r = frame u h m @ bs" "length u = 4" "msg_ok m" "header_ok h"
  shows "read_msg r = Ret (Some m, r\<lparr>rt_in_stream := bs, rt_last_read_msg := m,
    rt_header_data := if msg_type m = MSG_HEADER then h else rt_header_data r\<rparr>)"
proof -
  have "file_in_carries (rt_in_stream r) (frame u h m # [bs])"
    using assms(1) by (simp add: file_in_carries_def)
  from file_source.read_msg [OF this assms(2-4), of True]
  show ?thesis by (auto simp: read_msg_def file_in_carries_def)
qed

end
