(* ===== verification/Quapi_Read.thy ===== *)
theory Quapi_Read
  imports Quapi_Emission
begin

text \<open>
  Reading from the runtime. \<open>delivers h r txt\<close> says that the runtime still owes the
  solver exactly the text \<open>txt\<close>; every call of \<open>quapi_read\<close> hands over a nonempty
  part of it, whatever the size of the caller's buffer, and the end of file when nothing
  is left. The locale \<open>char_source\<close> is that contract, for every function of the C
  library that the preload library replaces.
\<close>

section \<open>Trace output\<close>

lemma trace_buf_data:
  assumes "0 < len" and "len \<le> length buf"
  shows "take len (trace_buf buf len) = take len buf" and "length (trace_buf buf len) = length buf"
proof -
  have "take len (trace_buf buf len) = take len buf \<and> length (trace_buf buf len) = length buf"
  proof (cases "len + 1 < length buf \<and> buf ! (len - 1) = NL \<and> len + 4 < length buf")
    case True
    obtain k where k: "len = Suc k" using assms(1) by (cases len) auto
    let ?p = "poke buf k [CHR 0xE2, CHR 0x8F, CHR 0x8E, NUL]"
    have tb: "trace_buf buf len = ?p[len := NUL, k := NL]"
      using True k by (simp add: trace_buf_def process_buf_for_dbg_print_def)
    have p: "length ?p = length buf" using True k by (simp add: c_mem)
    have tp: "take k ?p = take k buf" using True k by (simp add: poke_def)
    have "take len (?p[len := NUL, k := NL]) = take k ?p @ [NL]"
      using p True k
      by (simp add: take_Suc_conv_app_nth take_update_swap list_update_append list_update_beyond min_def)
    also have "\<dots> = take len buf"
      using tp True k by (simp add: take_Suc_conv_app_nth)
    finally show ?thesis using tb p by simp
  next
    case False
    then show ?thesis
      by (auto simp: trace_buf_def process_buf_for_dbg_print_def take_update_swap list_update_beyond)
  qed
  then show "take len (trace_buf buf len) = take len buf" and "length (trace_buf buf len) = length buf"
    by simp_all
qed

section \<open>What the runtime owes\<close>

definition pending :: "quapi_runtime \<Rightarrow> string" where
  "pending r = (if rt_outbuf_len r = -2 then []
     else peek (rt_outbuf_stack r) (rt_outbuf r + nat (rt_outbuf_written r))
            (nat (rt_outbuf_len r - rt_outbuf_written r)))"

definition owes_messages :: "quapi_msg_header_data \<Rightarrow> quapi_runtime \<Rightarrow> string \<Rightarrow> bool" where
  "owes_messages h r t \<longleftrightarrow> \<not> rt_repeat_state r
     \<and> (\<exists>ms. flow h (rt_in_stream r) (rt_forks r) ms \<and> stream_text h (view r) ms = Some t)"

definition owes_fillers :: "quapi_runtime \<Rightarrow> string \<Rightarrow> bool" where
  "owes_fillers r t \<longleftrightarrow> rt_repeat_state r \<and> rt_last_read_msg r = MSolve
     \<and> rt_state r = READING_MATRIX \<and> t = fillers (view r)"

definition buffer_ok :: "quapi_runtime \<Rightarrow> bool" where
  "buffer_ok r \<longleftrightarrow> 0 \<le> rt_outbuf_written r \<and> rt_outbuf_written r \<le> rt_outbuf_len r
     \<and> int (rt_outbuf r) + rt_outbuf_len r \<le> int outbuf_size"

definition delivers :: "quapi_msg_header_data \<Rightarrow> quapi_runtime \<Rightarrow> string \<Rightarrow> bool" where
  "delivers h r txt \<longleftrightarrow> rt_wf r \<and> header_ok h \<and> header_ok (rt_header_data r)
     \<and> (rt_outbuf_len r = -2 \<and> txt = []
        \<or> buffer_ok r \<and> (\<exists>t. (owes_messages h r t \<or> owes_fillers r t) \<and> txt = pending r @ t))"

text \<open>A runtime that just got text into its buffer, or has none left to give.\<close>

definition supplied :: "quapi_msg_header_data \<Rightarrow> quapi_runtime \<Rightarrow> string \<Rightarrow> bool" where
  "supplied h r t \<longleftrightarrow> rt_outbuf_written r = 0
     \<and> (if t = [] then rt_outbuf_len r \<in> {0, -2} else pending r \<noteq> [] \<and> delivers h r t)"

lemma length_pending: "buffer_ok r \<Longrightarrow> rt_wf r \<Longrightarrow> int (length (pending r)) = rt_outbuf_len r - rt_outbuf_written r"
  by (auto simp: pending_def buffer_ok_def rt_wf_def peek_def)

lemma update_buf_pending:
  assumes d: "delivers h r txt" and p: "pending r \<noteq> []" and b: "0 < length buf"
  shows "\<exists>k buf' r'. update_buf trace r buf = (int k, buf', r') \<and> 0 < k \<and> k \<le> length buf
    \<and> k \<le> length txt \<and> length buf' = length buf \<and> take k buf' = take k txt \<and> delivers h r' (drop k txt)"
proof -
  have wf: "rt_wf r" and bo: "buffer_ok r" and opn: "rt_outbuf_len r \<noteq> -2"
    using d p by (auto simp: delivers_def pending_def)
  obtain t where t: "owes_messages h r t \<or> owes_fillers r t" and tx: "txt = pending r @ t"
    using d opn by (auto simp: delivers_def)
  define k where "k = min (length (pending r)) (length buf)"
  have k: "0 < k" "k \<le> length buf" "k \<le> length (pending r)" using p b by (auto simp: k_def)
  have len: "min (rt_outbuf_len r - rt_outbuf_written r) (int (length buf)) = int k"
    using length_pending [OF bo wf] by (simp add: k_def)
  let ?r = "r\<lparr>rt_outbuf_written := rt_outbuf_written r + int k\<rparr>"
  let ?data = "peek (rt_outbuf_stack r) (rt_outbuf r + nat (rt_outbuf_written r)) k"
  have lp: "length (pending r) = nat (rt_outbuf_len r - rt_outbuf_written r)"
    using length_pending [OF bo wf] by linarith
  have "k \<le> nat (rt_outbuf_len r - rt_outbuf_written r)" using k(3) lp by simp
  then have data: "?data = take k (pending r)"
    using opn by (simp add: pending_def peek_take min_def)
  then have ld: "length ?data = k" using k(3) by simp
  let ?buf = "poke buf 0 ?data"
  have pb: "length ?buf = length buf" "take k ?buf = take k (pending r)"
    using ld k data by (simp_all add: poke_def)
  let ?buf' = "if trace then trace_buf ?buf k else ?buf"
  have u: "update_buf trace r buf = (int k, ?buf', ?r)"
    using opn len k(1) by (simp add: update_buf_def Let_def)
  have b': "length ?buf' = length buf" "take k ?buf' = take k (pending r)"
    using trace_buf_data [of k ?buf] k(1,2) pb by simp_all
  have "nat (rt_outbuf_len r - (rt_outbuf_written r + int k)) = nat (rt_outbuf_len r - rt_outbuf_written r) - k"
    by linarith
  moreover have "nat (rt_outbuf_written r + int k) = nat (rt_outbuf_written r) + k"
    using bo by (simp add: buffer_ok_def nat_add_distrib)
  ultimately have "pending ?r = drop k (pending r)"
    using opn by (simp add: pending_def peek_drop add.assoc)
  moreover have "buffer_ok ?r" using bo k(3) lp by (simp add: buffer_ok_def) linarith
  ultimately have "delivers h ?r (drop k txt)"
    using d t opn tx k(3)
    by (auto simp: delivers_def rt_wf_def owes_messages_def owes_fillers_def view_def)
  with u b' k tx show ?thesis by (intro exI [of _ k] exI [of _ ?buf'] exI [of _ ?r]) simp
qed

lemma update_buf_empty:
  "buffer_ok r \<or> rt_outbuf_len r = -2 \<Longrightarrow> rt_wf r \<Longrightarrow> pending r = [] \<Longrightarrow> update_buf trace r buf = (0, buf, r)"
  using length_pending [of r] by (auto simp: update_buf_def)

section \<open>Getting more text\<close>

text \<open>A runtime whose buffer was just emptied, before a message is looked at.\<close>

definition rewound :: "quapi_runtime \<Rightarrow> bool" where
  "rewound r \<longleftrightarrow> rt_wf r \<and> rt_outbuf r = 0 \<and> rt_outbuf_written r = 0 \<and> header_ok (rt_header_data r)"

lemma presents_pending: "presents r t \<Longrightarrow> rt_outbuf_written r = 0 \<Longrightarrow> pending r = t \<and> buffer_ok r"
  by (auto simp: presents_def pending_def buffer_ok_def)

lemma fillers_step:
  assumes "v_written v < v_clauses v" and "in32 (v_written v)" and "in32 (v_clauses v)"
  shows "fillers v = v_filler v @ fillers (v\<lparr>v_written := s32 (v_written v + 1)\<rparr>)"
proof -
  have "in32 (v_written v + 1)" using assms by (simp add: in32_def)
  moreover have "nat (v_clauses v - v_written v) = Suc (nat (v_clauses v - (v_written v + 1)))"
    using assms(1) by simp
  ultimately show ?thesis by (simp add: fillers_def s32_id)
qed

lemma solve_state:
  assumes r: "rewound r" and st: "rt_state r = READING_MATRIX" and len: "rt_outbuf_len r = 0"
    and last: "rt_last_read_msg r = MSolve" and h: "header_ok h"
  obtains (filler) r' where "run_state r MSolve = Ret r'" "supplied h r' (fillers (view r))"
      "fillers (view r) \<noteq> []" "rt_outbuf_len r' \<noteq> 0" "rt_outbuf_len r' \<noteq> -1"
  | (finished) "run_state r MSolve = Ret (r\<lparr>rt_repeat_state := False, rt_state := WORKING\<rparr>)"
      "fillers (view r) = []"
proof (cases "rt_written_clauses r < clauses (rt_header_data r)")
  case True
  let ?f = "peek (rt_filler_clause r) 0 (rt_filler_clause_len r)"
  let ?r = "r\<lparr>rt_outbuf_stack := poke (rt_outbuf_stack r) 0 ?f,
      rt_outbuf_len := int (rt_filler_clause_len r),
      rt_written_clauses := s32 (rt_written_clauses r + 1), rt_repeat_state := True\<rparr>"
  have wf: "rt_wf r" "rt_outbuf r = 0" "rt_outbuf_written r = 0" "header_ok (rt_header_data r)"
    using r by (simp_all add: rewound_def)
  have lf: "length ?f = rt_filler_clause_len r" using wf(1) by (simp add: rt_wf_def c_mem)
  have run: "run_state r MSolve = Ret ?r"
    using True st wf(2) by (simp add: run_state_def st_reading_matrix_def)
  have cl: "in32 (clauses (rt_header_data r))"
    using wf(4) by (simp add: header_ok_def header_fields_def)
  have fl: "fillers (view r) = ?f @ fillers (view ?r)"
    using fillers_step [of "view r"] True wf(1) cl by (simp add: view_def rt_wf_def)
  have pr: "presents ?r ?f"
    using wf lf by (simp add: presents_def rt_wf_def outbuf_size_def filler_size_def c_mem)
  from presents_pending [OF this] wf(3) have pd: "pending ?r = ?f" "buffer_ok ?r" by simp_all
  have wf': "rt_wf ?r" using wf lf by (simp add: rt_wf_def outbuf_size_def filler_size_def c_mem)
  have "delivers h ?r (fillers (view r))"
    unfolding delivers_def using wf' h wf(4) pd last st fl
    by (auto simp: owes_fillers_def)
  moreover have ne: "?f \<noteq> []" using lf wf(1) by (auto simp: rt_wf_def)
  ultimately have sup: "supplied h ?r (fillers (view r))" and "fillers (view r) \<noteq> []"
    using pd(1) wf(3) fl by (simp_all add: supplied_def)
  then show ?thesis using filler [OF run] wf(1) by (simp add: rt_wf_def)
next
  case False
  have "run_state r MSolve = Ret (r\<lparr>rt_repeat_state := False, rt_state := WORKING\<rparr>)"
    using False st by (simp add: run_state_def st_reading_matrix_def)
  moreover have "fillers (view r) = []" using False by (simp add: fillers_def view_def)
  ultimately show ?thesis by (rule finished)
qed

lemma working_state: "rt_state r = WORKING \<Longrightarrow> rt_outbuf_len r = 0 \<Longrightarrow>
    state_loop r m = Some (Ret (r\<lparr>rt_stdin_open := False, rt_outbuf_len := -2\<rparr>))"
  by (subst state_loop_step [where r' = "r\<lparr>rt_stdin_open := False, rt_outbuf_len := -2\<rparr>"])
    (simp_all add: run_state_def st_working_def state_loop_stop)

lemma solve_loop:
  assumes r: "rewound r" and st: "rt_state r \<in> {READING_PREFIX, READING_MATRIX}" and len: "rt_outbuf_len r = 0"
    and last: "rt_last_read_msg r = MSolve" and h: "header_ok h"
  shows "\<exists>r'. state_loop r MSolve = Some (Ret r') \<and> supplied h r' (fillers (view r))
    \<and> rt_outbuf_len r' \<noteq> -1"
proof -
  have matrix: "\<exists>r'. state_loop r MSolve = Some (Ret r') \<and> supplied h r' (fillers (view r))
    \<and> rt_outbuf_len r' \<noteq> -1"
    if r: "rewound r" and st: "rt_state r = READING_MATRIX" and len: "rt_outbuf_len r = 0"
      and last: "rt_last_read_msg r = MSolve" for r
    using r st len last h
  proof (cases rule: solve_state)
    case (filler r')
    then show ?thesis
      using state_loop_step [OF len filler(1)] state_loop_stop [of r'] by auto
  next
    case finished
    let ?r = "r\<lparr>rt_repeat_state := False, rt_state := WORKING\<rparr>"
    have "state_loop r MSolve = state_loop ?r MSolve" by (rule state_loop_step [OF len finished(1)])
    also have "\<dots> = Some (Ret (?r\<lparr>rt_stdin_open := False, rt_outbuf_len := -2\<rparr>))"
      using len by (intro working_state) simp_all
    finally show ?thesis using finished(2) r by (auto simp: supplied_def rewound_def)
  qed
  show ?thesis
  proof (cases "rt_state r = READING_MATRIX")
    case True
    with matrix [OF r _ len last] show ?thesis by blast
  next
    case False
    with st have prefix: "rt_state r = READING_PREFIX" by simp
    let ?r = "r\<lparr>rt_repeat_state := True, rt_state := READING_MATRIX\<rparr>"
    have "state_loop r MSolve = state_loop ?r MSolve"
      using prefix len by (intro state_loop_step) (simp_all add: run_state_def st_reading_prefix_def)
    moreover have "rewound ?r" using r by (simp add: rewound_def rt_wf_def)
    moreover have "fillers (view ?r) = fillers (view r)" by (simp add: view_def fillers_def)
    ultimately show ?thesis using matrix [of ?r] len last by simp
  qed
qed

section \<open>The message loop\<close>

lemma fork_frame:
  "rt_state (fork_solving_child r w) = rt_state r"
  "rt_repeat_state (fork_solving_child r w) = rt_repeat_state r"
  "view (fork_solving_child r w) = view r"
  "rewound (fork_solving_child r w) = rewound r"
  by (auto simp: fork_solving_child_def send_to_parent_eq view_def rewound_def rt_wf_def Let_def
      split: list.splits fork_outcome.splits)

text \<open>After a fork the process reads on from its own input, or from the child's.\<close>

definition forks_to :: "quapi_runtime \<Rightarrow> byte list \<Rightarrow> fork_outcome list \<Rightarrow> bool" where
  "forks_to r input fs \<longleftrightarrow>
     (\<exists>pid st. rt_forks r = Fork_Parent pid st # fs) \<and> input = rt_in_stream r
     \<or> rt_forks r = Fork_Child input # fs"

lemma fork_input:
  "forks_to r input fs \<Longrightarrow> rt_in_stream (fork_solving_child r w) = input"
  "forks_to r input fs \<Longrightarrow> rt_forks (fork_solving_child r w) = fs"
  by (auto simp: forks_to_def fork_solving_child_def send_to_parent_eq Let_def)

lemma view_outbuf_len [simp]: "view (r\<lparr>rt_outbuf_len := x\<rparr>) = view r"
  by (simp add: view_def)

lemma rewound_outbuf_len [simp]: "rewound (r\<lparr>rt_outbuf_len := x\<rparr>) = rewound r"
  by (simp add: rewound_def rt_wf_def)

lemma fork_outbuf_len:
  "fork_solving_child (r\<lparr>rt_outbuf_len := x\<rparr>) w = (fork_solving_child r w)\<lparr>rt_outbuf_len := x\<rparr>"
  by (auto simp: fork_solving_child_def send_to_parent_eq Let_def split: list.splits fork_outcome.splits)

text \<open>A fork where the machine may fork asks for another message and changes no text.\<close>

lemma fork_state:
  assumes "rt_state r \<in> {READING_PREFIX, READING_MATRIX}" and "rt_outbuf_len r = 0"
    and "rewound r" and "\<not> rt_repeat_state r" and fork: "forks_to r input fs"
  shows "\<exists>r'. state_loop r (MFork w) = Some (Ret r') \<and> rewound r' \<and> \<not> rt_repeat_state r'
    \<and> rt_outbuf_len r' = -1 \<and> view r' = view r \<and> rt_in_stream r' = input \<and> rt_forks r' = fs"
proof -
  let ?r' = "(fork_solving_child r w)\<lparr>rt_outbuf_len := -1\<rparr>"
  have "?r'\<lparr>rt_state := rt_state r\<rparr> = ?r'"
    by (simp add: fork_frame(1) [of r w, symmetric])
  then have "run_state r (MFork w) = Ret ?r'"
    using assms(1)
    by (auto simp: run_state_def st_reading_prefix_def st_reading_matrix_def fork_outbuf_len)
  then have "state_loop r (MFork w) = Some (Ret ?r')"
    using state_loop_step [OF assms(2)] state_loop_stop [of ?r'] by simp
  then show ?thesis
    using assms(3,4) fork_input [OF fork, of w] by (simp add: fork_frame)
qed

lemma message_loop_stop: "rt_outbuf_len r \<noteq> -1 \<Longrightarrow> message_loop r = Some (Ret r)"
  by (subst message_loop.simps) simp

lemma message_loop_step:
  assumes "rt_outbuf_len r = -1" and "read_msg r = Ret (Some m, r1)"
    and "state_loop (r1\<lparr>rt_outbuf_len := 0\<rparr>) m = Some (Ret r2)"
  shows "message_loop r = message_loop r2"
  using assms by (subst message_loop.simps) simp

lemma emit_any_header: "msg_type m \<noteq> MSG_HEADER \<Longrightarrow> emit h v m = emit h' v m"
  by (cases m) simp_all

lemma emit_after_read:
  assumes "emit h (view r) m = Some (t, v')"
    and "rt_header_data r' = (if msg_type m = MSG_HEADER then h else rt_header_data r)"
    and "rt_state r' = rt_state r" "rt_filler_clause r' = rt_filler_clause r"
      "rt_filler_clause_len r' = rt_filler_clause_len r" "rt_written_clauses r' = rt_written_clauses r"
      "rt_quantifier_count r' = rt_quantifier_count r"
  shows "emit (rt_header_data r') (view r') m = Some (t, v')"
proof (cases "msg_type m = MSG_HEADER")
  case True
  then obtain x where m: "m = MHeader x" by (cases m) simp_all
  with assms show ?thesis by (auto simp: view_def split: if_splits)
next
  case False
  with assms have "view r' = view r" by (simp add: view_def)
  with False assms(1) show ?thesis by (metis emit_any_header)
qed

lemma emitted_supplied:
  assumes "emitted r t v' r'" and "rt_outbuf_written r = 0" and "\<not> rt_repeat_state r"
    and "header_ok (rt_header_data r)" and "header_ok h"
    and "flow h (rt_in_stream r) (rt_forks r) ms" and "stream_text h v' ms = Some t'"
  shows "supplied h r' (t @ t')" and "rt_outbuf_len r' \<noteq> -1"
proof -
  have w: "rt_outbuf_written r' = 0" and pr: "presents r' t" and ne: "t \<noteq> []"
    using assms(1,2) by (simp_all add: emitted_def same_input_def)
  from presents_pending [OF pr w] have p: "pending r' = t" "buffer_ok r'" by simp_all
  have "owes_messages h r' t'"
    using assms by (auto simp: owes_messages_def emitted_def same_input_def)
  then have "delivers h r' (t @ t')"
    using assms p by (auto simp: delivers_def emitted_def same_input_def)
  with w p ne show "supplied h r' (t @ t')" by (simp add: supplied_def)
  show "rt_outbuf_len r' \<noteq> -1" using pr by (simp add: presents_def)
qed

lemma flow_frame:
  assumes "flow h bs fs (m # ms)"
  shows "\<exists>u rest. bs = frame u h m @ rest \<and> length u = 4 \<and> msg_ok m
    \<and> (msg_type m \<noteq> MSG_FORK \<longrightarrow> flow h rest fs ms)
    \<and> (msg_type m = MSG_FORK \<longrightarrow> (\<exists>input fs'. flow h input fs' ms
        \<and> ((\<exists>pid st. fs = Fork_Parent pid st # fs') \<and> input = rest \<or> fs = Fork_Child input # fs')))"
  using assms
proof (cases rule: flow.cases)
  case (flow_msg u bs')
  then show ?thesis by (intro exI [of _ u] exI [of _ bs']) auto
next
  case (flow_parent u bs' fs' w pid st)
  then show ?thesis by (intro exI [of _ u] exI [of _ bs']) auto
next
  case (flow_child u input fs' w bs')
  then show ?thesis by (intro exI [of _ u] exI [of _ bs']) auto
qed

lemma message_loop_text:
  assumes "stream_text h (view r) ms = Some t" and "flow h (rt_in_stream r) (rt_forks r) ms"
    and "rewound r" and "\<not> rt_repeat_state r" and "rt_outbuf_len r = -1" and h: "header_ok h"
  shows "\<exists>r'. message_loop r = Some (Ret r') \<and> supplied h r' t"
  using assms(1-5)
proof (induction ms arbitrary: r)
  case Nil
  then show ?case by simp
next
  case (Cons m ms)
  obtain u rest where fr: "rt_in_stream r = frame u h m @ rest" "length u = 4" "msg_ok m"
    and fmsg: "msg_type m \<noteq> MSG_FORK \<longrightarrow> flow h rest (rt_forks r) ms"
    and ffork: "msg_type m = MSG_FORK \<longrightarrow> (\<exists>input fs'. flow h input fs' ms
        \<and> ((\<exists>pid st. rt_forks r = Fork_Parent pid st # fs') \<and> input = rest
           \<or> rt_forks r = Fork_Child input # fs'))"
    using flow_frame [OF Cons.prems(2)] by blast
  define r1 where "r1 = r\<lparr>rt_in_stream := rest, rt_last_read_msg := m,
      rt_header_data := if msg_type m = MSG_HEADER then h else rt_header_data r\<rparr>"
  have read: "read_msg r = Ret (Some m, r1)"
    unfolding r1_def by (rule read_msg_frame [OF fr h])
  let ?r = "r1\<lparr>rt_outbuf_len := 0\<rparr>"
  have rw: "rewound ?r" "\<not> rt_repeat_state ?r" "rt_outbuf_len ?r = 0" "rt_state ?r = rt_state r"
    using Cons.prems(3,4) h by (simp_all add: r1_def rewound_def rt_wf_def)
  have loop_end: "\<exists>r'. message_loop r = Some (Ret r') \<and> supplied h r' t"
    if "state_loop ?r m = Some (Ret r')" "supplied h r' t" "rt_outbuf_len r' \<noteq> -1" for r'
    using message_loop_step [OF Cons.prems(5) read that(1)] message_loop_stop [OF that(3)] that(2) by simp
  show ?case
  proof (cases "m = MSolve \<or> (\<exists>w. m = MFork w)")
    case True
    then consider (solve) "m = MSolve" | (fork) w where "m = MFork w" by blast
    then show ?thesis
    proof cases
      case solve
      with Cons.prems(1) have st: "rt_state ?r \<in> {READING_PREFIX, READING_MATRIX}" and t: "t = fillers (view ?r)"
        by (simp_all add: r1_def view_def split: if_splits)
      have "rt_last_read_msg ?r = MSolve" using solve by (simp add: r1_def)
      from solve_loop [OF rw(1) st rw(3) this h] t solve loop_end show ?thesis by auto
    next
      case fork
      with Cons.prems(1) have st: "rt_state ?r \<in> {READING_PREFIX, READING_MATRIX}"
        and tx: "stream_text h (view ?r) ms = Some t"
        by (simp_all add: r1_def view_def split: if_splits)
      from ffork fork obtain input fs' where f: "flow h input fs' ms" and "forks_to ?r input fs'"
        by (auto simp: r1_def forks_to_def)
      from fork_state [OF st rw(3,1,2) this(2), of w] obtain r2
        where r2: "state_loop ?r m = Some (Ret r2)" "rewound r2" "\<not> rt_repeat_state r2"
          "rt_outbuf_len r2 = -1" "view r2 = view ?r" "rt_in_stream r2 = input" "rt_forks r2 = fs'"
        using fork by auto
      from Cons.IH [of r2] tx f r2 have "\<exists>r'. message_loop r2 = Some (Ret r') \<and> supplied h r' t" by simp
      with message_loop_step [OF Cons.prems(5) read r2(1)] show ?thesis by simp
    qed
  next
    case False
    then obtain t1 v1 t2 where em: "emit h (view r) m = Some (t1, v1)"
      and st: "stream_text h v1 ms = Some t2" and t: "t = t1 @ t2"
      using Cons.prems(1) by (cases m) (auto split: option.splits)
    have "emit (rt_header_data ?r) (view ?r) m = Some (t1, v1)"
      using emit_after_read [OF em, of r1] by (simp add: r1_def)
    then obtain r2 where r2: "state_loop ?r m = Some (Ret r2)" "emitted ?r t1 v1 r2"
      using emit_message [of ?r m t1 v1] rw by (auto simp: rewound_def)
    have "msg_type m \<noteq> MSG_FORK" using False by (cases m) auto
    then have "flow h (rt_in_stream ?r) (rt_forks ?r) ms" using fmsg by (simp add: r1_def)
    from emitted_supplied [OF r2(2) _ rw(2) _ h this st] rw(1) loop_end [OF r2(1)] t
    show ?thesis by (simp add: rewound_def)
  qed
qed

section \<open>The reading contract\<close>

text \<open>
  A reader that calls \<open>rd\<close> with buffers of the given sizes and stops at the first end of
  file: the characters it got, and whether it saw the end.
\<close>

fun read_all :: "('s \<Rightarrow> string \<Rightarrow> (nat \<times> string \<times> 's) option) \<Rightarrow> nat list \<Rightarrow> 's \<Rightarrow> (string \<times> bool) option" where
  "read_all rd [] s = Some ([], False)"
| "read_all rd (n # ns) s =
     (case rd s (replicate n NUL) of
        None \<Rightarrow> None
      | Some (k, buf, s') \<Rightarrow>
          (if k = 0 then Some ([], True)
           else map_option (\<lambda>(out, eof). (take k buf @ out, eof)) (read_all rd ns s')))"

text \<open>
  A source of characters: \<open>rd s buf\<close> fills a prefix of the buffer and says how many
  characters it gave. \<open>owes s t\<close>: the text still to come, up to the end of file.
\<close>

locale char_source =
  fixes rd :: "'s \<Rightarrow> string \<Rightarrow> (nat \<times> string \<times> 's) option"
    and owes :: "'s \<Rightarrow> string \<Rightarrow> bool"
  assumes rd_some: "owes s t \<Longrightarrow> t \<noteq> [] \<Longrightarrow> 0 < length buf \<Longrightarrow>
      \<exists>k buf' s'. rd s buf = Some (k, buf', s') \<and> 0 < k \<and> k \<le> length buf \<and> k \<le> length t
        \<and> length buf' = length buf \<and> take k buf' = take k t \<and> owes s' (drop k t)"
    and rd_end: "owes s [] \<Longrightarrow> 0 < length buf \<Longrightarrow> \<exists>s'. rd s buf = Some (0, buf[0 := CHR 0xFF], s')"
begin

lemma read_all_text:
  assumes "owes s t" and "\<forall>n \<in> set ns. 0 < n"
  shows "\<exists>out eof. read_all rd ns s = Some (out, eof) \<and> take (length out) t = out
    \<and> (eof \<longrightarrow> out = t) \<and> (length t < length ns \<longrightarrow> eof)"
  using assms
proof (induction ns arbitrary: s t)
  case Nil
  then show ?case by (intro exI [of _ "[]"] exI [of _ False]) simp
next
  case (Cons n ns)
  let ?buf = "replicate n NUL"
  have n: "0 < length ?buf" using Cons.prems(2) by simp
  show ?case
  proof (cases "t = []")
    case True
    with Cons.prems(1) rd_end [OF _ n, of s] show ?thesis by auto
  next
    case False
    from rd_some [OF Cons.prems(1) False n] obtain k buf' s'
      where rd: "rd s ?buf = Some (k, buf', s')" and k: "0 < k" "k \<le> length t"
        and d: "take k buf' = take k t" and o': "owes s' (drop k t)" by blast
    from Cons.IH [OF o'] Cons.prems(2) obtain out eof
      where ih: "read_all rd ns s' = Some (out, eof)" "take (length out) (drop k t) = out"
        "eof \<longrightarrow> out = drop k t" "length (drop k t) < length ns \<longrightarrow> eof" by auto
    have "read_all rd (n # ns) s = Some (take k t @ out, eof)" using rd k(1) d ih(1) by simp
    moreover have "take (length (take k t @ out)) t = take k t @ out"
      using k(2) ih(2) by (cases "k = length t") (auto simp: min_def take_add)
    moreover have "eof \<longrightarrow> take k t @ out = t" using ih(3) by simp
    moreover have "length t < length (n # ns) \<longrightarrow> eof" using ih(4) k by auto
    ultimately show ?thesis by blast
  qed
qed

end

text \<open>The runtime as a source, for every setting of the trace output.\<close>

definition runtime_rd :: "bool \<Rightarrow> quapi_runtime \<Rightarrow> string \<Rightarrow> (nat \<times> string \<times> quapi_runtime) option" where
  "runtime_rd trace r buf =
     (case quapi_read trace r buf of
        Some (Ret (k, buf', r')) \<Rightarrow> (if 0 \<le> k then Some (nat k, buf', r') else None)
      | _ \<Rightarrow> None)"

lemma supplied_update:
  assumes "supplied h r t" and "t = []"
  shows "update_buf trace r buf = (0, buf, r)"
  using assms by (auto simp: supplied_def update_buf_def)

lemma advance_state_drops:
  assumes d: "delivers h r txt" and t: "t = drop (length (pending r)) txt"
  shows "\<exists>r'. advance_state (r\<lparr>rt_outbuf := 0, rt_outbuf_written := 0\<rparr>) = Some (Ret r') \<and> supplied h r' t"
proof -
  let ?r = "r\<lparr>rt_outbuf := 0, rt_outbuf_written := 0\<rparr>"
  have h: "header_ok h" using d by (simp add: delivers_def)
  have v: "view (?r\<lparr>rt_outbuf_len := x\<rparr>) = view r" for x by (simp add: view_def)
  have rw: "rewound (?r\<lparr>rt_outbuf_len := x\<rparr>)" for x
    using d by (simp add: rewound_def delivers_def rt_wf_def)
  consider (closed) "rt_outbuf_len r = -2" "t = []"
    | (messages) "buffer_ok r" "owes_messages h r t" "rt_outbuf_len r \<noteq> -2"
    | (fill) "buffer_ok r" "owes_fillers r t" "rt_outbuf_len r \<noteq> -2"
    using d t by (auto simp: delivers_def buffer_ok_def)
  then show ?thesis
  proof cases
    case closed
    then show ?thesis by (simp add: advance_state_def supplied_def)
  next
    case messages
    then obtain ms where "flow h (rt_in_stream r) (rt_forks r) ms" "stream_text h (view r) ms = Some t"
      and rep: "\<not> rt_repeat_state r" by (auto simp: owes_messages_def)
    with message_loop_text [of h "?r\<lparr>rt_outbuf_len := -1\<rparr>" ms t] rw h v messages(3) show ?thesis
      by (simp add: advance_state_def)
  next
    case fill
    then have f: "rt_repeat_state r" "rt_last_read_msg r = MSolve" "rt_state r = READING_MATRIX"
      "t = fillers (view r)" by (simp_all add: owes_fillers_def)
    let ?q = "?r\<lparr>rt_outbuf_len := 0\<rparr>"
    have adv: "advance_state ?r = Some (run_state ?q MSolve)"
      using f fill(3) by (simp add: advance_state_def)
    have "rt_state ?q = READING_MATRIX" "rt_outbuf_len ?q = 0" "rt_last_read_msg ?q = MSolve"
      using f by simp_all
    from rw this h show ?thesis
    proof (cases rule: solve_state)
      case (filler r')
      with adv f(4) v show ?thesis by auto
    next
      case finished
      with adv f(4) v show ?thesis by (auto simp: supplied_def)
    qed
  qed
qed

lemma advance_state_supplies:
  assumes "delivers h r t" and "pending r = []"
  shows "\<exists>r'. advance_state (r\<lparr>rt_outbuf := 0, rt_outbuf_written := 0\<rparr>) = Some (Ret r') \<and> supplied h r' t"
  using advance_state_drops [OF assms(1)] assms(2) by simp

interpretation runtime: char_source "runtime_rd trace" "delivers h" for trace h
proof
  fix s t buf
  assume d: "delivers h s t" and b: "0 < length (buf :: string)"
  have read: "runtime_rd trace s buf = Some (nat k, if k = 0 then buf'[0 := CHR 0xFF] else buf', s')"
    if "update_buf trace s buf = (0, buf, s)"
      "advance_state (s\<lparr>rt_outbuf := 0, rt_outbuf_written := 0\<rparr>) = Some (Ret r')"
      "update_buf trace r' buf = (k, buf', s')" "0 \<le> k" "length buf' = length buf" for r' k buf' s'
    using that b by (auto simp: runtime_rd_def quapi_read_def Let_def)
  have more: "\<exists>r'. supplied h r' t \<and> (\<forall>k buf' s'. update_buf trace r' buf = (int k, buf', s') \<longrightarrow>
      length buf' = length buf \<longrightarrow>
      runtime_rd trace s buf = Some (k, if k = 0 then buf'[0 := CHR 0xFF] else buf', s'))"
    if "pending s = []"
  proof -
    from advance_state_supplies [OF d that] obtain r'
      where r': "advance_state (s\<lparr>rt_outbuf := 0, rt_outbuf_written := 0\<rparr>) = Some (Ret r')" "supplied h r' t"
      by blast
    moreover have "update_buf trace s buf = (0, buf, s)"
      using d that by (intro update_buf_empty) (auto simp: delivers_def)
    ultimately show ?thesis using read [OF _ r'(1)] by (intro exI [of _ r']) auto
  qed
  show "\<exists>k buf' s'. runtime_rd trace s buf = Some (k, buf', s') \<and> 0 < k \<and> k \<le> length buf \<and> k \<le> length t
      \<and> length buf' = length buf \<and> take k buf' = take k t \<and> delivers h s' (drop k t)" if "t \<noteq> []"
  proof (cases "pending s = []")
    case False
    from update_buf_pending [OF d False b, of trace] obtain k buf' s'
      where u: "update_buf trace s buf = (int k, buf', s')" "0 < k" "k \<le> length buf" "k \<le> length t"
        "length buf' = length buf" "take k buf' = take k t" "delivers h s' (drop k t)" by blast
    then have "runtime_rd trace s buf = Some (k, buf', s')"
      by (simp add: runtime_rd_def quapi_read_def)
    with u show ?thesis by blast
  next
    case True
    from more [OF this] obtain r' where r': "supplied h r' t"
      and rd: "\<And>k buf' s'. update_buf trace r' buf = (int k, buf', s') \<Longrightarrow> length buf' = length buf \<Longrightarrow>
        runtime_rd trace s buf = Some (k, if k = 0 then buf'[0 := CHR 0xFF] else buf', s')" by blast
    from r' that have "delivers h r' t" "pending r' \<noteq> []" by (simp_all add: supplied_def)
    from update_buf_pending [OF this b, of trace] rd show ?thesis by fastforce
  qed
  show "\<exists>s'. runtime_rd trace s buf = Some (0, buf[0 := CHR 0xFF], s')" if "delivers h s []"
  proof -
    have e: "pending s = []" using that by (auto simp: delivers_def pending_def)
    from advance_state_supplies [OF that e] obtain r'
      where r': "advance_state (s\<lparr>rt_outbuf := 0, rt_outbuf_written := 0\<rparr>) = Some (Ret r')" "supplied h r' []"
      by blast
    have "update_buf trace s buf = (0, buf, s)"
      using that e by (intro update_buf_empty) (auto simp: delivers_def)
    from read [OF this r'(1) supplied_update [OF r'(2)]] show ?thesis by auto
  qed
qed

section \<open>Trace output does not matter\<close>

lemma update_buf_trace:
  "\<exists>n b b' r'. update_buf True r buf = (n, b, r') \<and> update_buf False r buf = (n, b', r')
     \<and> take (nat n) b = take (nat n) b' \<and> (n \<le> 0 \<longrightarrow> b = buf \<and> b' = buf)"
proof (cases "rt_outbuf_len r = -2")
  case False
  obtain len where len: "min (rt_outbuf_len r - rt_outbuf_written r) (int (length buf)) = len" by simp
  let ?xs = "peek (rt_outbuf_stack r) (rt_outbuf r + nat (rt_outbuf_written r)) (nat len)"
  have "length ?xs \<le> length buf" using len by (auto simp: peek_def)
  then have l: "length (poke buf 0 ?xs) = length buf" by (simp add: length_poke)
  have "take (nat len) (trace_buf (poke buf 0 ?xs) (nat len)) = take (nat len) (poke buf 0 ?xs)" if "0 < len"
    using that len l by (intro trace_buf_data(1)) auto
  with False show ?thesis unfolding update_buf_def Let_def len by auto
qed (simp add: update_buf_def)

lemma runtime_rd_trace:
  "rel_option (\<lambda>(k, b, s) (k', b', s'). k = k' \<and> s = s' \<and> take k b = take k b')
     (runtime_rd True r buf) (runtime_rd False r buf)"
proof -
  obtain n b b' r' where u: "update_buf True r buf = (n, b, r')" "update_buf False r buf = (n, b', r')"
    "take (nat n) b = take (nat n) b'" "n \<le> 0 \<longrightarrow> b = buf \<and> b' = buf"
    using update_buf_trace [of r buf] by blast
  show ?thesis
  proof (cases "n = 0")
    case False
    with u show ?thesis by (simp add: runtime_rd_def quapi_read_def Let_def)
  next
    case True
    let ?adv = "advance_state (r'\<lparr>rt_outbuf := 0, rt_outbuf_written := 0\<rparr>)"
    show ?thesis
    proof (cases "\<exists>r2. ?adv = Some (Ret r2)")
      case True
      then obtain r2 where r2: "?adv = Some (Ret r2)" by blast
      obtain m c c' r3 where "update_buf True r2 buf = (m, c, r3)" "update_buf False r2 buf = (m, c', r3)"
        "take (nat m) c = take (nat m) c'"
        using update_buf_trace [of r2 buf] by blast
      with u \<open>n = 0\<close> r2 show ?thesis by (simp add: runtime_rd_def quapi_read_def Let_def)
    next
      case no: False
      with u True show ?thesis
        by (cases ?adv; cases "the ?adv") (simp_all add: runtime_rd_def quapi_read_def Let_def)
    qed
  qed
qed

text \<open>
  C15. Tracing is transparent: although it writes into the caller's buffer, a solver that reads with
  trace output enabled gets exactly the characters and the end of file it would get without,
  from every state of the runtime and for every sequence of buffer sizes.
\<close>

theorem read_all_trace: "read_all (runtime_rd True) ns r = read_all (runtime_rd False) ns r"
proof (induction ns arbitrary: r)
  case (Cons n ns)
  from runtime_rd_trace [of r "replicate n NUL"] Cons.IH show ?case
    by (auto elim!: option.rel_cases split: prod.splits)
qed simp

end
