(* ===== verification/Quapi_Formula.thy ===== *)
theory Quapi_Formula
  imports Quapi_Read
begin

text \<open>
  The abstract specification of what a solver reads: the QDIMACS text of a prefix, a list
  of clauses, unit clauses for the assumptions and filler clauses, and the meaning of the
  clauses. \<open>formula_msgs\<close> are the messages that describe a formula;
  \<open>stream_text_formula\<close> is the refinement of the runtime's machine against the text.
\<close>

section \<open>QDIMACS text\<close>

text \<open>
  A prefix is a list of nonzero literals, positive for an existential and negative for a
  universal variable; its blocks are the maximal runs of one sign.
\<close>

function quantifier_blocks :: "int list \<Rightarrow> int list list" where
  "quantifier_blocks [] = []"
| "quantifier_blocks (q # qs) =
     (q # takeWhile (\<lambda>x. (0 < x) = (0 < q)) qs)
       # quantifier_blocks (dropWhile (\<lambda>x. (0 < x) = (0 < q)) qs)"
  by pat_completeness auto
termination
  by (relation "measure length") (auto simp: le_imp_less_Suc length_dropWhile_le)

definition block_text :: "int list \<Rightarrow> string" where
  "block_text b = (if 0 < hd b then ''e'' else ''a'')
     @ concat (map (\<lambda>x. '' '' @ show_int \<bar>x\<bar>) b) @ block_end"

definition prefix_text :: "int list \<Rightarrow> string" where
  "prefix_text qs = concat (map block_text (quantifier_blocks qs))"

definition clause_text :: "int list \<Rightarrow> string" where
  "clause_text c = concat (map (\<lambda>l. show_int l @ '' '') c) @ ''0'' @ [NL]"

definition formula_text :: "quapi_msg_header_data \<Rightarrow> int list \<Rightarrow> int list list \<Rightarrow> string" where
  "formula_text h qs cs = header_text h @ prefix_text qs @ concat (map clause_text cs)"

text \<open>
  The clause that fills up the announced number of clauses: over the outermost variable
  when it is existential, empty when the header announces no variables, over variable 1
  otherwise.
\<close>

definition filler_clause :: "quapi_msg_header_data \<Rightarrow> int list \<Rightarrow> int list" where
  "filler_clause h qs =
     (if qs \<noteq> [] \<and> 0 < hd qs then [hd qs, - hd qs]
      else if literals h = 0 then [] else [-1, 1])"

definition units :: "int list \<Rightarrow> int list list" where
  "units as = map (\<lambda>a. [a]) as"

lemma units_simps [simp]: "units [] = []" "units (a # as) = [a] # units as" "units (as @ bs) = units as @ units bs"
  by (simp_all add: units_def)

text \<open>All clauses a solver gets for the clauses \<open>cs\<close> and the assumptions \<open>as\<close>.\<close>

definition solver_clauses :: "quapi_msg_header_data \<Rightarrow> int list \<Rightarrow> int list list \<Rightarrow> int list \<Rightarrow> int list list" where
  "solver_clauses h qs cs as =
     cs @ units as
       @ replicate (nat (clauses h - int (length cs + length as))) (filler_clause h qs)"

definition lits_ok :: "int list \<Rightarrow> bool" where
  "lits_ok ls \<longleftrightarrow> (\<forall>l \<in> set ls. lit_ok l \<and> l \<noteq> 0)"

definition clauses_ok :: "int list list \<Rightarrow> bool" where
  "clauses_ok cs \<longleftrightarrow> (\<forall>c \<in> set cs. c \<noteq> [] \<and> lits_ok c)"

lemma lits_ok_simps [simp]:
  "lits_ok []" "lits_ok (l # ls) \<longleftrightarrow> lit_ok l \<and> l \<noteq> 0 \<and> lits_ok ls"
  by (auto simp: lits_ok_def)

lemma clauses_ok_simps [simp]:
  "clauses_ok []" "clauses_ok (c # cs) \<longleftrightarrow> c \<noteq> [] \<and> lits_ok c \<and> clauses_ok cs"
  "clauses_ok (cs @ ds) \<longleftrightarrow> clauses_ok cs \<and> clauses_ok ds"
  by (auto simp: clauses_ok_def)

lemma clauses_ok_units [simp]: "clauses_ok (units as) = lits_ok as"
  by (auto simp: clauses_ok_def units_def lits_ok_def)

section \<open>Meaning\<close>

definition lit_true :: "(int \<Rightarrow> bool) \<Rightarrow> int \<Rightarrow> bool" where
  "lit_true I l = (if 0 < l then I l else \<not> I (- l))"

definition satisfies :: "(int \<Rightarrow> bool) \<Rightarrow> int list list \<Rightarrow> bool" where
  "satisfies I cs \<longleftrightarrow> (\<forall>c \<in> set cs. \<exists>l \<in> set c. lit_true I l)"

lemma satisfies_append [simp]: "satisfies I (cs @ ds) \<longleftrightarrow> satisfies I cs \<and> satisfies I ds"
  by (auto simp: satisfies_def)

lemma satisfies_units: "satisfies I (units as) \<longleftrightarrow> (\<forall>a \<in> set as. lit_true I a)"
  by (auto simp: satisfies_def units_def)

lemma filler_clause_tautology:
  assumes "literals h \<noteq> 0 \<or> (qs \<noteq> [] \<and> 0 < hd qs)"
  shows "satisfies I (replicate n (filler_clause h qs))"
  using assms by (auto simp: satisfies_def filler_clause_def lit_true_def)

lemma solver_clauses_models:
  assumes "literals h \<noteq> 0 \<or> (qs \<noteq> [] \<and> 0 < hd qs)"
  shows "satisfies I (solver_clauses h qs cs as) \<longleftrightarrow> satisfies I cs \<and> (\<forall>a \<in> set as. lit_true I a)"
  using filler_clause_tautology [OF assms]
  by (simp add: solver_clauses_def satisfies_units)

section \<open>Messages of a formula\<close>

definition clause_msgs :: "int list list \<Rightarrow> quapi_msg list" where
  "clause_msgs cs = concat (map (\<lambda>c. map MLiteral c @ [MLiteral 0]) cs)"

definition formula_msgs :: "int \<Rightarrow> int list \<Rightarrow> int list list \<Rightarrow> quapi_msg list" where
  "formula_msgs version qs cs = MHeader version # map MQuantifier qs @ clause_msgs cs"

lemma clause_msgs_simps [simp]:
  "clause_msgs [] = []"
  "clause_msgs (c # cs) = map MLiteral c @ MLiteral 0 # clause_msgs cs"
  "clause_msgs (cs @ ds) = clause_msgs cs @ clause_msgs ds"
  by (simp_all add: clause_msgs_def)

text \<open>A sequence of messages that each give text.\<close>

fun emit_list :: "quapi_msg_header_data \<Rightarrow> rview \<Rightarrow> quapi_msg list \<Rightarrow> (string \<times> rview) option" where
  "emit_list h v [] = Some ([], v)"
| "emit_list h v (m # ms) =
     (case emit h v m of
        None \<Rightarrow> None
      | Some (t, v') \<Rightarrow> map_option (\<lambda>(t', v''). (t @ t', v'')) (emit_list h v' ms))"

lemma emit_list_append:
  "emit_list h v ms = Some (t, v') \<Longrightarrow> emit_list h v' ns = Some (t', v'') \<Longrightarrow>
   emit_list h v (ms @ ns) = Some (t @ t', v'')"
  by (induction ms arbitrary: v t) (auto split: option.splits)

lemma stream_text_emit_list:
  "emit_list h v ms = Some (t, v') \<Longrightarrow>
   stream_text h v (ms @ ns) = map_option (\<lambda>t'. t @ t') (stream_text h v' ns)"
proof (induction ms arbitrary: v t)
  case Nil
  then show ?case by (cases "stream_text h v' ns") auto
next
  case (Cons m ms)
  from Cons.prems obtain t1 v1 t2 where e: "emit h v m = Some (t1, v1)"
    and l: "emit_list h v1 ms = Some (t2, v')" and t: "t = t1 @ t2"
    by (auto split: option.splits)
  from e have "stream_text h v (m # ms @ ns) = map_option (\<lambda>t'. t1 @ t') (stream_text h v1 (ms @ ns))"
    by (cases m) auto
  with Cons.IH [OF l] t show ?case by (simp add: option.map_comp comp_def)
qed

section \<open>The text of a prefix\<close>

definition sign_text :: "bool \<Rightarrow> string" where
  "sign_text b = (if b then ''e'' else ''a'')"

definition block_state :: "bool \<Rightarrow> quapi_preload_state" where
  "block_state b = (if b then READING_EXISTS else READING_FORALL)"

text \<open>The text that follows inside a block of sign \<open>b\<close>.\<close>

fun rest_text :: "bool \<Rightarrow> int list \<Rightarrow> string" where
  "rest_text b [] = block_end"
| "rest_text b (q # qs) =
     (if (0 < q) = b then [] else block_end @ sign_text (0 < q)) @ '' '' @ show_int \<bar>q\<bar>
       @ rest_text (0 < q) qs"

lemma rest_text_blocks:
  "rest_text b qs = concat (map (\<lambda>x. '' '' @ show_int \<bar>x\<bar>) (takeWhile (\<lambda>x. (0 < x) = b) qs))
     @ block_end @ prefix_text (dropWhile (\<lambda>x. (0 < x) = b) qs)"
proof (induction qs arbitrary: b)
  case Nil
  then show ?case by (simp add: prefix_text_def)
next
  case (Cons q qs)
  show ?case
    using Cons.IH [of "0 < q"]
    by (cases "(0 < q) = b") (auto simp: prefix_text_def block_text_def sign_text_def)
qed

lemma prefix_text_Cons:
  "prefix_text (q # qs) = sign_text (0 < q) @ '' '' @ show_int \<bar>q\<bar> @ rest_text (0 < q) qs"
  by (simp add: rest_text_blocks) (simp add: prefix_text_def block_text_def sign_text_def)

lemma emit_block:
  assumes "v_state v = block_state b" "lits_ok qs"
  shows "\<exists>t b'. emit_list h v (map MQuantifier qs) =
      Some (t, v\<lparr>v_state := block_state b', v_quantifiers := v_quantifiers v + length qs\<rparr>)
    \<and> t @ block_end = rest_text b qs"
  using assms
proof (induction qs arbitrary: v b)
  case Nil
  then have "v\<lparr>v_state := block_state b\<rparr> = v" by simp
  then show ?case by (intro exI [of _ "[]"] exI [of _ b]) simp
next
  case (Cons q qs)
  let ?v = "v\<lparr>v_state := block_state (0 < q), v_quantifiers := Suc (v_quantifiers v)\<rparr>"
  let ?t = "(if (0 < q) = b then [] else block_end @ sign_text (0 < q)) @ '' '' @ show_int \<bar>q\<bar>"
  have "v\<lparr>v_state := block_state b\<rparr> = v" using Cons.prems(1) by simp
  then have e: "emit h v (MQuantifier q) = Some (?t, ?v)"
    using Cons.prems by (cases b) (auto simp: Let_def block_state_def sign_text_def)
  have "v_state ?v = block_state (0 < q)" "lits_ok qs" using Cons.prems by simp_all
  from Cons.IH [OF this] obtain t' b' where
    l: "emit_list h ?v (map MQuantifier qs) =
      Some (t', ?v\<lparr>v_state := block_state b', v_quantifiers := v_quantifiers ?v + length qs\<rparr>)"
    and t': "t' @ block_end = rest_text (0 < q) qs" by blast
  show ?case
    using e l t' by (intro exI [of _ "?t @ t'"] exI [of _ b']) simp
qed

text \<open>
  The filler of a runtime after its header and the quantifiers \<open>qs\<close>: the pair for the
  outermost variable when that is existential.
\<close>

lemma filler_text_clause: "0 < q \<Longrightarrow> filler_text q = clause_text [q, - q]"
  by (simp add: filler_text_def clause_text_def show_int_def)

lemma emit_prefix:
  assumes v: "v_state v = READING_PREFIX" "v_quantifiers v = 0" and qs: "lits_ok (q # qs)"
  shows "\<exists>t b. emit_list h v (map MQuantifier (q # qs)) =
      Some (t, v\<lparr>v_state := block_state b, v_quantifiers := length (q # qs),
                v_filler := if 0 < q then clause_text [q, - q] else v_filler v\<rparr>)
    \<and> t @ block_end = prefix_text (q # qs)"
proof -
  let ?v = "v\<lparr>v_state := block_state (0 < q), v_quantifiers := Suc 0,
    v_filler := if 0 < q then clause_text [q, - q] else v_filler v\<rparr>"
  have e: "emit h v (MQuantifier q) = Some (sign_text (0 < q) @ '' '' @ show_int \<bar>q\<bar>, ?v)"
    using v qs by (auto simp: Let_def block_state_def sign_text_def filler_text_clause)
  have "v_state ?v = block_state (0 < q)" "lits_ok qs" using qs by simp_all
  from emit_block [OF this] obtain t b where
    "emit_list h ?v (map MQuantifier qs) =
      Some (t, ?v\<lparr>v_state := block_state b, v_quantifiers := v_quantifiers ?v + length qs\<rparr>)"
    "t @ block_end = rest_text (0 < q) qs" by blast
  with e show ?thesis
    by (intro exI [of _ "(sign_text (0 < q) @ '' '' @ show_int \<bar>q\<bar>) @ t"] exI [of _ b])
      (simp add: prefix_text_Cons)
qed

section \<open>The text of the clauses\<close>

lemma clause_text_Cons:
  "clause_text (l # c) = show_int l @ concat (map (\<lambda>l. '' '' @ show_int l) c) @ block_end"
  by (induction c arbitrary: l) (auto simp: clause_text_def block_end_def)

lemma emit_clause_rest:
  assumes "v_state v = READING_CLAUSE" "lits_ok c"
  shows "emit_list h v (map MLiteral c @ [MLiteral 0]) =
    Some (concat (map (\<lambda>l. '' '' @ show_int l) c) @ block_end,
      v\<lparr>v_state := READING_MATRIX, v_written := s32 (v_written v + 1)\<rparr>)"
  using assms by (induction c) (auto simp: lit_ok_def)

text \<open>The first clause after a prefix also ends the last block.\<close>

definition lead :: "rview \<Rightarrow> string" where
  "lead v = (if v_state v \<in> {READING_EXISTS, READING_FORALL} then block_end else [])"

lemma emit_clause:
  assumes "v_state v \<in> {READING_PREFIX, READING_MATRIX, READING_EXISTS, READING_FORALL}"
    and "c \<noteq> []" "lits_ok c"
  shows "emit_list h v (map MLiteral c @ [MLiteral 0]) =
    Some (lead v @ clause_text c, v\<lparr>v_state := READING_MATRIX, v_written := s32 (v_written v + 1)\<rparr>)"
proof -
  obtain l c' where c: "c = l # c'" using assms(2) by (cases c) auto
  let ?v = "v\<lparr>v_state := READING_CLAUSE\<rparr>"
  have "emit h v (MLiteral l) = Some (lead v @ show_int l, ?v)"
    using assms c by (auto simp: lead_def)
  moreover have "emit_list h ?v (map MLiteral c' @ [MLiteral 0]) =
    Some (concat (map (\<lambda>l. '' '' @ show_int l) c') @ block_end,
      ?v\<lparr>v_state := READING_MATRIX, v_written := s32 (v_written ?v + 1)\<rparr>)"
    using assms c by (intro emit_clause_rest) auto
  ultimately show ?thesis using c by (simp add: clause_text_Cons)
qed

lemma emit_clauses:
  assumes "v_state v \<in> {READING_PREFIX, READING_MATRIX}" and "clauses_ok cs"
    and "0 \<le> v_written v" "v_written v + int (length cs) < 2 ^ 31"
  shows "emit_list h v (clause_msgs cs) =
    Some (concat (map clause_text cs),
      v\<lparr>v_state := if cs = [] then v_state v else READING_MATRIX,
        v_written := v_written v + int (length cs)\<rparr>)"
  using assms
proof (induction cs arbitrary: v)
  case (Cons c cs)
  let ?v = "v\<lparr>v_state := READING_MATRIX, v_written := v_written v + 1\<rparr>"
  have "s32 (v_written v + 1) = v_written v + 1"
    using Cons.prems by (intro s32_id) (simp add: in32_def)
  then have "emit_list h v (map MLiteral c @ [MLiteral 0]) = Some (clause_text c, ?v)"
    using emit_clause [of v c h] Cons.prems by (auto simp: lead_def)
  moreover have "emit_list h ?v (clause_msgs cs) =
    Some (concat (map clause_text cs),
      ?v\<lparr>v_state := if cs = [] then v_state ?v else READING_MATRIX,
        v_written := v_written ?v + int (length cs)\<rparr>)"
    using Cons.prems by (intro Cons.IH) auto
  ultimately have "emit_list h v ((map MLiteral c @ [MLiteral 0]) @ clause_msgs cs) =
    Some (clause_text c @ concat (map clause_text cs),
      ?v\<lparr>v_state := if cs = [] then v_state ?v else READING_MATRIX,
        v_written := v_written ?v + int (length cs)\<rparr>)"
    by (rule emit_list_append)
  then show ?case by (simp add: algebra_simps)
qed simp

section \<open>The text a solver reads\<close>

text \<open>
  Clauses in batches: after each batch the process forks a solving child and stays the
  parent (or is the child, after the last one).
\<close>

definition batch_msgs :: "(int list list \<times> bool) list \<Rightarrow> quapi_msg list" where
  "batch_msgs bs = concat (map (\<lambda>(cs, w). clause_msgs cs @ [MFork w]) bs)"

definition batch_clauses :: "(int list list \<times> bool) list \<Rightarrow> int list list" where
  "batch_clauses bs = concat (map fst bs)"

lemma batch_simps [simp]:
  "batch_msgs [] = []" "batch_clauses [] = []"
  "batch_msgs ((cs, w) # bs) = clause_msgs cs @ MFork w # batch_msgs bs"
  "batch_clauses ((cs, w) # bs) = cs @ batch_clauses bs"
  by (simp_all add: batch_msgs_def batch_clauses_def)

lemma stream_text_batches:
  assumes "v_state v \<in> {READING_PREFIX, READING_MATRIX}" and "clauses_ok (batch_clauses bs)"
    and "0 \<le> v_written v" "v_written v + int (length (batch_clauses bs)) < 2 ^ 31"
  shows "stream_text h v (batch_msgs bs @ ms) =
    map_option (\<lambda>t. concat (map clause_text (batch_clauses bs)) @ t)
      (stream_text h (v\<lparr>v_state := if batch_clauses bs = [] then v_state v else READING_MATRIX,
        v_written := v_written v + int (length (batch_clauses bs))\<rparr>) ms)"
  using assms
proof (induction bs arbitrary: v)
  case Nil
  then show ?case by (cases "stream_text h v ms") simp_all
next
  case (Cons b bs)
  obtain cs w where b: "b = (cs, w)" by fastforce
  let ?v = "v\<lparr>v_state := if cs = [] then v_state v else READING_MATRIX,
    v_written := v_written v + int (length cs)\<rparr>"
  have "emit_list h v (clause_msgs cs) = Some (concat (map clause_text cs), ?v)"
    using Cons.prems b by (intro emit_clauses) auto
  from stream_text_emit_list [OF this, of "MFork w # batch_msgs bs @ ms"]
  have "stream_text h v (batch_msgs (b # bs) @ ms) =
    map_option (\<lambda>t. concat (map clause_text cs) @ t) (stream_text h ?v (batch_msgs bs @ ms))"
    using Cons.prems(1) b by (cases "cs = []") auto
  also have "stream_text h ?v (batch_msgs bs @ ms) =
    map_option (\<lambda>t. concat (map clause_text (batch_clauses bs)) @ t)
      (stream_text h (?v\<lparr>v_state := if batch_clauses bs = [] then v_state ?v else READING_MATRIX,
        v_written := v_written ?v + int (length (batch_clauses bs))\<rparr>) ms)"
    using Cons.prems b by (intro Cons.IH) auto
  finally show ?case
    using b by (simp add: option.map_comp comp_def add.assoc)
qed

text \<open>
  All messages a solving child gets: the header, the prefix, the batches of clauses with the
  requests to fork between them, and after the last one the assumptions and the
  order to solve.
\<close>

definition solver_msgs :: "int \<Rightarrow> int list \<Rightarrow> (int list list \<times> bool) list \<Rightarrow> int list \<Rightarrow> quapi_msg list" where
  "solver_msgs version qs bs as =
     MHeader version # map MQuantifier qs @ batch_msgs bs @ clause_msgs (units as) @ [MSolve]"

definition start_filler :: string where
  "start_filler = ''-1 1 0'' @ [NL]"

lemma start_filler_clause: "start_filler = clause_text [-1, 1]"
  by code_simp

definition start_view :: "int \<Rightarrow> rview" where
  "start_view n = \<lparr>v_state = WAITING_FOR_HEADER, v_clauses = n, v_filler = start_filler,
     v_written = 0, v_quantifiers = 0\<rparr>"

text \<open>A prefix without a clause before the first fork leaves the machine in a block.\<close>

definition batches_ok :: "int list \<Rightarrow> (int list list \<times> bool) list \<Rightarrow> bool" where
  "batches_ok qs bs \<longleftrightarrow> clauses_ok (batch_clauses bs)
     \<and> (qs \<noteq> [] \<longrightarrow> bs \<noteq> [] \<and> fst (hd bs) \<noteq> [])"

lemma stream_text_matrix:
  assumes "v_state v \<in> {READING_PREFIX, READING_MATRIX}" and "clauses_ok (batch_clauses bs)"
    and "lits_ok as" "0 \<le> v_written v"
    and "v_written v + int (length (batch_clauses bs) + length as) < 2 ^ 31"
  shows "stream_text h v (batch_msgs bs @ clause_msgs (units as) @ [MSolve]) =
    Some (concat (map clause_text (batch_clauses bs @ units as))
      @ concat (replicate (nat (v_clauses v - (v_written v + int (length (batch_clauses bs) + length as))))
          (v_filler v)))"
proof -
  let ?cs = "batch_clauses bs"
  let ?v = "v\<lparr>v_state := if ?cs = [] then v_state v else READING_MATRIX,
    v_written := v_written v + int (length ?cs)\<rparr>"
  have l: "length (units as) = length as" by (simp add: units_def)
  have "emit_list h ?v (clause_msgs (units as)) = Some (concat (map clause_text (units as)),
    ?v\<lparr>v_state := if units as = [] then v_state ?v else READING_MATRIX,
       v_written := v_written ?v + int (length (units as))\<rparr>)"
    using assms by (intro emit_clauses) (auto simp: l)
  from stream_text_emit_list [OF this, of "[MSolve]"]
  have "stream_text h ?v (clause_msgs (units as) @ [MSolve]) =
    Some (concat (map clause_text (units as)) @
      concat (replicate (nat (v_clauses v - (v_written v + int (length ?cs + length as)))) (v_filler v)))"
    using assms(1) by (auto simp: fillers_def l algebra_simps)
  then show ?thesis
    using stream_text_batches [of v bs h "clause_msgs (units as) @ [MSolve]"] assms by simp
qed

lemma concat_map_replicate [simp]: "concat (map f (replicate n x)) = concat (replicate n (f x))"
  by simp

lemma stream_text_formula:
  assumes qs: "lits_ok qs" and bs: "batches_ok qs bs" and as: "lits_ok as"
    and len: "int (length (batch_clauses bs) + length as) < 2 ^ 31"
  shows "stream_text h (start_view n) (solver_msgs x qs bs as) =
    Some (formula_text h qs (solver_clauses h qs (batch_clauses bs) as))"
proof -
  let ?cs = "batch_clauses bs"
  let ?v = "(start_view n)\<lparr>v_state := READING_PREFIX, v_clauses := clauses h,
    v_filler := if literals h = 0 then clause_text [] else start_filler\<rparr>"
  let ?ms = "batch_msgs bs @ clause_msgs (units as) @ [MSolve]"
  have head: "stream_text h (start_view n) (solver_msgs x qs bs as) =
    map_option (\<lambda>t. header_text h @ t) (stream_text h ?v (map MQuantifier qs @ ?ms))"
    by (simp add: solver_msgs_def start_view_def clause_text_def)
  have "stream_text h ?v (map MQuantifier qs @ ?ms) =
    Some (prefix_text qs @ concat (map clause_text (solver_clauses h qs ?cs as)))"
  proof (cases qs)
    case Nil
    then show ?thesis
      using stream_text_matrix [of ?v bs as h] bs as len
      by (simp add: batches_ok_def start_view_def prefix_text_def solver_clauses_def
          filler_clause_def start_filler_clause)
  next
    case (Cons q qs')
    then obtain cs w bs' c cs' where b: "bs = (cs, w) # bs'" "cs = c # cs'"
      using bs by (cases bs; cases "fst (hd bs)") (auto simp: batches_ok_def)
    let ?f = "if 0 < q then clause_text [q, - q] else v_filler ?v"
    have v: "v_state ?v = READING_PREFIX" "v_quantifiers ?v = 0" "lits_ok (q # qs')"
      using qs Cons by (simp_all add: start_view_def)
    from emit_prefix [OF this, of h] obtain t blk where
      e: "emit_list h ?v (map MQuantifier qs) =
        Some (t, ?v\<lparr>v_state := block_state blk, v_quantifiers := length qs, v_filler := ?f\<rparr>)"
      and t: "t @ block_end = prefix_text qs" using Cons by blast
    let ?w = "?v\<lparr>v_state := block_state blk, v_quantifiers := length qs, v_filler := ?f\<rparr>"
    let ?u = "?w\<lparr>v_state := READING_MATRIX, v_written := 1\<rparr>"
    have "emit_list h ?w (map MLiteral c @ [MLiteral 0]) = Some (block_end @ clause_text c, ?u)"
      using emit_clause [of ?w c h] bs b
      by (auto simp: batches_ok_def block_state_def lead_def start_view_def s32_id in32_def)
    from emit_list_append [OF e this]
    have p: "emit_list h ?v (map MQuantifier qs @ map MLiteral c @ [MLiteral 0]) =
      Some (prefix_text qs @ clause_text c, ?u)"
      using t by (metis append.assoc)
    let ?bs = "(cs', w) # bs'"
    have "stream_text h ?u (batch_msgs ?bs @ clause_msgs (units as) @ [MSolve]) =
      Some (concat (map clause_text (batch_clauses ?bs @ units as))
      @ concat (replicate (nat (v_clauses ?u - (v_written ?u + int (length (batch_clauses ?bs) + length as))))
          (v_filler ?u)))"
      using bs as len b by (intro stream_text_matrix) (auto simp: batches_ok_def)
    with stream_text_emit_list [OF p, of "batch_msgs ?bs @ clause_msgs (units as) @ [MSolve]"]
    show ?thesis
      using b Cons by (simp add: solver_clauses_def filler_clause_def start_filler_clause)
  qed
  with head show ?thesis by (simp add: formula_text_def)
qed

end
