(* ===== verification/Quapi_Solver.thy ===== *)
theory Quapi_Solver
  imports Quapi_Formula
begin

text \<open>
  The library of \<open>lib/src/quapi.c\<close>, its state and the operations that describe a formula:
  \<open>quapi_quantify\<close>, \<open>quapi_add\<close>, \<open>quapi_assume\<close>, \<open>quapi_reset_assumptions\<close>,
  \<open>quapi_terminate\<close> and the accessors. The record \<open>quapi_solver\<close> is the struct, without
  the descriptors of its pipes: of each pipe it keeps the bytes.
  A compiled regular expression is the predicate on subjects it stands for, and the
  callback for the solver's output is a function on a line and its user data.

  The struct is followed by the parts of the process it acts on: the bytes waiting on
  the pipe for messages to the parent and on the output of the solving child, the
  counter of its eventfd, the processes it has killed, and the four bytes an uninitialised
  message holds (\<open>sv_junk\<close>).
\<close>

section \<open>State\<close>

record quapi_config =
  executable_path :: string
  executable_argv :: "string option list"
  executable_envp :: "string option list"
  header :: quapi_msg_header_data
  SAT_regex :: "string option"
  UNSAT_regex :: "string option"

record 'u quapi_solver =
  config :: quapi_config
  sv_state :: quapi_state
  sv_pid :: int
  universal_prefix_depth :: int
  write_pipe_stream :: file_out
  solverchild_write_pipe_stream :: file_out
  written_clauses :: int
  written_assumptions :: int
  written_quantifier_literals :: int
  solverchild_pid :: int
  stdout_cb :: "(string \<Rightarrow> 'u \<Rightarrow> int \<times> 'u) option"
  stdout_cb_userdata :: 'u
  poll_solverchild :: bool    \<comment> \<open>\<open>POLLIN\<close> among the events of the third descriptor\<close>
  re_SAT :: "(string \<Rightarrow> bool) option"
  re_UNSAT :: "(string \<Rightarrow> bool) option"
  sv_messages :: "byte list"
  sv_output :: string
  sv_eventfd :: nat
  sv_killed :: "int list"
  sv_junk :: "byte list"

abbreviation sv_header :: "'u quapi_solver \<Rightarrow> quapi_msg_header_data" where
  "sv_header s \<equiv> header (config s)"

type_synonym ('a, 'u) op_result = "('a \<times> 'u quapi_solver) outcome"

section \<open>Writing messages\<close>

text \<open>
  \<open>quapi_write_msg_to_file\<close> on the two streams of the library, with the message built
  in an uninitialised variable.
\<close>

definition write_main :: "quapi_msg \<Rightarrow> quapi_msg_header_data option \<Rightarrow> 'u quapi_solver \<Rightarrow> (quapi_status, 'u) op_result" where
  "write_main m hdata s =
     bind_outcome (quapi_write_msg_to_file file_write file_flush True (write_pipe_stream s) (sv_junk s) m hdata)
       (\<lambda>(st, f). Ret (st, s\<lparr>write_pipe_stream := f\<rparr>))"

definition write_child :: "quapi_msg \<Rightarrow> 'u quapi_solver \<Rightarrow> (quapi_status, 'u) op_result" where
  "write_child m s =
     bind_outcome (quapi_write_msg_to_file file_write file_flush True (solverchild_write_pipe_stream s)
         (sv_junk s) m None)
       (\<lambda>(st, f). Ret (st, s\<lparr>solverchild_write_pipe_stream := f\<rparr>))"

section \<open>The formula\<close>

definition quapi_quantify :: "int \<Rightarrow> 'u quapi_solver \<Rightarrow> (unit, 'u) op_result" where
  "quapi_quantify lit_or_zero s =
     (if sv_state s \<noteq> QUAPI_INPUT then Assert_Failed
      else
        (let s1 = (if lit_or_zero < 0 \<and> written_quantifier_literals s < prefixdepth (sv_header s)
                   then s\<lparr>universal_prefix_depth := written_quantifier_literals s\<rparr> else s);
             lit = (if prefixdepth (sv_header s1) > written_quantifier_literals s1 \<and> lit_or_zero < 0
                    then s32 (- lit_or_zero) else lit_or_zero)
         in bind_outcome (write_main (MQuantifier lit) None s1)
              (\<lambda>(st, s2). Ret ((),
                 if lit \<noteq> 0
                 then s2\<lparr>written_quantifier_literals := s32 (written_quantifier_literals s2 + 1)\<rparr>
                 else s2))))"

definition quapi_add :: "int \<Rightarrow> 'u quapi_solver \<Rightarrow> (unit, 'u) op_result" where
  "quapi_add lit_or_zero s =
     (if \<not> (sv_state s = QUAPI_INPUT_LITERALS \<or> sv_state s = QUAPI_INPUT) then Assert_Failed
      else
        bind_outcome (write_main (MLiteral lit_or_zero) None (s\<lparr>sv_state := QUAPI_INPUT_LITERALS\<rparr>))
          (\<lambda>(st, s2). Ret ((),
             if lit_or_zero = 0 then s2\<lparr>written_clauses := s32 (written_clauses s2 + 1)\<rparr> else s2)))"

section \<open>Forking a solving child\<close>

text \<open>
  The loop of \<open>make_solvable\<close> that waits for the report of a fork: the child's pid, or
  \<open>None\<close> when the pipe gives no whole message any more.
\<close>

lemma quapi_read_msg_from_fd_shorter:
  "quapi_read_msg_from_fd bs = Ret (Some mo, bs') \<Longrightarrow> length bs' < length bs"
  by (auto simp: quapi_read_msg_from_fd_def Let_def split: if_splits option.splits)

function await_fork_report :: "byte list \<Rightarrow> (int option \<times> byte list) outcome" where
  "await_fork_report bs =
     (case quapi_read_msg_from_fd bs of
        Ret (Some mo, bs') \<Rightarrow>
          (case mo of
             Some (MFork_Report p) \<Rightarrow> Ret (Some p, bs')
           | _ \<Rightarrow> await_fork_report bs')
      | Ret (None, bs') \<Rightarrow> Ret (None, bs')
      | Exited n \<Rightarrow> Exited n
      | Assert_Failed \<Rightarrow> Assert_Failed
      | Undefined_Behaviour \<Rightarrow> Undefined_Behaviour)"
  by pat_completeness auto

termination
  by (relation "measure length") (auto dest: quapi_read_msg_from_fd_shorter)

declare await_fork_report.simps [simp del]

text \<open>\<open>reply\<close>: what arrives on the pipe for messages while the function waits.\<close>

definition make_solvable :: "byte list \<Rightarrow> 'u quapi_solver \<Rightarrow> (bool, 'u) op_result" where
  "make_solvable reply s =
     (if sv_state s = QUAPI_INPUT_LITERALS \<or> sv_state s = QUAPI_INPUT then
        bind_outcome (write_main (MFork (SAT_regex (config s) = None)) None
            (s\<lparr>sv_state := QUAPI_INPUT_ASSUMPTIONS\<rparr>))
          (\<lambda>(st, s1).
             if st \<noteq> QUAPI_OK then Ret (False, s1)
             else
               bind_outcome (await_fork_report (sv_messages s1 @ reply))
                 (\<lambda>(po, bs).
                    (case po of
                       None \<Rightarrow> Ret (False, s1\<lparr>sv_messages := bs\<rparr>)
                     | Some p \<Rightarrow> Ret (True, s1\<lparr>sv_messages := bs, solverchild_pid := p\<rparr>))))
      else Ret (True, s))"

definition quapi_assume :: "byte list \<Rightarrow> int \<Rightarrow> 'u quapi_solver \<Rightarrow> (bool, 'u) op_result" where
  "quapi_assume reply lit_or_zero s =
     (if \<not> (sv_state s = QUAPI_INPUT_LITERALS \<or> sv_state s = QUAPI_INPUT_ASSUMPTIONS) then Assert_Failed
      else if lit_or_zero = 0 then Ret (True, s)
      else if written_clauses s \<ge> s32 (clauses (sv_header s) + prefixdepth (sv_header s)) then Ret (False, s)
      else
        bind_outcome (make_solvable reply s)
          (\<lambda>(ok, s1).
             if \<not> ok then Ret (False, s1)
             else
               bind_outcome (write_child (MLiteral lit_or_zero) (s1\<lparr>sv_state := QUAPI_INPUT_ASSUMPTIONS\<rparr>))
                 (\<lambda>(st, s2).
                    if st \<noteq> QUAPI_OK then Ret (False, s2)
                    else
                      bind_outcome (write_child (MLiteral 0) s2)
                        (\<lambda>(st', s3).
                           if st' \<noteq> QUAPI_OK then Ret (False, s3)
                           else Ret (True,
                             s3\<lparr>written_clauses := s32 (written_clauses s3 + 1),
                                written_assumptions := s32 (written_assumptions s3 + 1)\<rparr>)))))"

definition abort_solverchild :: "'u quapi_solver \<Rightarrow> 'u quapi_solver" where
  "abort_solverchild s = s\<lparr>sv_killed := sv_killed s @ [solverchild_pid s]\<rparr>"

definition quapi_reset_assumptions :: "'u quapi_solver \<Rightarrow> 'u quapi_solver" where
  "quapi_reset_assumptions s =
     (if sv_state s = QUAPI_INPUT_ASSUMPTIONS then
        (let s1 = abort_solverchild s in
         s1\<lparr>written_clauses := s32 (written_clauses s1 - written_assumptions s1),
            written_assumptions := 0, sv_state := QUAPI_INPUT_LITERALS\<rparr>)
      else s)"

section \<open>Accessors\<close>

definition quapi_terminate :: "'u quapi_solver \<Rightarrow> 'u quapi_solver" where
  "quapi_terminate s = s\<lparr>sv_eventfd := sv_eventfd s + 1\<rparr>"

definition quapi_get_state :: "'u quapi_solver \<Rightarrow> quapi_state" where
  "quapi_get_state s = sv_state s"

definition quapi_set_stdout_cb :: "(string \<Rightarrow> 'u \<Rightarrow> int \<times> 'u) option \<Rightarrow> 'u \<Rightarrow> 'u quapi_solver \<Rightarrow> 'u quapi_solver" where
  "quapi_set_stdout_cb cb userdata s =
     s\<lparr>poll_solverchild := True, stdout_cb := cb, stdout_cb_userdata := userdata\<rparr>"

end
