(* ===== verification/Quapi_Solve.thy ===== *)
theory Quapi_Solve
  imports Quapi_Solver
begin

text \<open>
  Solving: the \<open>S_*\<close> state machine of \<open>lib/src/quapi.c\<close>, which waits for a message of
  the runtime, an abort or lines of the solver's output, and \<open>quapi_solve\<close> around it.

  What a call of \<open>poll\<close> waits for is a script: the results its calls will have, with
  the bytes that arrive before each of them. \<open>S_Blocked\<close> is a call of \<open>poll\<close> for which
  the script has no result, so one that never returns. A buffer that \<open>malloc\<close> or
  \<open>realloc\<close> gives is filled with \<open>NUL\<close> in the model; the code reads none of these bytes.
\<close>

section \<open>State\<close>

datatype s_state = S_POLL | S_HANDLE_CHILD | S_HANDLE_EVENTFD | S_HANDLE_SOLVERCHILD

datatype poll_errno = EFAULT | EINTR | EINVAL | ENOMEM

text \<open>
  A result of \<open>poll\<close>: an error, or a return after the given bytes arrived as
  messages and as output of the solver and \<open>quapi_terminate\<close> was called some times. After a
  \<open>Poll_Hang_Up\<close> the third descriptor has the bit \<open>POLLHUP\<close> as well: no process can write
  the solver's output any more. \<open>poll\<close> reports it whether it is asked for or not
  (\<open>events\<close> may be 0).
\<close>

datatype poll_result = Poll_Error poll_errno | Poll_Return "byte list" string nat
  | Poll_Hang_Up "byte list" string nat

text \<open>
  \<open>sd_buf\<close> is empty for the null pointer; \<open>buflen\<close> is its length. The fields
  \<open>revents_\<close> are the bits \<open>POLLIN\<close> of the three descriptors, \<open>hup_solverchild\<close> is the bit
  \<open>POLLHUP\<close> of the third.
\<close>

record 'u s_data =
  sd_solver :: "'u quapi_solver"
  retcode :: int
  revents_child :: bool
  revents_eventfd :: bool
  revents_solverchild :: bool
  hup_solverchild :: bool
  sd_buf :: string
  datalen :: nat

datatype 'u s_next = S_Next s_state "'u s_data" "poll_result list" | S_Null "'u s_data" | S_Blocked

section \<open>Lines of the solver's output\<close>

definition stdio_size :: nat where "stdio_size = 4096"

text \<open>
  The loop of \<open>read_all_available_into_buffer\<close> over the characters \<open>fgetc\<close> gives: it
  stops at a character 0 or when nothing more is available.
\<close>

fun read_chars :: "string \<Rightarrow> string \<Rightarrow> nat \<Rightarrow> nat \<Rightarrow> nat \<times> string \<times> nat" where
  "read_chars [] buf dl linecount = (linecount, buf, dl)"
| "read_chars (c # cs) buf dl linecount =
     (if c = NUL then (linecount, buf, dl)
      else
        (let buf1 = buf[dl := c];
             buf2 = (if Suc dl + 1 = length buf1 then buf1 @ replicate (length buf1) NUL else buf1)
         in read_chars cs buf2 (Suc dl) (if c = NL then Suc linecount else linecount)))"

text \<open>
  The stream around the descriptor is not kept: what it had read ahead is lost when the
  loop stops at a character 0.
\<close>

definition left_in_pipe :: "string \<Rightarrow> string" where
  "left_in_pipe avail =
     (let n = length (takeWhile (\<lambda>c. c \<noteq> NUL) avail) in
      if n = length avail then [] else drop (stdio_size * (n div stdio_size + 1)) avail)"

definition read_all_available_into_buffer :: "string \<Rightarrow> string \<Rightarrow> nat \<Rightarrow> nat \<times> string \<times> nat" where
  "read_all_available_into_buffer avail buf dl =
     (let (linecount, buf', dl') = read_chars avail (if buf = [] then replicate 1024 NUL else buf) dl 0
      in (linecount, buf'[dl' := NUL], dl'))"

text \<open>\<open>cutout_line_from_buf\<close>: the length of the first line with its end, 0 without one.\<close>

definition cutout_line_from_buf :: "string \<Rightarrow> nat \<times> string" where
  "cutout_line_from_buf buf =
     (let str = takeWhile (\<lambda>c. c \<noteq> NUL) buf; n = length (takeWhile (\<lambda>c. c \<noteq> NL) str) in
      if n = length str then (0, buf) else (Suc n, buf[n := NUL]))"

definition move_next_line_to_front :: "nat \<Rightarrow> 'u s_data \<Rightarrow> 'u s_data" where
  "move_next_line_to_front linelength d =
     d\<lparr>sd_buf := poke (sd_buf d) 0 (peek (sd_buf d) linelength (datalen d - linelength)),
       datalen := datalen d - linelength\<rparr>"

text \<open>A missing pattern matches nothing.\<close>

definition match_regex :: "(string \<Rightarrow> bool) option \<Rightarrow> string \<Rightarrow> bool" where
  "match_regex re subject = (case re of None \<Rightarrow> False | Some f \<Rightarrow> f subject)"

text \<open>The loop over the lines in \<open>S_HANDLE_SOLVERCHILD\<close>; \<open>True\<close> when it goes on to poll.\<close>

fun handle_lines :: "nat \<Rightarrow> 'u s_data \<Rightarrow> (bool \<times> 'u s_data) outcome" where
  "handle_lines 0 d = Ret (True, d)"
| "handle_lines (Suc lines) d =
     (let (linelength, buf') = cutout_line_from_buf (sd_buf d);
          d1 = d\<lparr>sd_buf := buf'\<rparr>;
          s = sd_solver d1
      in if linelength = 0 then Assert_Failed
         else if match_regex (re_SAT s) (take linelength buf') then Ret (False, d1\<lparr>retcode := 10\<rparr>)
         else if match_regex (re_UNSAT s) (take linelength buf') then Ret (False, d1\<lparr>retcode := 20\<rparr>)
         else
           (case stdout_cb s of
              None \<Rightarrow> handle_lines lines (move_next_line_to_front linelength d1)
            | Some cb \<Rightarrow>
                (let (ret, u) = cb (takeWhile (\<lambda>c. c \<noteq> NUL) buf') (stdout_cb_userdata s);
                     d2 = d1\<lparr>sd_solver := s\<lparr>stdout_cb_userdata := u\<rparr>\<rparr>
                 in if ret \<noteq> 0 then Ret (False, d2\<lparr>retcode := ret\<rparr>)
                    else handle_lines lines (move_next_line_to_front linelength d2))))"

section \<open>The states\<close>

text \<open>What a return of \<open>poll\<close> leaves in \<open>out_pollfds\<close>.\<close>

definition poll_arrived :: "bool \<Rightarrow> byte list \<Rightarrow> string \<Rightarrow> nat \<Rightarrow> 'u s_data \<Rightarrow> 'u s_data" where
  "poll_arrived hup ms out n d =
     (let s = sd_solver d;
          s' = s\<lparr>sv_messages := sv_messages s @ ms, sv_output := sv_output s @ out,
                 sv_eventfd := sv_eventfd s + n\<rparr>
      in d\<lparr>sd_solver := s', revents_child := sv_messages s' \<noteq> [],
           revents_eventfd := 0 < sv_eventfd s',
           revents_solverchild := poll_solverchild s' \<and> sv_output s' \<noteq> [],
           hup_solverchild := hup\<rparr>)"

text \<open>\<open>S_POLL\<close> tests \<open>POLLIN\<close> only; it does not look at the bit \<open>POLLHUP\<close>.\<close>

definition s_poll :: "'u s_data \<Rightarrow> poll_result list \<Rightarrow> 'u s_next outcome" where
  "s_poll d script =
     (if revents_child d then Ret (S_Next S_HANDLE_CHILD (d\<lparr>revents_child := False\<rparr>) script)
      else if revents_eventfd d then Ret (S_Next S_HANDLE_EVENTFD (d\<lparr>revents_eventfd := False\<rparr>) script)
      else if revents_solverchild d then
        Ret (S_Next S_HANDLE_SOLVERCHILD (d\<lparr>revents_solverchild := False\<rparr>) script)
      else
        (case script of
           [] \<Rightarrow> Ret S_Blocked
         | Poll_Error e # script' \<Rightarrow>
             (if e = EINTR then Ret (S_Next S_POLL d script') else Ret (S_Null (d\<lparr>retcode := 0\<rparr>)))
         | Poll_Return ms out n # script' \<Rightarrow> Ret (S_Next S_POLL (poll_arrived False ms out n d) script')
         | Poll_Hang_Up ms out n # script' \<Rightarrow> Ret (S_Next S_POLL (poll_arrived True ms out n d) script')))"

definition s_handle_child :: "'u s_data \<Rightarrow> poll_result list \<Rightarrow> 'u s_next outcome" where
  "s_handle_child d script =
     bind_outcome (quapi_read_msg_from_fd (sv_messages (sd_solver d)))
       (\<lambda>(res, bs).
          let d1 = d\<lparr>sd_solver := (sd_solver d)\<lparr>sv_messages := bs\<rparr>\<rparr> in
          case res of
            None \<Rightarrow> Ret (S_Next S_POLL d1 script)
          | Some mo \<Rightarrow>
              (case mo of
                 Some MDestructed \<Rightarrow> Ret (S_Null (d1\<lparr>retcode := 0\<rparr>))
               | Some (MExit_Code c) \<Rightarrow>
                   (if c = 0 \<and> retcode d1 = 0 \<and> stdout_cb (sd_solver d1) \<noteq> None
                    then Ret (S_Next S_POLL d1 script)
                    else Ret (S_Null (d1\<lparr>retcode := c\<rparr>)))
               | _ \<Rightarrow> Ret (S_Null (d1\<lparr>retcode := 0\<rparr>))))"

definition s_handle_eventfd :: "'u s_data \<Rightarrow> 'u s_next outcome" where
  "s_handle_eventfd d =
     Ret (S_Null (d\<lparr>sd_solver := abort_solverchild ((sd_solver d)\<lparr>sv_eventfd := 0\<rparr>), retcode := 0\<rparr>))"

definition s_handle_solverchild :: "'u s_data \<Rightarrow> poll_result list \<Rightarrow> 'u s_next outcome" where
  "s_handle_solverchild d script =
     (let s = sd_solver d;
          (lines, buf, dl) = read_all_available_into_buffer (sv_output s) (sd_buf d) (datalen d);
          d1 = d\<lparr>sd_solver := s\<lparr>sv_output := left_in_pipe (sv_output s)\<rparr>, sd_buf := buf, datalen := dl\<rparr>
      in bind_outcome (handle_lines lines d1)
           (\<lambda>(more, d2). Ret (if more then S_Next S_POLL d2 script else S_Null d2)))"

fun s_step :: "s_state \<Rightarrow> 'u s_data \<Rightarrow> poll_result list \<Rightarrow> 'u s_next outcome" where
  "s_step S_POLL d script = s_poll d script"
| "s_step S_HANDLE_CHILD d script = s_handle_child d script"
| "s_step S_HANDLE_EVENTFD d script = s_handle_eventfd d"
| "s_step S_HANDLE_SOLVERCHILD d script = s_handle_solverchild d script"

text \<open>
  Every pass over the machine takes a pending event or a result of \<open>poll\<close>, so a finite
  script is used up.
\<close>

lemma handle_lines_revents:
  "handle_lines n d = Ret (b, d') \<Longrightarrow> revents_child d' = revents_child d
     \<and> revents_eventfd d' = revents_eventfd d \<and> revents_solverchild d' = revents_solverchild d
     \<and> hup_solverchild d' = hup_solverchild d"
proof (induction n arbitrary: d)
  case (Suc n)
  then show ?case
    by (auto simp: move_next_line_to_front_def Let_def split: if_splits option.splits prod.splits
        dest!: Suc.IH)
qed simp

definition pending_events :: "'u s_data \<Rightarrow> nat" where
  "pending_events d = of_bool (revents_child d) + of_bool (revents_eventfd d) + of_bool (revents_solverchild d)"

lemma pending_events_update [simp]:
  "pending_events (d\<lparr>sd_solver := s\<rparr>) = pending_events d"
  by (simp add: pending_events_def)

lemma s_poll_events:
  "s_poll d script = Ret (S_Next S' d' script') \<Longrightarrow>
     script' = script \<and> pending_events d' + 1 = pending_events d
     \<or> length script = Suc (length script') \<and> S' = S_POLL \<and> pending_events d' \<le> 3"
proof (cases "revents_child d \<or> revents_eventfd d \<or> revents_solverchild d")
  case True
  moreover assume "s_poll d script = Ret (S_Next S' d' script')"
  ultimately show ?thesis by (auto simp: s_poll_def pending_events_def split: if_splits)
next
  case False
  moreover assume "s_poll d script = Ret (S_Next S' d' script')"
  moreover have "pending_events e \<le> 3" for e :: "'a s_data"
    by (simp add: pending_events_def of_bool_def)
  ultimately show ?thesis
    by (cases script; cases "hd script") (auto simp: s_poll_def Let_def split: if_splits)
qed

lemma s_handle_child_events:
  "s_handle_child d script = Ret (S_Next S' d' script') \<Longrightarrow>
     script' = script \<and> S' = S_POLL \<and> pending_events d' = pending_events d"
proof -
  assume eq: "s_handle_child d script = Ret (S_Next S' d' script')"
  then obtain res bs where r: "quapi_read_msg_from_fd (sv_messages (sd_solver d)) = Ret (res, bs)"
    by (cases "quapi_read_msg_from_fd (sv_messages (sd_solver d))") (auto simp: s_handle_child_def)
  consider "res = None" | "res = Some None" | m where "res = Some (Some m)"
    by (metis option.exhaust)
  then show ?thesis
  proof cases
    case (3 m)
    with eq r show ?thesis
      by (cases m) (auto simp: s_handle_child_def Let_def split: if_splits)
  qed (use eq r in \<open>auto simp: s_handle_child_def Let_def\<close>)
qed

lemma s_handle_solverchild_events:
  "s_handle_solverchild d script = Ret (S_Next S' d' script') \<Longrightarrow>
     script' = script \<and> S' = S_POLL \<and> pending_events d' = pending_events d"
  by (auto simp: s_handle_solverchild_def pending_events_def Let_def bind_outcome_Ret_iff
      dest!: handle_lines_revents split: if_splits prod.splits)

definition s_rank :: "s_state \<Rightarrow> 'u s_data \<Rightarrow> poll_result list \<Rightarrow> nat" where
  "s_rank S d script = 8 * length script + 2 * pending_events d + (if S = S_POLL then 0 else 1)"

lemma s_step_rank:
  "s_step S d script = Ret (S_Next S' d' script') \<Longrightarrow> s_rank S' d' script' < s_rank S d script"
  by (cases S) (auto simp: s_rank_def s_handle_eventfd_def
      dest!: s_poll_events s_handle_child_events s_handle_solverchild_events)

text \<open>
  The loop of \<open>solve_internal\<close>: the data when a state returns \<open>NULL\<close>, \<open>None\<close> when a
  call of \<open>poll\<close> does not return.
\<close>

function s_run :: "s_state \<Rightarrow> 'u s_data \<Rightarrow> poll_result list \<Rightarrow> 'u s_data outcome option" where
  "s_run S d script =
     (case s_step S d script of
        Ret (S_Next S' d' script') \<Rightarrow> s_run S' d' script'
      | Ret (S_Null d') \<Rightarrow> Some (Ret d')
      | Ret S_Blocked \<Rightarrow> None
      | Exited n \<Rightarrow> Some (Exited n)
      | Assert_Failed \<Rightarrow> Some Assert_Failed
      | Undefined_Behaviour \<Rightarrow> Some Undefined_Behaviour)"
  by pat_completeness auto

termination
  by (relation "measure (\<lambda>(S, d, script). s_rank S d script)") (auto dest: s_step_rank)

declare s_run.simps [simp del]

section \<open>Solving\<close>

definition solve_data :: "'u quapi_solver \<Rightarrow> 'u s_data" where
  "solve_data s = \<lparr>sd_solver = s, retcode = 0, revents_child = False, revents_eventfd = False,
     revents_solverchild = False, hup_solverchild = False, sd_buf = [], datalen = 0\<rparr>"

definition solve_internal :: "poll_result list \<Rightarrow> 'u quapi_solver \<Rightarrow> (int, 'u) op_result option" where
  "solve_internal script s =
     (if sv_state s \<notin> {QUAPI_INPUT, QUAPI_INPUT_LITERALS, QUAPI_INPUT_ASSUMPTIONS} then Some (Ret (0, s))
      else
        (case write_child MSolve (s\<lparr>sv_state := QUAPI_WORKING\<rparr>) of
           Ret (st, s1) \<Rightarrow>
             (if st \<noteq> QUAPI_OK then Some (Ret (0, s1))
              else
                map_option (\<lambda>res. bind_outcome res (\<lambda>d. Ret (retcode d, sd_solver d)))
                  (s_run S_POLL (solve_data s1) script))
         | Exited n \<Rightarrow> Some (Exited n)
         | Assert_Failed \<Rightarrow> Some Assert_Failed
         | Undefined_Behaviour \<Rightarrow> Some Undefined_Behaviour))"

text \<open>
  \<open>quapi_solve\<close>: \<open>allow\<close> is whether the environment allows missing assumptions for
  leading universal variables.
\<close>

definition quapi_solve ::
    "bool \<Rightarrow> byte list \<Rightarrow> poll_result list \<Rightarrow> 'u quapi_solver \<Rightarrow> (int, 'u) op_result option" where
  "quapi_solve allow reply script s =
     (if written_assumptions s < universal_prefix_depth s \<and> \<not> allow then Some (Ret (0, s))
      else
        (case make_solvable reply s of
           Ret (ok, s1) \<Rightarrow>
             (if \<not> ok then Some (Ret (0, s1))
              else
                map_option (\<lambda>res. bind_outcome res (\<lambda>(r, s2). Ret (r,
                    s2\<lparr>sv_state := QUAPI_INPUT_LITERALS,
                       written_clauses := s32 (written_clauses s2 - written_assumptions s2),
                       written_assumptions := 0\<rparr>)))
                  (solve_internal script s1))
         | Exited n \<Rightarrow> Some (Exited n)
         | Assert_Failed \<Rightarrow> Some Assert_Failed
         | Undefined_Behaviour \<Rightarrow> Some Undefined_Behaviour))"

end
