(* ===== verification/Quapi_Output.thy ===== *)
theory Quapi_Output
  imports Quapi_Solve
begin

text \<open>
  What a solve answers. \<open>decide\<close> is the specification on the lines of the solver's
  output: the first line that matches a pattern, or for which the callback gives a
  result other than 0, is the answer. The lemmas show that the buffer of \<open>S_data\<close> keeps
  exactly the text that is not yet handled, with room for its terminator, and that the
  machine answers \<open>decide\<close> of all the output however it is cut into pieces.
\<close>

section \<open>The specification\<close>

text \<open>The complete lines of a text that follows the unfinished line \<open>acc\<close>, and the rest.\<close>

fun split_lines :: "string \<Rightarrow> string \<Rightarrow> string list \<times> string" where
  "split_lines acc [] = ([], acc)"
| "split_lines acc (c # cs) =
     (if c = NL then (case split_lines [] cs of (ls, r) \<Rightarrow> (acc # ls, r))
      else split_lines (acc @ [c]) cs)"

text \<open>A pattern is matched against the line and the terminator the code put after it.\<close>

fun decide :: "'u quapi_solver \<Rightarrow> string list \<Rightarrow> int option \<times> 'u quapi_solver" where
  "decide s [] = (None, s)"
| "decide s (l # ls) =
     (if match_regex (re_SAT s) (l @ [NUL]) then (Some 10, s)
      else if match_regex (re_UNSAT s) (l @ [NUL]) then (Some 20, s)
      else
        (case stdout_cb s of
           None \<Rightarrow> decide s ls
         | Some cb \<Rightarrow>
             (let (ret, u) = cb l (stdout_cb_userdata s); s' = s\<lparr>stdout_cb_userdata := u\<rparr> in
              if ret \<noteq> 0 then (Some ret, s') else decide s' ls)))"

lemma split_lines_append:
  "split_lines acc (t @ u) =
     (let (ls, r) = split_lines acc t; (ls', r') = split_lines r u in (ls @ ls', r'))"
  by (induction acc t rule: split_lines.induct) (auto split: prod.splits)

lemma split_lines_line: "NL \<notin> set l \<Longrightarrow> split_lines acc (l @ t) = split_lines (acc @ l) t"
  by (induction l arbitrary: acc) auto

lemma split_lines_rest: "NL \<notin> set acc \<Longrightarrow> NL \<notin> set (snd (split_lines acc t))"
  by (induction acc t rule: split_lines.induct) (auto split: prod.splits)

lemma split_lines_set:
  "set (snd (split_lines acc t)) \<subseteq> set acc \<union> set t"
  by (induction acc t rule: split_lines.induct) (auto split: prod.splits)

lemma length_split_lines: "length (fst (split_lines acc t)) = count_list t NL"
  by (induction acc t rule: split_lines.induct) (auto split: prod.splits)

lemma decide_append:
  "decide s (ls @ ls') =
     (case decide s ls of (None, s') \<Rightarrow> decide s' ls' | (Some r, s') \<Rightarrow> (Some r, s'))"
  by (induction ls arbitrary: s) (auto simp: Let_def split: option.splits prod.splits)

lemma decide_same:
  "decide s ls = (res, s') \<Longrightarrow> \<exists>u. s' = s\<lparr>stdout_cb_userdata := u\<rparr>"
proof (induction ls arbitrary: s)
  case Nil
  then have "s' = s\<lparr>stdout_cb_userdata := stdout_cb_userdata s\<rparr>" by simp
  then show ?case ..
next
  case (Cons l ls)
  have self: "\<exists>u. x = x\<lparr>stdout_cb_userdata := u\<rparr>" for x :: "'a quapi_solver"
    by (intro exI [of _ "stdout_cb_userdata x"]) simp
  from Cons.prems show ?case
    by (auto simp: Let_def split: if_splits option.splits prod.splits dest!: Cons.IH intro: self)
qed

section \<open>The buffer\<close>

text \<open>The buffer keeps the text \<open>t\<close>, and room for a terminator after it.\<close>

definition keeps :: "'u s_data \<Rightarrow> string \<Rightarrow> bool" where
  "keeps d t \<longleftrightarrow> datalen d = length t \<and> NUL \<notin> set t
     \<and> (sd_buf d = [] \<and> t = [] \<or> length t + 1 < length (sd_buf d) \<and> take (length t) (sd_buf d) = t)"

lemma read_chars_keeps:
  assumes "length t + 1 < length buf" "take (length t) buf = t" "NUL \<notin> set cs"
  shows "\<exists>buf'. read_chars cs buf (length t) n = (n + count_list cs NL, buf', length (t @ cs))
    \<and> length (t @ cs) + 1 < length buf' \<and> take (length (t @ cs)) buf' = t @ cs"
  using assms
proof (induction cs arbitrary: t buf n)
  case (Cons c cs)
  let ?b1 = "buf[length t := c]"
  let ?b2 = "if Suc (length t) + 1 = length ?b1 then ?b1 @ replicate (length ?b1) NUL else ?b1"
  have t1: "take (length (t @ [c])) ?b1 = t @ [c]"
    using Cons.prems by (simp add: take_Suc_conv_app_nth)
  have b2: "length (t @ [c]) + 1 < length ?b2" "take (length (t @ [c])) ?b2 = t @ [c]"
    using Cons.prems t1 by auto
  from Cons.IH [OF b2, of "if c = NL then Suc n else n"] Cons.prems obtain buf'
    where "read_chars cs ?b2 (length (t @ [c])) (if c = NL then Suc n else n) =
        ((if c = NL then Suc n else n) + count_list cs NL, buf', length ((t @ [c]) @ cs))"
      and "length ((t @ [c]) @ cs) + 1 < length buf'" "take (length ((t @ [c]) @ cs)) buf' = (t @ [c]) @ cs"
    by auto
  then show ?case using Cons.prems by (auto simp: Let_def)
qed simp

lemma read_all_keeps:
  assumes k: "keeps d t" and a: "NUL \<notin> set avail"
  shows "\<exists>buf. read_all_available_into_buffer avail (sd_buf d) (datalen d)
      = (count_list avail NL, buf, length (t @ avail))
    \<and> (\<forall>s. keeps (d\<lparr>sd_solver := s, sd_buf := buf, datalen := length (t @ avail)\<rparr>) (t @ avail))"
proof -
  let ?buf = "if sd_buf d = [] then replicate 1024 NUL else sd_buf d"
  have d: "datalen d = length t" and b: "length t + 1 < length ?buf" "take (length t) ?buf = t"
    using k by (auto simp: keeps_def)
  from read_chars_keeps [OF b a, of 0] obtain buf'
    where r: "read_chars avail ?buf (length t) 0 = (count_list avail NL, buf', length (t @ avail))"
      and l: "length (t @ avail) + 1 < length buf'" "take (length (t @ avail)) buf' = t @ avail"
    by auto
  show ?thesis
    using r l k a d
    by (auto simp: read_all_available_into_buffer_def keeps_def Let_def)
qed

lemma left_in_pipe_none: "NUL \<notin> set avail \<Longrightarrow> left_in_pipe avail = []"
proof -
  assume "NUL \<notin> set avail"
  then have "takeWhile (\<lambda>c. c \<noteq> NUL) avail = avail" by (simp add: takeWhile_eq_all_conv) metis
  then have "length (takeWhile (\<lambda>c. c \<noteq> NUL) avail) = length avail" by (rule arg_cong)
  then show ?thesis by (simp only: left_in_pipe_def Let_def simp_thms if_True)
qed

text \<open>The first line of a kept text, cut out and dropped.\<close>

lemma cutout_line:
  assumes k: "keeps d (l @ NL # t)" and l: "NL \<notin> set l"
  shows "\<exists>buf. cutout_line_from_buf (sd_buf d) = (Suc (length l), buf)
    \<and> take (Suc (length l)) buf = l @ [NUL] \<and> takeWhile (\<lambda>c. c \<noteq> NUL) buf = l
    \<and> (\<forall>s. keeps (move_next_line_to_front (Suc (length l)) (d\<lparr>sd_buf := buf, sd_solver := s\<rparr>)) t)"
proof -
  let ?n = "length l" and ?buf = "sd_buf d"
  let ?rest = "drop (length (l @ NL # t)) ?buf"
  have "take (length (l @ NL # t)) ?buf = l @ NL # t" and "length (l @ NL # t) + 1 < length ?buf"
    using k by (auto simp: keeps_def)
  then obtain rest where buf: "?buf = l @ NL # t @ rest" and rest: "1 < length rest"
    using append_take_drop_id [of "length (l @ NL # t)" ?buf]
    by (intro that [of ?rest]) (simp, simp)
  have nul: "NUL \<notin> set l" "NUL \<notin> set t" and dl: "datalen d = length l + Suc (length t)"
    using k by (auto simp: keeps_def)
  have w: "takeWhile (\<lambda>c. c \<noteq> NUL) ?buf = l @ NL # takeWhile (\<lambda>c. c \<noteq> NUL) (t @ rest)"
    using nul by (simp add: buf takeWhile_append)
  have l': "takeWhile (\<lambda>c. c \<noteq> NL) (l @ NL # x) = l" for x
    using l by (simp add: takeWhile_append)
  have cut: "cutout_line_from_buf ?buf = (Suc ?n, ?buf[?n := NUL])"
    unfolding cutout_line_from_buf_def Let_def w l' by simp
  have buf': "?buf[?n := NUL] = l @ NUL # t @ rest" by (simp add: buf)
  have "takeWhile (\<lambda>c. c \<noteq> NUL) (l @ NUL # t @ rest) = l"
    using nul by (simp add: takeWhile_append)
  moreover have "poke (l @ NUL # t @ rest) 0 t = t @ drop (length t) (l @ NUL # t @ rest)"
    by (simp add: poke_def)
  moreover have "peek (l @ NUL # t @ rest) (Suc ?n) (length t) = t"
    by (simp add: peek_def)
  ultimately show ?thesis
    using cut buf' dl nul rest
    by (auto simp: move_next_line_to_front_def keeps_def)
qed

lemma count_line: "NL \<in> set t \<Longrightarrow> \<exists>l t'. t = l @ NL # t' \<and> NL \<notin> set l"
  by (metis split_list_first)

lemma handle_lines_decide:
  assumes "keeps d t"
  shows "case decide (sd_solver d) (fst (split_lines [] t)) of
      (None, s') \<Rightarrow> \<exists>d'. handle_lines (count_list t NL) d = Ret (True, d') \<and> sd_solver d' = s'
        \<and> keeps d' (snd (split_lines [] t)) \<and> retcode d' = retcode d
    | (Some r, s') \<Rightarrow> \<exists>d'. handle_lines (count_list t NL) d = Ret (False, d') \<and> sd_solver d' = s' \<and> retcode d' = r"
  using assms
proof (induction "count_list t NL" arbitrary: t d)
  case 0
  then have "NL \<notin> set t" by (metis count_list_0_iff)
  then have "split_lines [] t = ([], t)" using split_lines_line [of t "[]" "[]"] by simp
  with 0 show ?case by simp
next
  case (Suc n)
  then have "NL \<in> set t" using count_notin by fastforce
  from count_line [OF this] obtain l t' where t: "t = l @ NL # t'" and l: "NL \<notin> set l" by blast
  have n: "n = count_list t' NL" using Suc.hyps(2) t l by simp
  from cutout_line [OF Suc.prems [unfolded t] l] obtain buf
    where cut: "cutout_line_from_buf (sd_buf d) = (Suc (length l), buf)"
      and sub: "take (Suc (length l)) buf = l @ [NUL]" "takeWhile (\<lambda>c. c \<noteq> NUL) buf = l"
      and k: "\<And>s. keeps (move_next_line_to_front (Suc (length l)) (d\<lparr>sd_buf := buf, sd_solver := s\<rparr>)) t'"
    by blast
  have sp: "fst (split_lines [] t) = l # fst (split_lines [] t')" "snd (split_lines [] t) = snd (split_lines [] t')"
    using split_lines_line [OF l, of "[]" "NL # t'"] by (simp_all add: t split: prod.splits)
  have cnt: "count_list t NL = Suc n" using Suc.hyps(2) by simp
  let ?next = "\<lambda>s. move_next_line_to_front (Suc (length l)) (d\<lparr>sd_buf := buf, sd_solver := s\<rparr>)"
  have nx: "sd_solver (?next s) = s" "retcode (?next s) = retcode d" for s
    by (simp_all add: move_next_line_to_front_def)
  have d0: "d\<lparr>sd_buf := buf\<rparr> = d\<lparr>sd_buf := buf, sd_solver := sd_solver d\<rparr>" by simp
  note IH = Suc.hyps(1) [OF n k, unfolded nx n [symmetric]]
  show ?case
  proof (cases "match_regex (re_SAT (sd_solver d)) (l @ [NUL]) \<or> match_regex (re_UNSAT (sd_solver d)) (l @ [NUL])")
    case True
    then show ?thesis by (auto simp: sp cnt cut sub)
  next
    case False
    show ?thesis
    proof (cases "stdout_cb (sd_solver d)")
      case None
      with False have step: "handle_lines (count_list t NL) d = handle_lines n (?next (sd_solver d))"
        by (simp add: cnt cut sub d0 [symmetric])
      have dec: "decide (sd_solver d) (fst (split_lines [] t)) = decide (sd_solver d) (fst (split_lines [] t'))"
        using None False by (simp add: sp)
      show ?thesis unfolding step dec sp(2) by (rule IH)
    next
      case (Some cb)
      obtain ret u where cb: "cb l (stdout_cb_userdata (sd_solver d)) = (ret, u)" by fastforce
      let ?s = "(sd_solver d)\<lparr>stdout_cb_userdata := u\<rparr>"
      show ?thesis
      proof (cases "ret = 0")
        case True
        have step: "handle_lines (count_list t NL) d = handle_lines n (?next ?s)"
          using False Some cb True by (simp add: cnt cut sub)
        have dec: "decide (sd_solver d) (fst (split_lines [] t)) = decide ?s (fst (split_lines [] t'))"
          using Some cb True False by (simp add: sp Let_def)
        show ?thesis unfolding step dec sp(2) by (rule IH)
      next
        case nz: False
        with False Some cb show ?thesis by (auto simp: sp cnt cut sub Let_def)
      qed
    qed
  qed
qed

section \<open>Pieces of output\<close>

definition quiet :: "'u quapi_solver \<Rightarrow> bool" where
  "quiet s \<longleftrightarrow> poll_solverchild s \<and> sv_messages s = [] \<and> sv_output s = [] \<and> sv_eventfd s = 0"

definition idle :: "'u s_data \<Rightarrow> bool" where
  "idle d \<longleftrightarrow> \<not> revents_child d \<and> \<not> revents_eventfd d \<and> \<not> revents_solverchild d
     \<and> \<not> hup_solverchild d \<and> quiet (sd_solver d)"

definition pieces :: "string list \<Rightarrow> poll_result list" where
  "pieces outs = map (\<lambda>out. Poll_Return [] out 0) outs"

lemma quiet_decide: "decide s ls = (res, s') \<Longrightarrow> quiet s' = quiet s"
  using decide_same by (fastforce simp: quiet_def)

lemma s_run_next: "s_step S d script = Ret (S_Next S' d' script') \<Longrightarrow> s_run S d script = s_run S' d' script'"
  by (subst s_run.simps) simp

lemma s_run_null: "s_step S d script = Ret (S_Null d') \<Longrightarrow> s_run S d script = Some (Ret d')"
  by (subst s_run.simps) simp

lemma s_run_blocked: "s_step S d script = Ret S_Blocked \<Longrightarrow> s_run S d script = None"
  by (subst s_run.simps) simp

lemma s_run_piece:
  assumes i: "idle d" and k: "keeps d t" and nl: "NL \<notin> set t" and o: "NUL \<notin> set out"
  shows "case decide (sd_solver d) (fst (split_lines [] (t @ out))) of
      (None, s') \<Rightarrow> \<exists>d'. s_run S_POLL d (Poll_Return [] out 0 # script) = s_run S_POLL d' script
        \<and> idle d' \<and> sd_solver d' = s' \<and> keeps d' (snd (split_lines [] (t @ out))) \<and> retcode d' = retcode d
    | (Some r, s') \<Rightarrow> \<exists>d'. s_run S_POLL d (Poll_Return [] out 0 # script) = Some (Ret d')
        \<and> sd_solver d' = s' \<and> retcode d' = r"
proof (cases "out = []")
  case True
  have "split_lines [] t = ([], t)" using split_lines_line [OF nl, of "[]" "[]"] by simp
  moreover have "s_step S_POLL d (Poll_Return [] out 0 # script) = Ret (S_Next S_POLL d script)"
    using i True by (simp add: s_poll_def poll_arrived_def idle_def quiet_def Let_def)
  from s_run_next [OF this] have "s_run S_POLL d (Poll_Return [] out 0 # script) = s_run S_POLL d script" .
  ultimately show ?thesis using i k True by auto
next
  case False
  let ?s = "(sd_solver d)\<lparr>sv_output := out\<rparr>"
  let ?d1 = "d\<lparr>sd_solver := ?s, revents_solverchild := True\<rparr>"
  let ?d2 = "d\<lparr>sd_solver := ?s\<rparr>"
  have dd: "d\<lparr>revents_child := False, revents_eventfd := False\<rparr> = d" "d\<lparr>revents_solverchild := False\<rparr> = d"
      "d\<lparr>hup_solverchild := False\<rparr> = d"
    using i by (simp_all add: idle_def)
  have "s_step S_POLL d (Poll_Return [] out 0 # script) = Ret (S_Next S_POLL ?d1 script)"
    using i False by (simp add: s_poll_def poll_arrived_def idle_def quiet_def Let_def)
  moreover have "s_step S_POLL ?d1 script = Ret (S_Next S_HANDLE_SOLVERCHILD ?d2 script)"
    using i by (simp add: s_poll_def idle_def)
  ultimately have poll: "s_run S_POLL d (Poll_Return [] out 0 # script) = s_run S_HANDLE_SOLVERCHILD ?d2 script"
    using s_run_next by metis
  from read_all_keeps [OF k o] obtain buf
    where r: "read_all_available_into_buffer out (sd_buf d) (datalen d) = (count_list out NL, buf, length (t @ out))"
      and kk: "\<And>s. keeps (d\<lparr>sd_solver := s, sd_buf := buf, datalen := length (t @ out)\<rparr>) (t @ out)" by blast
  let ?d3 = "d\<lparr>sd_solver := sd_solver d, sd_buf := buf, datalen := length (t @ out)\<rparr>"
  have "?s\<lparr>sv_output := []\<rparr> = sd_solver d" using i by (simp add: idle_def quiet_def)
  then have step: "s_step S_HANDLE_SOLVERCHILD ?d2 script =
      bind_outcome (handle_lines (count_list (t @ out) NL) ?d3)
        (\<lambda>(more, d2). Ret (if more then S_Next S_POLL d2 script else S_Null d2))"
    using nl r left_in_pipe_none [OF o] by (simp add: s_handle_solverchild_def count_list_0_iff)
  have i3: "idle ?d3" using i by (simp add: idle_def)
  obtain res s' where dec: "decide (sd_solver d) (fst (split_lines [] (t @ out))) = (res, s')" by fastforce
  show ?thesis
  proof (cases res)
    case None
    with handle_lines_decide [OF kk, of "sd_solver d"] dec obtain d'
      where h: "handle_lines (count_list (t @ out) NL) ?d3 = Ret (True, d')" "sd_solver d' = s'"
        "keeps d' (snd (split_lines [] (t @ out)))" "retcode d' = retcode d" by auto
    have "idle d'"
      using i3 h(2) handle_lines_revents [OF h(1)] quiet_decide [OF dec] by (simp add: idle_def)
    with h step poll dec None s_run_next [of S_HANDLE_SOLVERCHILD ?d2 script S_POLL d' script]
    show ?thesis by auto
  next
    case (Some r)
    with handle_lines_decide [OF kk, of "sd_solver d"] dec obtain d'
      where h: "handle_lines (count_list (t @ out) NL) ?d3 = Ret (False, d')" "sd_solver d' = s'"
        "retcode d' = r" by auto
    with step poll dec Some s_run_null [of S_HANDLE_SOLVERCHILD ?d2 script d'] show ?thesis by auto
  qed
qed

lemma s_run_pieces:
  assumes "idle d" "keeps d t" "NL \<notin> set t" "NUL \<notin> set (concat outs)"
  shows "case decide (sd_solver d) (fst (split_lines t (concat outs))) of
      (None, s') \<Rightarrow> s_run S_POLL d (pieces outs) = None
    | (Some r, s') \<Rightarrow> \<exists>d'. s_run S_POLL d (pieces outs) = Some (Ret d') \<and> sd_solver d' = s' \<and> retcode d' = r"
  using assms
proof (induction outs arbitrary: d t)
  case Nil
  then show ?case by (simp add: pieces_def s_run_blocked s_poll_def idle_def)
next
  case (Cons out outs)
  have o: "NUL \<notin> set out" "NUL \<notin> set (concat outs)" using Cons.prems(4) by auto
  have "split_lines [] (t @ out) = split_lines t out"
    using split_lines_line [OF Cons.prems(3), of "[]" out] by simp
  note piece = s_run_piece [OF Cons.prems(1-3) o(1), of "pieces outs", unfolded this]
  obtain ls r where sp: "split_lines t out = (ls, r)" by fastforce
  obtain ls' r' where sp': "split_lines r (concat outs) = (ls', r')" by fastforce
  have all: "fst (split_lines t (concat (out # outs))) = ls @ ls'"
    by (simp add: split_lines_append sp sp')
  obtain res s' where dec: "decide (sd_solver d) ls = (res, s')" by fastforce
  show ?case
  proof (cases res)
    case None
    with piece sp dec obtain d'
      where d': "s_run S_POLL d (pieces (out # outs)) = s_run S_POLL d' (pieces outs)" "idle d'"
        "sd_solver d' = s'" "keeps d' r" by (auto simp: pieces_def)
    have "NL \<notin> set r" using split_lines_rest [OF Cons.prems(3), of out] sp by simp
    from Cons.IH [OF d'(2,4) this o(2)] show ?thesis
      unfolding all d'(1) by (simp add: decide_append dec None d'(3) sp')
  next
    case (Some rc)
    with piece sp dec show ?thesis unfolding all by (auto simp: decide_append pieces_def)
  qed
qed

text \<open>The answer to output alone is \<open>decide\<close> of its lines.\<close>

lemma solve_machine_output:
  assumes "quiet s" and "NUL \<notin> set (concat outs)"
  shows "map_option (\<lambda>res. bind_outcome res (\<lambda>d. Ret (retcode d, sd_solver d)))
      (s_run S_POLL (solve_data s) (pieces outs))
    = (case decide s (fst (split_lines [] (concat outs))) of
         (None, s') \<Rightarrow> None
       | (Some r, s') \<Rightarrow> Some (Ret (r, s')))"
proof -
  have "idle (solve_data s)" "keeps (solve_data s) []"
    using assms(1) by (simp_all add: idle_def solve_data_def keeps_def)
  from s_run_pieces [OF this _ assms(2)] show ?thesis
    by (auto simp: solve_data_def split: option.splits prod.splits)
qed

text \<open>
  A descriptor that reports nothing but \<open>POLLHUP\<close>, the end of its pipe: the machine polls
  again for as long as the script goes on, whether or not it waits for output.
\<close>

lemma s_run_hang_up:
  assumes "\<not> revents_child d" "\<not> revents_eventfd d" "\<not> revents_solverchild d"
    and "sv_messages (sd_solver d) = []" "sv_output (sd_solver d) = []" "sv_eventfd (sd_solver d) = 0"
  shows "s_run S_POLL d (replicate n (Poll_Hang_Up [] [] 0)) = None"
  using assms
proof (induction n arbitrary: d)
  case 0
  then show ?case by (simp add: s_run_blocked s_poll_def)
next
  case (Suc n)
  let ?d = "poll_arrived True [] [] 0 d"
  have "s_step S_POLL d (replicate (Suc n) (Poll_Hang_Up [] [] 0)) = Ret (S_Next S_POLL ?d (replicate n (Poll_Hang_Up [] [] 0)))"
    using Suc.prems by (simp add: s_poll_def)
  from s_run_next [OF this] Suc.IH [of ?d] Suc.prems show ?case by (simp add: poll_arrived_def)
qed

end
