(* ===== verification/Quapi_Library.thy ===== *)
theory Quapi_Library
  imports Quapi_Output
begin

text \<open>
  What the library promises its client. \<open>formula_state\<close> is the formula a client has
  described so far; \<open>describes s F\<close> relates it to the library's counters, its state and
  the bytes on its two pipes; every operation is simulated by the obvious operation on
  \<open>formula_state\<close>.
\<close>

section \<open>The formula described so far\<close>

text \<open>
  The quantifiers as the client gave them, the batches of clauses that were followed by a
  fork, the clauses since then, the clause being written, the assumptions of the child
  that waits for them (\<open>None\<close> when none was forked), and all messages sent to
  earlier children.
\<close>

record formula_state =
  fs_asked :: "int list"
  fs_batches :: "(int list list \<times> bool) list"
  fs_clauses :: "int list list"
  fs_clause :: "int list"
  fs_assumptions :: "int list option"
  fs_earlier :: "quapi_msg list"

text \<open>Leading universal quantifiers are sent as existential ones.\<close>

definition given_prefix :: "int \<Rightarrow> int list \<Rightarrow> int list" where
  "given_prefix d asked =
     map (\<lambda>i. if int i < d \<and> asked ! i < 0 then - (asked ! i) else asked ! i) [0..<length asked]"

text \<open>The last position below \<open>d\<close> of a universal quantifier.\<close>

definition universal_depth :: "int \<Rightarrow> int list \<Rightarrow> int" where
  "universal_depth d asked =
     (let us = filter (\<lambda>i. int i < d \<and> asked ! i < 0) [0..<length asked] in
      if us = [] then -1 else int (last us))"

definition main_msgs :: "int \<Rightarrow> formula_state \<Rightarrow> quapi_msg list" where
  "main_msgs d F = MHeader QUAPI_API_VERSION # map MQuantifier (given_prefix d (fs_asked F))
     @ batch_msgs (fs_batches F) @ clause_msgs (fs_clauses F) @ map MLiteral (fs_clause F)"

definition fs_units :: "formula_state \<Rightarrow> int list" where
  "fs_units F = (case fs_assumptions F of None \<Rightarrow> [] | Some as \<Rightarrow> as)"

definition child_msgs :: "formula_state \<Rightarrow> quapi_msg list" where
  "child_msgs F = fs_earlier F @ clause_msgs (units (fs_units F))"

definition fs_count :: "formula_state \<Rightarrow> nat" where
  "fs_count F = length (batch_clauses (fs_batches F)) + length (fs_clauses F)"

lemma given_prefix_snoc:
  "given_prefix d (asked @ [q]) =
     given_prefix d asked @ [if int (length asked) < d \<and> q < 0 then - q else q]"
  by (simp add: given_prefix_def nth_append)

lemma given_prefix_Nil [simp]: "given_prefix d [] = []"
  by (simp add: given_prefix_def)

lemma length_given_prefix [simp]: "length (given_prefix d asked) = length asked"
  by (simp add: given_prefix_def)

lemma given_prefix_0: "d \<le> 0 \<Longrightarrow> given_prefix d asked = asked"
  by (intro nth_equalityI) (simp_all add: given_prefix_def)

lemma lits_ok_given_prefix: "lits_ok asked \<Longrightarrow> lits_ok (given_prefix d asked)"
  by (auto simp: lits_ok_def given_prefix_def)

lemma universal_depth_Nil [simp]: "universal_depth d [] = -1"
  by (simp add: universal_depth_def)

lemma universal_depth_snoc:
  "universal_depth d (asked @ [q]) =
     (if int (length asked) < d \<and> q < 0 then int (length asked) else universal_depth d asked)"
proof -
  have "filter (\<lambda>i. int i < d \<and> (asked @ [q]) ! i < 0) [0..<length asked]
      = filter (\<lambda>i. int i < d \<and> asked ! i < 0) [0..<length asked]"
    by (rule filter_cong) (auto simp: nth_append)
  then show ?thesis by (simp add: universal_depth_def Let_def)
qed

section \<open>Relating the library to it\<close>

definition frames :: "'u quapi_solver \<Rightarrow> quapi_msg list \<Rightarrow> byte list list" where
  "frames s ms = map (frame (sv_junk s) (sv_header s)) ms"

definition phase_ok :: "quapi_state \<Rightarrow> formula_state \<Rightarrow> bool" where
  "phase_ok st F \<longleftrightarrow>
     (if fs_assumptions F \<noteq> None then st = QUAPI_INPUT_ASSUMPTIONS
      else st \<in> {QUAPI_INPUT, QUAPI_INPUT_LITERALS})
     \<and> (st = QUAPI_INPUT \<longrightarrow> fs_batches F = [] \<and> fs_clauses F = [] \<and> fs_clause F = [])"

definition counts_ok :: "'u quapi_solver \<Rightarrow> formula_state \<Rightarrow> bool" where
  "counts_ok s F \<longleftrightarrow> written_quantifier_literals s = int (length (fs_asked F))
     \<and> written_assumptions s = int (length (fs_units F))
     \<and> written_clauses s = int (fs_count F + length (fs_units F))
     \<and> universal_prefix_depth s = universal_depth (prefixdepth (sv_header s)) (fs_asked F)"

definition describes :: "'u quapi_solver \<Rightarrow> formula_state \<Rightarrow> bool" where
  "describes s F \<longleftrightarrow> length (sv_junk s) = 4 \<and> header_ok (sv_header s)
     \<and> file_out_holds (write_pipe_stream s) (frames s (main_msgs (prefixdepth (sv_header s)) F))
     \<and> file_out_holds (solverchild_write_pipe_stream s) (frames s (child_msgs F))
     \<and> (fs_assumptions F \<noteq> None \<longrightarrow>
          file_out_arrived (write_pipe_stream s) (frames s (main_msgs (prefixdepth (sv_header s)) F)))
     \<and> phase_ok (sv_state s) F \<and> counts_ok s F"

definition start_formula :: formula_state where
  "start_formula = \<lparr>fs_asked = [], fs_batches = [], fs_clauses = [], fs_clause = [],
     fs_assumptions = None, fs_earlier = []\<rparr>"

lemma write_main_holds:
  assumes "file_out_holds (write_pipe_stream s) (frames s ms)" "length (sv_junk s) = 4" "msg_type m \<noteq> MSG_HEADER"
  shows "\<exists>f. write_main m None s = Ret (QUAPI_OK, s\<lparr>write_pipe_stream := f\<rparr>)
    \<and> file_out_holds f (frames s (ms @ [m]))
    \<and> (msg_type m \<in> {MSG_FORK, MSG_SOLVE} \<longrightarrow> file_out_arrived f (frames s (ms @ [m])))"
  using file_sink.write_msg [OF assms(1,2), of m None "sv_header s"] assms(3)
  by (auto simp: write_main_def frames_def)

lemma write_child_holds:
  assumes "file_out_holds (solverchild_write_pipe_stream s) (frames s ms)" "length (sv_junk s) = 4"
    and "msg_type m \<noteq> MSG_HEADER"
  shows "\<exists>f. write_child m s = Ret (QUAPI_OK, s\<lparr>solverchild_write_pipe_stream := f\<rparr>)
    \<and> file_out_holds f (frames s (ms @ [m]))
    \<and> (msg_type m \<in> {MSG_FORK, MSG_SOLVE} \<longrightarrow> file_out_arrived f (frames s (ms @ [m])))"
  using file_sink.write_msg [OF assms(1,2), of m None "sv_header s"] assms(3)
  by (auto simp: write_child_def frames_def)

lemmas describes_defs = describes_def phase_ok_def counts_ok_def main_msgs_def child_msgs_def
  fs_units_def fs_count_def

section \<open>Describing a formula\<close>

definition fs_quantify :: "int \<Rightarrow> formula_state \<Rightarrow> formula_state" where
  "fs_quantify q F = F\<lparr>fs_asked := fs_asked F @ [q]\<rparr>"

definition fs_add :: "int \<Rightarrow> formula_state \<Rightarrow> formula_state" where
  "fs_add l F =
     (if l = 0 then F\<lparr>fs_clauses := fs_clauses F @ [fs_clause F], fs_clause := []\<rparr>
      else F\<lparr>fs_clause := fs_clause F @ [l]\<rparr>)"

definition fs_fork :: "bool \<Rightarrow> formula_state \<Rightarrow> formula_state" where
  "fs_fork w F =
     (if fs_assumptions F = None
      then F\<lparr>fs_batches := fs_batches F @ [(fs_clauses F, w)], fs_clauses := [], fs_assumptions := Some []\<rparr>
      else F)"

definition fs_assume :: "bool \<Rightarrow> int \<Rightarrow> formula_state \<Rightarrow> formula_state" where
  "fs_assume w a F = (fs_fork w F)\<lparr>fs_assumptions := Some (fs_units F @ [a])\<rparr>"

definition fs_solve :: "bool \<Rightarrow> formula_state \<Rightarrow> formula_state" where
  "fs_solve w F = (fs_fork w F)\<lparr>fs_assumptions := None, fs_earlier := child_msgs F @ [MSolve]\<rparr>"

definition fs_reset :: "formula_state \<Rightarrow> formula_state" where
  "fs_reset F = F\<lparr>fs_assumptions := None, fs_earlier := child_msgs F\<rparr>"

lemma quapi_quantify_describes:
  assumes d: "describes s F" and st: "sv_state s = QUAPI_INPUT" and q: "lit_ok q" "q \<noteq> 0"
    and len: "int (length (fs_asked F)) < 2 ^ 31 - 1"
  shows "\<exists>s'. quapi_quantify q s = Ret ((), s') \<and> describes s' (fs_quantify q F)
    \<and> sv_state s' = QUAPI_INPUT \<and> config s' = config s"
proof -
  let ?n = "length (fs_asked F)" and ?d = "prefixdepth (sv_header s)"
  let ?lit = "if int ?n < ?d \<and> q < 0 then - q else q"
  have w: "written_quantifier_literals s = int ?n" using d by (simp add: describes_def counts_ok_def)
  let ?s1 = "if q < 0 \<and> int ?n < ?d then s\<lparr>universal_prefix_depth := int ?n\<rparr> else s"
  have F: "fs_clauses F = []" "fs_clause F = []" "fs_batches F = []" "fs_assumptions F = None"
    using d st by (auto simp: describes_def phase_ok_def split: if_splits)
  have same: "write_pipe_stream ?s1 = write_pipe_stream s" "sv_junk ?s1 = sv_junk s" "frames ?s1 = frames s"
    by (auto simp: frames_def)
  obtain f where f: "write_main (MQuantifier ?lit) None ?s1 = Ret (QUAPI_OK, ?s1\<lparr>write_pipe_stream := f\<rparr>)"
    "file_out_holds f (frames s (main_msgs ?d F @ [MQuantifier ?lit]))"
    using write_main_holds [of ?s1 "main_msgs ?d F" "MQuantifier ?lit"] d
    unfolding same by (auto simp: describes_def)
  let ?s2 = "?s1\<lparr>write_pipe_stream := f, written_quantifier_literals := int ?n + 1\<rparr>"
  have "quapi_quantify q s = Ret ((), ?s2)"
    using f(1) st q w len by (auto simp: quapi_quantify_def Let_def c_int)
  moreover have "describes ?s2 (fs_quantify q F)"
    using d f(2) F st w
    by (auto simp: describes_defs fs_quantify_def given_prefix_snoc universal_depth_snoc frames_def)
  ultimately show ?thesis using st by auto
qed

lemma quapi_add_describes:
  assumes d: "describes s F" and st: "fs_assumptions F = None"
    and len: "int (fs_count F) < 2 ^ 31 - 1"
  shows "\<exists>s'. quapi_add l s = Ret ((), s') \<and> describes s' (fs_add l F) \<and> config s' = config s"
proof -
  let ?s1 = "s\<lparr>sv_state := QUAPI_INPUT_LITERALS\<rparr>" and ?d = "prefixdepth (sv_header s)"
  have same: "write_pipe_stream ?s1 = write_pipe_stream s" "sv_junk ?s1 = sv_junk s" "frames ?s1 = frames s"
    by (auto simp: frames_def)
  obtain f where f: "write_main (MLiteral l) None ?s1 = Ret (QUAPI_OK, ?s1\<lparr>write_pipe_stream := f\<rparr>)"
    "file_out_holds f (frames s (main_msgs ?d F @ [MLiteral l]))"
    using write_main_holds [of ?s1 "main_msgs ?d F" "MLiteral l"] d
    unfolding same by (auto simp: describes_def)
  let ?s2 = "?s1\<lparr>write_pipe_stream := f, written_clauses := written_clauses s + (if l = 0 then 1 else 0)\<rparr>"
  have w: "written_clauses s = int (fs_count F)" using d st by (simp add: describes_def counts_ok_def fs_units_def)
  have "sv_state s \<in> {QUAPI_INPUT, QUAPI_INPUT_LITERALS}" using d st by (simp add: describes_def phase_ok_def)
  then have "quapi_add l s = Ret ((), ?s2)"
    using f(1) w len by (auto simp: quapi_add_def c_int)
  moreover have "describes ?s2 (fs_add l F)"
    using d f(2) st w by (auto simp: describes_defs fs_add_def frames_def)
  ultimately show ?thesis by auto
qed

section \<open>Forking, assuming and solving\<close>

text \<open>The reply of the runtime to a request to fork.\<close>

definition reports :: "byte list \<Rightarrow> int \<Rightarrow> byte list \<Rightarrow> bool" where
  "reports bs p rest \<longleftrightarrow> await_fork_report bs = Ret (Some p, rest)"

lemma reports_frame:
  assumes "length u = 4" "in32 p"
  shows "reports (msg_arr u (MFork_Report p) @ rest) p rest"
  using quapi_read_msg_from_fd_msg [OF assms(1), of "MFork_Report p" rest] assms(2)
  by (simp add: reports_def await_fork_report.simps)

text \<open>Messages of earlier children are passed over.\<close>

lemma reports_skip:
  assumes "length u = 4" "msg_ok m" "msg_type m \<notin> {MSG_HEADER, MSG_FORK_REPORT}"
  shows "reports (msg_arr u m @ bs) p rest = reports bs p rest"
  using quapi_read_msg_from_fd_msg [OF assms(1,2), of bs] assms(3)
  unfolding reports_def by (subst await_fork_report.simps, cases m) simp_all

definition waits :: "'u quapi_solver \<Rightarrow> bool" where
  "waits s \<longleftrightarrow> SAT_regex (config s) = None"

text \<open>Asking for a solving child leaves the sources of events alone.\<close>

definition same_events :: "'u quapi_solver \<Rightarrow> 'u quapi_solver \<Rightarrow> bool" where
  "same_events s s' \<longleftrightarrow> sv_output s' = sv_output s \<and> sv_eventfd s' = sv_eventfd s \<and> sv_killed s' = sv_killed s
     \<and> stdout_cb s' = stdout_cb s \<and> stdout_cb_userdata s' = stdout_cb_userdata s
     \<and> poll_solverchild s' = poll_solverchild s \<and> re_SAT s' = re_SAT s \<and> re_UNSAT s' = re_UNSAT s"

lemma make_solvable_describes:
  assumes d: "describes s F" and c: "fs_clause F = []"
    and r: "fs_assumptions F = None \<longrightarrow> reports (sv_messages s @ reply) p rest"
  shows "\<exists>s'. make_solvable reply s = Ret (True, s') \<and> describes s' (fs_fork (waits s) F)
    \<and> config s' = config s \<and> sv_state s' = QUAPI_INPUT_ASSUMPTIONS
    \<and> written_clauses s' = written_clauses s
    \<and> (fs_assumptions F = None \<longrightarrow> solverchild_pid s' = p \<and> sv_messages s' = rest)
    \<and> (fs_assumptions F \<noteq> None \<longrightarrow> s' = s) \<and> sv_junk s' = sv_junk s \<and> same_events s s'"
proof (cases "fs_assumptions F = None")
  case False
  then have "sv_state s = QUAPI_INPUT_ASSUMPTIONS" using d by (simp add: describes_def phase_ok_def)
  with False d show ?thesis by (auto simp: make_solvable_def fs_fork_def same_events_def)
next
  case True
  let ?s1 = "s\<lparr>sv_state := QUAPI_INPUT_ASSUMPTIONS\<rparr>" and ?d = "prefixdepth (sv_header s)"
  let ?m = "MFork (waits s)"
  have same: "write_pipe_stream ?s1 = write_pipe_stream s" "sv_junk ?s1 = sv_junk s" "frames ?s1 = frames s"
    by (auto simp: frames_def)
  obtain f where f: "write_main ?m None ?s1 = Ret (QUAPI_OK, ?s1\<lparr>write_pipe_stream := f\<rparr>)"
    "file_out_holds f (frames s (main_msgs ?d F @ [?m]))" "file_out_arrived f (frames s (main_msgs ?d F @ [?m]))"
    using write_main_holds [of ?s1 "main_msgs ?d F" ?m] d
    unfolding same by (auto simp: describes_def)
  let ?s2 = "?s1\<lparr>write_pipe_stream := f, sv_messages := rest, solverchild_pid := p\<rparr>"
  have "sv_state s \<in> {QUAPI_INPUT, QUAPI_INPUT_LITERALS}" using d True by (simp add: describes_def phase_ok_def)
  then have "make_solvable reply s = Ret (True, ?s2)"
    using f(1) r True by (auto simp: make_solvable_def reports_def waits_def)
  moreover have "describes ?s2 (fs_fork (waits s) F)"
    using d f(2,3) True c
    by (auto simp: describes_defs fs_fork_def frames_def batch_msgs_def batch_clauses_def)
  moreover have "same_events s ?s2" "sv_junk ?s2 = sv_junk s" by (simp_all add: same_events_def)
  ultimately show ?thesis using True by (intro exI [of _ ?s2]) simp
qed

lemma quapi_assume_describes:
  assumes d: "describes s F" and c: "fs_clause F = []" and st: "sv_state s \<noteq> QUAPI_INPUT" and a: "a \<noteq> 0"
    and r: "fs_assumptions F = None \<Longrightarrow> reports (sv_messages s @ reply) p rest"
    and room: "written_clauses s < s32 (clauses (sv_header s) + prefixdepth (sv_header s))"
  shows "\<exists>s'. quapi_assume reply a s = Ret (True, s') \<and> describes s' (fs_assume (waits s) a F)
    \<and> config s' = config s \<and> written_clauses s' = written_clauses s + 1 \<and> sv_state s' \<noteq> QUAPI_INPUT"
proof -
  have "fs_assumptions F = None \<longrightarrow> reports (sv_messages s @ reply) p rest" using r by blast
  from make_solvable_describes [OF d c this] obtain s1
    where s1: "make_solvable reply s = Ret (True, s1)" "describes s1 (fs_fork (waits s) F)"
      "config s1 = config s" "sv_state s1 = QUAPI_INPUT_ASSUMPTIONS" "written_clauses s1 = written_clauses s"
    by (elim exE conjE) (rule that)
  have st1: "s1\<lparr>sv_state := QUAPI_INPUT_ASSUMPTIONS\<rparr> = s1" using s1(4) by simp
  let ?F = "fs_fork (waits s) F"
  from s1(2) have j: "length (sv_junk s1) = 4" and h: "file_out_holds (solverchild_write_pipe_stream s1) (frames s1 (child_msgs ?F))"
    by (simp_all add: describes_def)
  from write_child_holds [OF h j, of "MLiteral a"] obtain f1
    where f1: "write_child (MLiteral a) s1 = Ret (QUAPI_OK, s1\<lparr>solverchild_write_pipe_stream := f1\<rparr>)"
      "file_out_holds f1 (frames s1 (child_msgs ?F @ [MLiteral a]))" by auto
  let ?s2 = "s1\<lparr>solverchild_write_pipe_stream := f1\<rparr>"
  have h2: "file_out_holds (solverchild_write_pipe_stream ?s2) (frames ?s2 (child_msgs ?F @ [MLiteral a]))"
    and j2: "length (sv_junk ?s2) = 4" using f1(2) j by (simp_all add: frames_def)
  from write_child_holds [OF h2 j2, of "MLiteral 0"] obtain f2
    where f2: "write_child (MLiteral 0) ?s2 = Ret (QUAPI_OK, s1\<lparr>solverchild_write_pipe_stream := f2\<rparr>)"
      "file_out_holds f2 (frames s1 (child_msgs ?F @ [MLiteral a, MLiteral 0]))"
    by (auto simp: frames_def)
  have "0 \<le> written_clauses s" "0 \<le> written_assumptions s1" "written_assumptions s1 \<le> written_clauses s"
    using d s1(2,5) by (auto simp: describes_def counts_ok_def)
  moreover have "written_clauses s < 2 ^ 31 - 1"
    using room in32_s32 [of "clauses (sv_header s) + prefixdepth (sv_header s)"] unfolding in32_def by linarith
  ultimately have arith: "s32 (written_clauses s1 + 1) = written_clauses s + 1"
    "s32 (written_assumptions s1 + 1) = written_assumptions s1 + 1"
    using s1(5) by (simp_all add: c_int)
  let ?s3 = "s1\<lparr>solverchild_write_pipe_stream := f2, written_clauses := written_clauses s + 1,
      written_assumptions := written_assumptions s1 + 1\<rparr>"
  have "sv_state s \<in> {QUAPI_INPUT_LITERALS, QUAPI_INPUT_ASSUMPTIONS}"
    using d st by (auto simp: describes_def phase_ok_def split: if_splits)
  then have "quapi_assume reply a s = Ret (True, ?s3)"
    using a room s1(1) f1(1) f2(1) arith st1 by (auto simp: quapi_assume_def)
  moreover have "describes ?s3 (fs_assume (waits s) a F)"
    using s1(2,5) f2(2)
    by (cases "fs_assumptions F") (auto simp: describes_defs fs_assume_def fs_fork_def frames_def units_def)
  ultimately show ?thesis using s1(3,4) by auto
qed

lemma quapi_reset_assumptions_describes:
  assumes d: "describes s F" and len: "int (fs_count F + length (fs_units F)) < 2 ^ 31"
    and some: "fs_assumptions F \<noteq> None"
  shows "describes (quapi_reset_assumptions s) (fs_reset F)"
    and "sv_killed (quapi_reset_assumptions s) = sv_killed s @ [solverchild_pid s]"
    and "sv_state (quapi_reset_assumptions s) = QUAPI_INPUT_LITERALS"
proof -
  have st: "sv_state s = QUAPI_INPUT_ASSUMPTIONS" using d some by (simp add: describes_def phase_ok_def)
  have "s32 (written_clauses s - written_assumptions s) = int (fs_count F)"
    using d len by (simp add: describes_def counts_ok_def c_int)
  then show "describes (quapi_reset_assumptions s) (fs_reset F)"
    using d st by (auto simp: quapi_reset_assumptions_def abort_solverchild_def describes_defs
        fs_reset_def frames_def Let_def)
  show "sv_killed (quapi_reset_assumptions s) = sv_killed s @ [solverchild_pid s]"
    and "sv_state (quapi_reset_assumptions s) = QUAPI_INPUT_LITERALS"
    using st by (simp_all add: quapi_reset_assumptions_def abort_solverchild_def Let_def)
qed

text \<open>The machine of a solve leaves all of this alone.\<close>

definition same_library :: "'u quapi_solver \<Rightarrow> 'u quapi_solver \<Rightarrow> bool" where
  "same_library s s' \<longleftrightarrow> config s' = config s \<and> sv_junk s' = sv_junk s \<and> sv_state s' = sv_state s
     \<and> write_pipe_stream s' = write_pipe_stream s
     \<and> solverchild_write_pipe_stream s' = solverchild_write_pipe_stream s
     \<and> written_quantifier_literals s' = written_quantifier_literals s
     \<and> written_clauses s' = written_clauses s \<and> written_assumptions s' = written_assumptions s
     \<and> universal_prefix_depth s' = universal_prefix_depth s"

lemma same_library_refl [simp, intro]: "same_library s s"
  by (simp add: same_library_def)

lemma same_library_trans: "same_library s t \<Longrightarrow> same_library t u \<Longrightarrow> same_library s u"
  by (simp add: same_library_def)

lemma same_library_update [simp]:
  "same_library s (t\<lparr>sv_messages := ms\<rparr>) = same_library s t"
  "same_library s (t\<lparr>sv_output := out\<rparr>) = same_library s t"
  "same_library s (t\<lparr>sv_eventfd := n\<rparr>) = same_library s t"
  "same_library s (t\<lparr>stdout_cb_userdata := u\<rparr>) = same_library s t"
  "same_library s (abort_solverchild t) = same_library s t"
  by (simp_all add: same_library_def abort_solverchild_def)

lemma handle_lines_same:
  "handle_lines n d = Ret (b, d') \<Longrightarrow> same_library s (sd_solver d) \<Longrightarrow> same_library s (sd_solver d')"
proof (induction n arbitrary: d)
  case (Suc n)
  from Suc.prems show ?case
    by (auto simp: move_next_line_to_front_def Let_def split: if_splits option.splits prod.splits
        dest!: Suc.IH)
qed simp

lemma s_poll_same:
  "s_poll d script = Ret (S_Next S' d' script') \<Longrightarrow> same_library (sd_solver d) (sd_solver d')"
  "s_poll d script = Ret (S_Null d') \<Longrightarrow> same_library (sd_solver d) (sd_solver d')"
  by (auto simp: s_poll_def poll_arrived_def Let_def split: if_splits list.splits poll_result.splits)

lemma s_handle_child_same:
  assumes "s_handle_child d script \<in> {Ret (S_Next S' d' script'), Ret (S_Null d')}"
  shows "same_library (sd_solver d) (sd_solver d')"
proof -
  obtain res bs where r: "quapi_read_msg_from_fd (sv_messages (sd_solver d)) = Ret (res, bs)"
    using assms by (cases "quapi_read_msg_from_fd (sv_messages (sd_solver d))") (auto simp: s_handle_child_def)
  consider "res = None" | "res = Some None" | m where "res = Some (Some m)"
    by (metis option.exhaust)
  then show ?thesis
  proof cases
    case (3 m)
    with assms r show ?thesis
      by (cases m) (auto simp: s_handle_child_def Let_def split: if_splits)
  qed (use assms r in \<open>auto simp: s_handle_child_def Let_def\<close>)
qed

lemma s_handle_solverchild_same:
  assumes "s_handle_solverchild d script \<in> {Ret (S_Next S' d' script'), Ret (S_Null d')}"
  shows "same_library (sd_solver d) (sd_solver d')"
  using assms
  by (auto simp: s_handle_solverchild_def Let_def bind_outcome_Ret_iff
      dest!: handle_lines_same [of _ _ _ _ "sd_solver d"] split: if_splits prod.splits)

lemma s_step_same:
  assumes "s_step S d script \<in> {Ret (S_Next S' d' script'), Ret (S_Null d')}"
  shows "same_library (sd_solver d) (sd_solver d')"
  using assms s_poll_same [of d script] s_handle_child_same [of d script S' d' script']
    s_handle_solverchild_same [of d script S' d' script']
  by (cases S) (auto simp: s_handle_eventfd_def)

lemma s_run_same:
  "s_run S d script = Some (Ret d') \<Longrightarrow> same_library (sd_solver d) (sd_solver d')"
proof (induction S d script rule: s_run.induct)
  case (1 S d script)
  show ?case
  proof (cases "s_step S d script")
    case (Ret n)
    show ?thesis
    proof (cases n)
      case (S_Next S' d1 script')
      with 1 Ret have "same_library (sd_solver d1) (sd_solver d')"
        by (auto simp: s_run_next)
      with s_step_same [of S d script S' d1 script'] Ret S_Next show ?thesis
        by (auto intro: same_library_trans)
    next
      case (S_Null d1)
      with 1 Ret s_step_same [of S d script S d1 script] show ?thesis by (auto simp: s_run_null)
    next
      case S_Blocked
      with 1 Ret show ?thesis by (simp add: s_run_blocked)
    qed
  qed (use 1 in \<open>simp_all add: s_run.simps [of S d script]\<close>)
qed

text \<open>What \<open>quapi_solve\<close> makes of the data the machine ends with.\<close>

definition finish_solve :: "'u s_data \<Rightarrow> (int, 'u) op_result" where
  "finish_solve d =
     (let s = sd_solver d in
      Ret (retcode d, s\<lparr>sv_state := QUAPI_INPUT_LITERALS,
        written_clauses := s32 (written_clauses s - written_assumptions s), written_assumptions := 0\<rparr>))"

text \<open>
  A solve sends its order to the child, with everything before it, and then
  runs the machine.
\<close>

definition solve_ordered :: "'u quapi_solver \<Rightarrow> formula_state \<Rightarrow> int \<Rightarrow> byte list \<Rightarrow> 'u quapi_solver \<Rightarrow> bool" where
  "solve_ordered s F p rest s1 \<longleftrightarrow>
     config s1 = config s \<and> sv_junk s1 = sv_junk s \<and> counts_ok s1 (fs_fork (waits s) F) \<and> same_events s s1
   \<and> sv_messages s1 = (if fs_assumptions F = None then rest else sv_messages s)
   \<and> solverchild_pid s1 = (if fs_assumptions F = None then p else solverchild_pid s)
   \<and> (let ms = main_msgs (prefixdepth (sv_header s)) (fs_fork (waits s) F);
          cs = child_msgs (fs_fork (waits s) F) @ [MSolve] in
        file_out_holds (write_pipe_stream s1) (frames s ms) \<and> file_out_arrived (write_pipe_stream s1) (frames s ms)
      \<and> file_out_holds (solverchild_write_pipe_stream s1) (frames s cs)
      \<and> file_out_arrived (solverchild_write_pipe_stream s1) (frames s cs))"

lemma quapi_solve_request:
  assumes d: "describes s F" and c: "fs_clause F = []"
    and r: "fs_assumptions F = None \<Longrightarrow> reports (sv_messages s @ reply) p rest"
    and u: "universal_depth (prefixdepth (sv_header s)) (fs_asked F) \<le> int (length (fs_units F)) \<or> allow"
  obtains s1 where "\<forall>script. quapi_solve allow reply script s =
        map_option (\<lambda>res. bind_outcome res finish_solve) (s_run S_POLL (solve_data s1) script)"
    and "solve_ordered s F p rest s1"
proof -
  have "fs_assumptions F = None \<longrightarrow> reports (sv_messages s @ reply) p rest" using r by blast
  from make_solvable_describes [OF d c this] obtain s0
    where s0: "make_solvable reply s = Ret (True, s0)" "describes s0 (fs_fork (waits s) F)"
      "config s0 = config s" "sv_state s0 = QUAPI_INPUT_ASSUMPTIONS"
      "fs_assumptions F = None \<longrightarrow> solverchild_pid s0 = p \<and> sv_messages s0 = rest"
      "fs_assumptions F \<noteq> None \<longrightarrow> s0 = s" and j: "sv_junk s0 = sv_junk s" and ev: "same_events s s0"
    by (elim exE conjE) (rule that)
  let ?F = "fs_fork (waits s) F"
  let ?sw = "s0\<lparr>sv_state := QUAPI_WORKING\<rparr>"
  have fr: "frames ?sw = frames s" "frames s0 = frames s" using j s0(3) by (auto simp: frames_def)
  have sw: "solverchild_write_pipe_stream ?sw = solverchild_write_pipe_stream s0" "sv_junk ?sw = sv_junk s0" by simp_all
  obtain f where f: "write_child MSolve ?sw = Ret (QUAPI_OK, ?sw\<lparr>solverchild_write_pipe_stream := f\<rparr>)"
    "file_out_holds f (frames s (child_msgs ?F @ [MSolve]))"
    "file_out_arrived f (frames s (child_msgs ?F @ [MSolve]))"
    using write_child_holds [of ?sw "child_msgs ?F" MSolve] s0(2) unfolding fr sw
    by (auto simp: describes_def fr)
  let ?s1 = "?sw\<lparr>solverchild_write_pipe_stream := f\<rparr>"
  have "\<not> (written_assumptions s < universal_prefix_depth s \<and> \<not> allow)"
    using d u by (auto simp: describes_def counts_ok_def)
  then have "quapi_solve allow reply script s =
        map_option (\<lambda>res. bind_outcome res finish_solve)
          (s_run S_POLL (solve_data ?s1) script)" for script
    using s0(1,4) f(1)
    by (cases "s_run S_POLL (solve_data ?s1) script"; cases "the (s_run S_POLL (solve_data ?s1) script)")
      (auto simp: quapi_solve_def solve_internal_def finish_solve_def Let_def)
  moreover have "fs_assumptions ?F \<noteq> None" by (simp add: fs_fork_def)
  then have "solve_ordered s F p rest ?s1"
    using s0(2,3,5,6) f(2,3) j ev
    by (auto simp: solve_ordered_def describes_def fr counts_ok_def same_events_def Let_def)
  ultimately show ?thesis by (intro that) blast+
qed

lemma quapi_solve_describes:
  assumes d: "describes s F" and c: "fs_clause F = []"
    and r: "fs_assumptions F = None \<Longrightarrow> reports (sv_messages s @ reply) p rest"
    and u: "universal_depth (prefixdepth (sv_header s)) (fs_asked F) \<le> int (length (fs_units F)) \<or> allow"
    and len: "int (fs_count F + length (fs_units F)) < 2 ^ 31"
    and ret: "quapi_solve allow reply script s = Some (Ret (v, s'))"
  shows "describes s' (fs_solve (waits s) F) \<and> config s' = config s \<and> sv_state s' = QUAPI_INPUT_LITERALS"
proof -
  let ?F = "fs_fork (waits s) F"
  from quapi_solve_request [OF d c r u] obtain s1 where
    q: "\<forall>script. quapi_solve allow reply script s =
        map_option (\<lambda>res. bind_outcome res finish_solve) (s_run S_POLL (solve_data s1) script)"
    and o: "solve_ordered s F p rest s1" .
  from o have s1: "config s1 = config s" "sv_junk s1 = sv_junk s" "counts_ok s1 ?F"
      "file_out_holds (write_pipe_stream s1) (frames s (main_msgs (prefixdepth (sv_header s)) ?F))"
      "file_out_holds (solverchild_write_pipe_stream s1) (frames s (child_msgs ?F @ [MSolve]))"
    by (simp_all add: solve_ordered_def Let_def)
  from ret q obtain e where e: "s_run S_POLL (solve_data s1) script = Some (Ret e)"
    and s': "s' = (sd_solver e)\<lparr>sv_state := QUAPI_INPUT_LITERALS,
               written_clauses := s32 (written_clauses (sd_solver e) - written_assumptions (sd_solver e)),
               written_assumptions := 0\<rparr>"
    by (auto simp: Let_def bind_outcome_Ret_iff finish_solve_def)
  have same: "same_library s1 (sd_solver e)" using s_run_same [OF e] by (simp add: solve_data_def)
  have cnt: "fs_count ?F = fs_count F" "fs_units ?F = fs_units F"
    by (auto simp: fs_count_def fs_fork_def fs_units_def batch_clauses_def)
  have "s32 (written_clauses s1 - written_assumptions s1) = int (fs_count F)"
    using s1(3) len by (simp add: counts_ok_def cnt c_int)
  with same s1 d s' c show ?thesis
    by (auto simp: same_library_def describes_def fs_solve_def frames_def counts_ok_def phase_ok_def cnt
        main_msgs_def child_msgs_def fs_units_def fs_count_def fs_fork_def batch_clauses_def)
qed

end
