(* ===== verification/Quapi_System.thy ===== *)
theory Quapi_System
  imports Quapi_Library
begin

text \<open>
  Library and runtime together: the bytes the library has put on its two pipes when it
  orders a solve make the child that the runtime forked deliver exactly the text of
  the formula the client described.
\<close>

section \<open>From the pipes to the child\<close>

lemma flow_plain:
  assumes "length u = 4" and "\<forall>m \<in> set ms. msg_ok m \<and> msg_type m \<noteq> MSG_FORK" and "flow h bs fs ms'"
  shows "flow h (concat (map (frame u h) ms) @ bs) fs (ms @ ms')"
  using assms by (induction ms) (auto intro: flow_msg)

lemma flow_all: "length u = 4 \<Longrightarrow> \<forall>m \<in> set ms. msg_ok m \<and> msg_type m \<noteq> MSG_FORK \<Longrightarrow>
  flow h (concat (map (frame u h) ms)) fs ms"
  using flow_plain [of u ms h "[]" fs "[]"] flow_end [of h "[]" fs] by simp

lemma lits_ok_plain: "lits_ok ls \<Longrightarrow> x \<in> set ls \<Longrightarrow> - 2147483648 \<le> x \<and> x < 2147483648"
  by (auto simp: lits_ok_def lit_ok_def)

lemma clause_msgs_plain:
  "clauses_ok cs \<Longrightarrow> \<forall>m \<in> set (clause_msgs cs). msg_ok m \<and> msg_type m \<noteq> MSG_FORK"
  by (induction cs) (auto dest: lits_ok_plain simp: in32_def)

definition parents :: "fork_outcome list \<Rightarrow> bool" where
  "parents fs \<longleftrightarrow> (\<forall>f \<in> set fs. \<exists>pid st. f = Fork_Parent pid st)"

text \<open>The last of the forks makes the child that reads \<open>ms\<close>; before it the process is the parent.\<close>

lemma flow_batches:
  assumes u: "length u = 4" and bs: "clauses_ok (batch_clauses bs)" "length fs + 1 = length bs"
    and fs: "parents fs" and ms: "flow h input [] ms"
  shows "flow h (concat (map (frame u h) (batch_msgs bs))) (fs @ [Fork_Child input]) (batch_msgs bs @ ms)"
  using bs fs
proof (induction bs arbitrary: fs)
  case (Cons b bs)
  obtain cs w where b: "b = (cs, w)" by fastforce
  have cs: "\<forall>m \<in> set (clause_msgs cs). msg_ok m \<and> msg_type m \<noteq> MSG_FORK"
    using Cons.prems b by (intro clause_msgs_plain) simp
  have "flow h (frame u h (MFork w) @ concat (map (frame u h) (batch_msgs bs)))
      (fs @ [Fork_Child input]) (MFork w # batch_msgs bs @ ms)"
  proof (cases fs)
    case Nil
    then have "bs = []" using Cons.prems by simp
    with Nil show ?thesis using flow_child [OF u ms, where w = w and bs = "[]"] by simp
  next
    case f: (Cons f fs')
    with Cons.prems(3) obtain pid st where "f = Fork_Parent pid st" by (auto simp: parents_def)
    moreover have "flow h (concat (map (frame u h) (batch_msgs bs))) (fs' @ [Fork_Child input]) (batch_msgs bs @ ms)"
      using Cons.prems f b by (intro Cons.IH) (auto simp: parents_def)
    ultimately show ?thesis using f flow_parent [OF u] by simp
  qed
  from flow_plain [OF u cs this] show ?case using b by simp
qed simp

definition solver_input :: "formula_state \<Rightarrow> int \<Rightarrow> quapi_msg_header_data \<Rightarrow> string" where
  "solver_input F d h = formula_text h (given_prefix d (fs_asked F))
     (solver_clauses h (given_prefix d (fs_asked F))
        (batch_clauses (fs_batches F) @ fs_clauses F) (fs_units F))"

text \<open>
  A formula a solver can be given: literals in range, no empty clause, every clause
  finished, and a clause before the first fork when there are quantifiers.
\<close>

definition solvable :: "formula_state \<Rightarrow> bool" where
  "solvable F \<longleftrightarrow> fs_clause F = [] \<and> lits_ok (fs_asked F) \<and> lits_ok (fs_units F)
     \<and> clauses_ok (batch_clauses (fs_batches F) @ fs_clauses F)
     \<and> (fs_asked F \<noteq> [] \<longrightarrow> fst (hd (fs_batches (fs_fork True F))) \<noteq> [])
     \<and> (fs_assumptions F \<noteq> None \<longrightarrow> fs_batches F \<noteq> [] \<and> fs_clauses F = [])
     \<and> int (fs_count F + length (fs_units F)) < 2 ^ 31"

text \<open>The runtime that was started on the library's main pipe and has forked the child.\<close>

definition child_runtime :: "byte list \<Rightarrow> fork_outcome list \<Rightarrow> byte list \<Rightarrow> quapi_runtime outcome" where
  "child_runtime main fs child = quapi_runtime_init (global_runtime main (fs @ [Fork_Child child]))"

lemma header_ok_zero: "header_ok zero_header"
  by (simp add: header_ok_def header_fields_def zero_header_def in32_def)

lemma runtime_init_view:
  "quapi_runtime_init (global_runtime bs fs) = Ret r \<Longrightarrow> view r = start_view 0"
  by (auto simp: quapi_runtime_init_def global_runtime_def view_def start_view_def zero_header_def
      start_filler_def c_mem filler_size_def)

lemma runtime_init_delivers:
  assumes "header_ok h" "flow h bs fs ms" "stream_text h (start_view 0) ms = Some t"
  shows "\<exists>r. quapi_runtime_init (global_runtime bs fs) = Ret r \<and> delivers h r t"
proof -
  obtain r where r: "quapi_runtime_init (global_runtime bs fs) = Ret r"
    by (simp add: quapi_runtime_init_def global_runtime_def)
  then have "rt_wf r" "header_ok (rt_header_data r)" "buffer_ok r" "pending r = []"
    "\<not> rt_repeat_state r" "rt_in_stream r = bs" "rt_forks r = fs"
    by (auto simp: quapi_runtime_init_def global_runtime_def rt_wf_def header_ok_zero buffer_ok_def
        pending_def filler_size_def outbuf_size_def in32_def c_mem)
  with r assms runtime_init_view [OF r] show ?thesis
    by (auto simp: delivers_def owes_messages_def)
qed

lemma child_runtime_delivers:
  assumes u: "length u = 4" and h: "header_ok h" and s: "solvable F"
    and fs: "parents fs" "length fs + 1 = length (fs_batches (fs_fork w F))"
    and main: "main = concat (map (frame u h) (main_msgs d (fs_fork w F)))"
    and child: "child = concat (map (frame u h) (clause_msgs (units (fs_units F)) @ [MSolve]))"
  shows "\<exists>r. child_runtime main fs child = Ret r \<and> delivers h r (solver_input F d h)"
proof -
  let ?bs = "fs_batches (fs_fork w F)" and ?qs = "given_prefix d (fs_asked F)" and ?as = "fs_units F"
  have F: "fs_clauses (fs_fork w F) = []" "fs_clause (fs_fork w F) = []" "fs_asked (fs_fork w F) = fs_asked F"
    "batch_clauses ?bs = batch_clauses (fs_batches F) @ fs_clauses F"
    using s by (auto simp: solvable_def fs_fork_def batch_clauses_def)
  have bs: "clauses_ok (batch_clauses ?bs)" and as: "lits_ok ?as" and qs: "lits_ok ?qs"
    using s F by (simp_all add: solvable_def lits_ok_given_prefix)
  have "flow h child [] (clause_msgs (units ?as) @ [MSolve])"
    unfolding child using u clause_msgs_plain [of "units ?as"] as by (intro flow_all) auto
  from flow_batches [OF u bs fs(2,1) this]
  have b: "flow h (concat (map (frame u h) (batch_msgs ?bs))) (fs @ [Fork_Child child])
      (batch_msgs ?bs @ clause_msgs (units ?as) @ [MSolve])" .
  have "\<forall>m \<in> set (MHeader QUAPI_API_VERSION # map MQuantifier ?qs). msg_ok m \<and> msg_type m \<noteq> MSG_FORK"
    using lits_ok_plain [OF qs] by (auto simp: QUAPI_API_VERSION_def in32_def)
  from flow_plain [OF u this b]
  have fl: "flow h main (fs @ [Fork_Child child]) (solver_msgs QUAPI_API_VERSION ?qs ?bs ?as)"
    by (simp add: main main_msgs_def F solver_msgs_def)
  have "?bs \<noteq> []" using fs(2) by auto
  moreover have "fs_asked F \<noteq> [] \<Longrightarrow> fst (hd ?bs) \<noteq> []"
    using s by (cases "fs_batches F") (auto simp: solvable_def fs_fork_def split: if_splits)
  moreover have "?qs \<noteq> [] \<longleftrightarrow> fs_asked F \<noteq> []" by (metis length_given_prefix length_0_conv)
  ultimately have "batches_ok ?qs ?bs" using bs by (auto simp: batches_ok_def)
  moreover have "int (length (batch_clauses ?bs) + length ?as) < 2 ^ 31"
    using s F by (simp add: solvable_def fs_count_def)
  ultimately have "stream_text h (start_view 0) (solver_msgs QUAPI_API_VERSION ?qs ?bs ?as)
      = Some (solver_input F d h)"
    using stream_text_formula [OF qs _ as] F by (simp add: solver_input_def)
  from runtime_init_delivers [OF h fl this] show ?thesis by (simp add: child_runtime_def)
qed

text \<open>The part of the child's pipe that was written since the last child got its order.\<close>

definition since :: "'u quapi_solver \<Rightarrow> formula_state \<Rightarrow> byte list \<Rightarrow> byte list" where
  "since s F bs = drop (length (concat (frames s (fs_earlier F)))) bs"

lemma quapi_solve_delivers:
  assumes d: "describes s F" and ok: "solvable F"
    and r: "fs_assumptions F = None \<Longrightarrow> reports (sv_messages s @ reply) p rest"
    and u: "universal_depth (prefixdepth (sv_header s)) (fs_asked F) \<le> int (length (fs_units F)) \<or> allow"
    and fs: "parents fs" "length fs + 1 = length (fs_batches (fs_fork (waits s) F))"
  shows "\<exists>s1 rt. (\<forall>script. quapi_solve allow reply script s =
        map_option (\<lambda>res. bind_outcome res finish_solve)
          (s_run S_POLL (solve_data s1) script))
    \<and> child_runtime (fo_pipe (write_pipe_stream s1)) fs
        (since s F (fo_pipe (solverchild_write_pipe_stream s1))) = Ret rt
    \<and> delivers (sv_header s) rt (solver_input F (prefixdepth (sv_header s)) (sv_header s))"
proof -
  let ?F = "fs_fork (waits s) F" and ?h = "sv_header s"
  have c: "fs_clause F = []" using ok by (simp add: solvable_def)
  from quapi_solve_request [OF d c r u] obtain s1 where
    q: "\<forall>script. quapi_solve allow reply script s =
        map_option (\<lambda>res. bind_outcome res finish_solve) (s_run S_POLL (solve_data s1) script)"
    and o: "solve_ordered s F p rest s1" .
  from o have m: "file_out_arrived (write_pipe_stream s1) (frames s (main_msgs (prefixdepth ?h) ?F))"
    and ch: "file_out_arrived (solverchild_write_pipe_stream s1) (frames s (child_msgs ?F @ [MSolve]))"
    by (simp_all add: solve_ordered_def Let_def)
  have junk: "length (sv_junk s) = 4" and h: "header_ok ?h" using d by (simp_all add: describes_def)
  have cm: "child_msgs ?F = fs_earlier F @ clause_msgs (units (fs_units F))"
    by (auto simp: child_msgs_def fs_fork_def fs_units_def)
  have "since s F (fo_pipe (solverchild_write_pipe_stream s1))
      = concat (map (frame (sv_junk s) ?h) (clause_msgs (units (fs_units F)) @ [MSolve]))"
    using ch by (simp add: since_def file_out_arrived_def frames_def cm)
  moreover have "fo_pipe (write_pipe_stream s1)
      = concat (map (frame (sv_junk s) ?h) (main_msgs (prefixdepth ?h) ?F))"
    using m by (simp add: file_out_arrived_def frames_def)
  ultimately show ?thesis
    using q child_runtime_delivers [OF junk h ok fs] by blast
qed

end
