(* ===== verification/Quapi_Init.thy ===== *)
theory Quapi_Init
  imports Quapi_System
begin

text \<open>
  Starting and ending a solver: \<open>quapi_init\<close> and \<open>quapi_release\<close> of \<open>lib/src/quapi.c\<close>
  with the array copies, the search for the preload library, the setup of the patterns and the
  parent's side of \<open>fork_and_exec\<close>; the descriptors of both sides are in
  \<open>Quapi_Descriptors\<close>. What the operating system and PCRE2 answer is the record
  \<open>init_env\<close>. An array of C strings is the list of its slots, \<open>None\<close> the null
  pointer; reading past its last slot is undefined.
\<close>

section \<open>Arrays of strings\<close>

fun get_null_terminated_array_size :: "string option list \<Rightarrow> nat outcome" where
  "get_null_terminated_array_size [] = Undefined_Behaviour"
| "get_null_terminated_array_size (None # arr) = Ret 1"
| "get_null_terminated_array_size (Some x # arr) =
     bind_outcome (get_null_terminated_array_size arr) (\<lambda>n. Ret (Suc n))"

definition copy_str_array :: "string option list \<Rightarrow> nat \<Rightarrow> nat \<Rightarrow> string option list outcome" where
  "copy_str_array arr prefix_len postfix_len =
     bind_outcome (get_null_terminated_array_size arr)
       (\<lambda>len. Ret (replicate prefix_len None @ take (len - 1) arr @ replicate postfix_len None @ [None]))"

text \<open>\<open>free_str_array\<close>, with the pointers it frees before the array itself; the null pointer is no array.\<close>

definition free_str_array :: "string option list option \<Rightarrow> string option list outcome" where
  "free_str_array array =
     (case array of
        None \<Rightarrow> Ret []
      | Some arr \<Rightarrow> bind_outcome (get_null_terminated_array_size arr) (\<lambda>len. Ret (take (len - 1) arr)))"

text \<open>A terminated array of the strings \<open>xs\<close>.\<close>

definition c_array :: "string list \<Rightarrow> string option list" where
  "c_array xs = map Some xs @ [None]"

lemma array_size_c_array: "get_null_terminated_array_size (c_array xs @ ys) = Ret (Suc (length xs))"
  by (induction xs) (simp_all add: c_array_def)

lemma copy_str_array_c_array:
  "copy_str_array (c_array xs) p q = Ret (replicate p None @ map Some xs @ replicate q None @ [None])"
  using array_size_c_array [of xs "[]"] by (simp add: copy_str_array_def) (simp add: c_array_def)

text \<open>A copy whose first slot is filled, as both arrays of the executed program are, is freed as a whole.\<close>

lemma free_copied_array:
  assumes "copy_str_array (c_array xs) 1 0 = Ret arr"
  shows "free_str_array (Some (arr[0 := Some x])) = Ret (map Some (x # xs))"
proof -
  have "arr = None # map Some xs @ [None]"
    using assms by (simp add: copy_str_array_c_array)
  then have "arr[0 := Some x] = c_array (x # xs)" by (simp add: c_array_def)
  then show ?thesis
    using array_size_c_array [of "x # xs" "[]"] by (simp add: free_str_array_def) (simp add: c_array_def)
qed

section \<open>The preload library\<close>

definition preload_so_paths :: "string list" where
  "preload_so_paths =
     [''./libquapi_preload.so'', ''../libquapi_preload.so'', ''../quapi/build/libquapi_preload.so'',
      ''./quapi/libquapi_preload.so'', ''./third_party/quapi/libquapi_preload.so'',
      ''./_deps/quapi-build/libquapi_preload.so'', ''~/quapi/build/libquapi_preload.so'',
      ''/usr/local/lib/libquapi_preload.so'', ''/usr/lib/libquapi_preload.so'']"

text \<open>\<open>dirname\<close> of the C library.\<close>

definition strip_slashes :: "string \<Rightarrow> string" where
  "strip_slashes p = rev (dropWhile (\<lambda>c. c = CHR ''/'') (rev p))"

definition dirname :: "string \<Rightarrow> string" where
  "dirname p =
     (let q = strip_slashes p; d = rev (dropWhile (\<lambda>c. c \<noteq> CHR ''/'') (rev q)) in
      if p = [] then ''.''
      else if q = [] then ''/''
      else if d = [] then ''.''
      else if strip_slashes d = [] then ''/''
      else strip_slashes d)"

record init_env =
  env_preload_path :: "string option"         \<comment> \<open>\<open>getenv ("QUAPI_PRELOAD_PATH")\<close>\<close>
  env_file_exists :: "string \<Rightarrow> bool"
  env_self_exe :: "string option"             \<comment> \<open>\<open>readlink ("/proc/self/exe")\<close>, not yet cut\<close>
  env_environ :: "string option list"
  env_pcre2_compile :: "string \<Rightarrow> (string \<Rightarrow> bool) option"
  env_eventfd_ok :: bool
  env_fcntl_ok :: bool
  env_fork :: int
  env_pipes :: "int list"                     \<comment> \<open>the descriptors of the three pipes of the header\<close>
  env_stdio_size :: nat
  env_reply :: "byte list"                    \<comment> \<open>what the child sends before the library goes on\<close>
  env_memory :: "byte list"
  env_memory_pid :: int

definition self_exe_size :: nat where "self_exe_size = 1024"

definition self_preload_path :: "string \<Rightarrow> string" where
  "self_preload_path exe = dirname (take (self_exe_size - 20) exe) @ ''/libquapi_preload.so''"

definition found :: "init_env \<Rightarrow> string option \<Rightarrow> bool" where
  "found e p = (case p of None \<Rightarrow> False | Some x \<Rightarrow> env_file_exists e x)"

text \<open>
  \<open>get_preload_so_path\<close>; \<open>p\<close> is its static variable, which the search beside the
  executable does not set.
\<close>

definition get_preload_so_path :: "init_env \<Rightarrow> string option \<Rightarrow> string option \<times> string option" where
  "get_preload_so_path e p =
     (if p \<noteq> None then (p, p)
      else if found e (env_preload_path e) then (env_preload_path e, env_preload_path e)
      else
        (let self = (case env_self_exe e of
                       None \<Rightarrow> None
                     | Some exe \<Rightarrow> if exe = [] then None else Some (self_preload_path exe))
         in if found e self then (self, None)
            else (let q = find (env_file_exists e) preload_so_paths in (q, q))))"

lemma find_holds: "find P xs = Some x \<Longrightarrow> P x"
  by (auto simp: find_Some_iff)

lemma get_preload_so_path_exists:
  "get_preload_so_path e None = (Some x, p) \<Longrightarrow> env_file_exists e x \<and> (p = None \<or> p = Some x)"
  by (auto simp: get_preload_so_path_def found_def Let_def dest: find_holds split: if_splits option.splits)

text \<open>
  The path beside the executable fits the static array \<open>ldpreload_path_from_dirname\<close>
  with its terminator.
\<close>

lemma length_strip_slashes: "length (strip_slashes p) \<le> length p"
  using length_dropWhile_le [of _ "rev p"] by (simp add: strip_slashes_def)

lemma strip_slashes_last: "strip_slashes p \<noteq> [] \<Longrightarrow> last (strip_slashes p) \<noteq> CHR ''/''"
proof -
  assume "strip_slashes p \<noteq> []"
  then have "dropWhile (\<lambda>c. c = CHR ''/'') (rev p) \<noteq> []" by (simp add: strip_slashes_def)
  from hd_dropWhile [OF this] show ?thesis by (simp add: strip_slashes_def last_rev)
qed

lemma length_dirname: "length (dirname p) \<le> max 1 (length p - 1)"
proof -
  let ?q = "strip_slashes p" and ?d = "rev (dropWhile (\<lambda>c. c \<noteq> CHR ''/'') (rev (strip_slashes p)))"
  have "length ?d \<le> length ?q - 1"
  proof (cases "?q = []")
    case False
    then obtain c cs where c: "rev ?q = c # cs" by (cases "rev ?q") auto
    then have "c = last ?q" by (metis False last_rev list.sel(1) rev_rev_ident hd_rev)
    with strip_slashes_last [OF False] have "c \<noteq> CHR ''/''" by simp
    with c have "length ?d \<le> length cs" by (simp add: length_dropWhile_le)
    moreover have "length ?q = Suc (length cs)" using c by (metis length_rev length_Cons)
    ultimately show ?thesis by simp
  qed simp
  then have "length (strip_slashes ?d) \<le> length p - 1"
    using length_strip_slashes [of ?d] length_strip_slashes [of p] by linarith
  then show ?thesis by (auto simp: dirname_def Let_def)
qed

text \<open>
  The path beside the executable is always shorter than its static array, however long the
  path of the executable is.
\<close>

theorem length_self_preload_path: "length (self_preload_path exe) < self_exe_size"
proof -
  have "length (dirname (take (self_exe_size - 20) exe)) \<le> 1003"
    using length_dirname [of "take (self_exe_size - 20) exe"] by (simp add: self_exe_size_def)
  then show ?thesis by (simp add: self_preload_path_def self_exe_size_def)
qed

section \<open>Patterns and processes\<close>

text \<open>\<open>setup_regex\<close>: both patterns compiled, or a failure.\<close>

definition compile_regex :: "init_env \<Rightarrow> string \<Rightarrow> (string \<Rightarrow> bool) option" where
  "compile_regex e regex = env_pcre2_compile e regex"

definition setup_regex :: "init_env \<Rightarrow> string \<Rightarrow> string \<Rightarrow> 'u quapi_solver \<Rightarrow> (bool, 'u) op_result" where
  "setup_regex e sat unsat s =
     (if re_SAT s \<noteq> None \<or> re_UNSAT s \<noteq> None then Assert_Failed
      else
        (case compile_regex e sat of
           None \<Rightarrow> Ret (False, s)
         | Some f \<Rightarrow>
             (case compile_regex e unsat of
                None \<Rightarrow> Ret (False, s\<lparr>re_SAT := Some f\<rparr>)
              | Some g \<Rightarrow> Ret (True, s\<lparr>re_SAT := Some f, re_UNSAT := Some g\<rparr>))))"

definition fdopen_write :: "init_env \<Rightarrow> file_out" where
  "fdopen_write e = \<lparr>fo_buffer = [], fo_pipe = [], fo_capacity = env_stdio_size e, fo_broken = False\<rparr>"

text \<open>
  The parent's side of \<open>fork_and_exec\<close>: the descriptors of the pipes go into the header
  data, and after the fork the library opens its two streams. \<open>env_fork\<close> is the result of \<open>fork\<close> in
  the parent, -1 or positive; the branch for 0 runs in the child and is \<open>fork_and_exec_child\<close>.
\<close>

definition fork_and_exec :: "init_env \<Rightarrow> 'u quapi_solver \<Rightarrow> bool \<times> 'u quapi_solver" where
  "fork_and_exec e s =
     (let fd = (\<lambda>k. env_pipes e ! k);
          h = (sv_header s)\<lparr>forked_child_read_pipe_r := fd 0, forked_child_read_pipe_w := fd 1,
                forked_child_write_pipe_r := fd 2, forked_child_write_pipe_w := fd 3,
                message_to_parent_pipe_r := fd 4, message_to_parent_pipe_w := fd 5\<rparr>;
          s1 = s\<lparr>config := (config s)\<lparr>header := h\<rparr>\<rparr>
      in if \<not> env_fcntl_ok e then (False, s1)
         else
           (let s2 = s1\<lparr>sv_pid := env_fork e\<rparr> in
            if env_fork e > 0
            then (True, s2\<lparr>write_pipe_stream := fdopen_write e, solverchild_write_pipe_stream := fdopen_write e\<rparr>)
            else (False, s2)))"

section \<open>Starting\<close>

definition executable_args :: "string \<Rightarrow> string option list option \<Rightarrow> string option list outcome" where
  "executable_args path argv =
     (case argv of
        None \<Rightarrow> Ret [Some path, None]
      | Some arr \<Rightarrow>
          (case arr of
             [] \<Rightarrow> Undefined_Behaviour
           | None # _ \<Rightarrow> Ret [Some path, None]
           | Some a # _ \<Rightarrow>
               (if a = path then copy_str_array arr 0 0
                else bind_outcome (copy_str_array arr 1 0) (\<lambda>xs. Ret (xs[0 := Some path])))))"

definition ldpreload :: "string \<Rightarrow> string" where
  "ldpreload preload_path =
     (let ldpreload_size = length preload_path + 13 in
      take (ldpreload_size - 1) (''LD_PRELOAD='' @ preload_path))"

definition executable_env :: "init_env \<Rightarrow> string \<Rightarrow> string option list option \<Rightarrow> string option list outcome" where
  "executable_env e preload_path envp =
     bind_outcome (copy_str_array (case envp of Some arr \<Rightarrow> arr | None \<Rightarrow> env_environ e) 1 0)
       (\<lambda>xs. Ret (xs[0 := Some (ldpreload preload_path)]))"

definition initial_solver ::
    "init_env \<Rightarrow> string \<Rightarrow> int \<Rightarrow> int \<Rightarrow> int \<Rightarrow> string option \<Rightarrow> string option \<Rightarrow> 'u \<Rightarrow> 'u quapi_solver" where
  "initial_solver e path litcount clausecount maxassumptions sat unsat userdata =
     \<lparr>config = \<lparr>executable_path = path, executable_argv = [], executable_envp = [],
        header = zero_header\<lparr>literals := litcount,
          clauses := if maxassumptions > 0 then s32 (clausecount + maxassumptions) else clausecount,
          prefixdepth := maxassumptions\<rparr>,
        SAT_regex = sat, UNSAT_regex = unsat\<rparr>,
      sv_state = QUAPI_INPUT, sv_pid = env_memory_pid e, universal_prefix_depth = -1,
      write_pipe_stream = fdopen_write e, solverchild_write_pipe_stream = fdopen_write e,
      written_clauses = 0, written_assumptions = 0, written_quantifier_literals = 0,
      solverchild_pid = env_memory_pid e, stdout_cb = None, stdout_cb_userdata = userdata,
      poll_solverchild = False, re_SAT = None, re_UNSAT = None,
      sv_messages = [], sv_output = [], sv_eventfd = 0, sv_killed = [], sv_junk = env_memory e\<rparr>"

text \<open>
  The second half of \<open>quapi_init\<close>, from the eventfd to the start message of the child;
  \<open>None\<close> is its \<open>ERROR\<close> exit. The result of writing the header message is not looked
  at, as in the code.
\<close>

definition start_solver :: "init_env \<Rightarrow> 'u quapi_solver \<Rightarrow> 'u quapi_solver option outcome" where
  "start_solver e s =
     (if \<not> env_eventfd_ok e then Ret None
      else
        (let (forked, s1) = fork_and_exec e s; s2 = s1\<lparr>poll_solverchild := (re_SAT s1 \<noteq> None)\<rparr> in
         if \<not> forked then Ret None
         else
           bind_outcome (write_main (MHeader QUAPI_API_VERSION) (Some (sv_header s2)) s2)
             (\<lambda>(st, s3).
                bind_outcome (quapi_read_msg_from_fd (env_reply e))
                  (\<lambda>(start_msg, rest).
                     case start_msg of
                       Some (Some (MStarted v)) \<Rightarrow> Ret (Some (s3\<lparr>sv_messages := rest\<rparr>))
                     | _ \<Rightarrow> Ret None))))"

text \<open>\<open>quapi_init\<close>; \<open>None\<close> is the null pointer.\<close>

definition quapi_init ::
    "init_env \<Rightarrow> string option \<Rightarrow> string option list option \<Rightarrow> string option list option \<Rightarrow>
     int \<Rightarrow> int \<Rightarrow> int \<Rightarrow> string option \<Rightarrow> string option \<Rightarrow> 'u \<Rightarrow> 'u quapi_solver option outcome" where
  "quapi_init e path_or_null argv envp litcount clausecount maxassumptions sat unsat userdata =
     (case path_or_null of
        None \<Rightarrow> Ret None
      | Some path \<Rightarrow>
          if maxassumptions < 0 then Ret None
          else
            (case fst (get_preload_so_path e None) of
               None \<Rightarrow> Ret None
             | Some preload_path \<Rightarrow>
                 if (unsat = None) \<noteq> (sat = None) then Ret None
                 else
                   (let s0 = initial_solver e path litcount clausecount maxassumptions sat unsat userdata in
                    bind_outcome
                      (case sat of None \<Rightarrow> Ret (True, s0) | Some r \<Rightarrow> setup_regex e r (the unsat) s0)
                      (\<lambda>(ok, s1).
                         if \<not> ok then Ret None
                         else
                           bind_outcome (executable_args path argv)
                             (\<lambda>args. bind_outcome (executable_env e preload_path envp)
                                (\<lambda>env. start_solver e
                                   (s1\<lparr>config := (config s1)\<lparr>executable_argv := args,
                                        executable_envp := env\<rparr>\<rparr>)))))))"

text \<open>\<open>quapi_release\<close>: closing a stream passes on what it still holds.\<close>

definition quapi_release :: "'u quapi_solver \<Rightarrow> 'u quapi_solver" where
  "quapi_release s =
     s\<lparr>write_pipe_stream := file_flush (write_pipe_stream s),
       solverchild_write_pipe_stream := file_flush (solverchild_write_pipe_stream s),
       config := (config s)\<lparr>executable_argv := [], executable_envp := [],
         SAT_regex := None, UNSAT_regex := None\<rparr>,
       re_SAT := None, re_UNSAT := None\<rparr>"

section \<open>What starting gives\<close>

lemma executable_args_c_array:
  "executable_args path (Some (c_array args)) =
     Ret (c_array (if args \<noteq> [] \<and> hd args = path then args else path # args))"
proof (cases args)
  case Nil
  then show ?thesis by (simp add: executable_args_def c_array_def)
next
  case (Cons a xs)
  then have eq: "c_array args = Some a # c_array xs" by (simp add: c_array_def)
  note cp = copy_str_array_c_array [of args, unfolded eq]
  have "executable_args path (Some (c_array args)) =
      Ret (if a = path then map Some args @ [None] else Some path # map Some args @ [None])"
    unfolding eq using cp by (cases "a = path") (simp_all add: executable_args_def)
  then show ?thesis using Cons by (simp add: c_array_def)
qed

lemma executable_env_c_array:
  "executable_env e p (Some (c_array env)) = Ret (c_array ((''LD_PRELOAD='' @ p) # env))"
  "env_environ e = c_array env \<Longrightarrow> executable_env e p None = Ret (c_array ((''LD_PRELOAD='' @ p) # env))"
  by (simp_all add: executable_env_def copy_str_array_c_array ldpreload_def Let_def)
    (simp_all add: c_array_def)

text \<open>A request that passes every check of \<open>quapi_init\<close>.\<close>

definition starts :: "init_env \<Rightarrow> int \<Rightarrow> string option \<Rightarrow> string option \<Rightarrow> bool" where
  "starts e maxassumptions sat unsat \<longleftrightarrow> 0 \<le> maxassumptions \<and> fst (get_preload_so_path e None) \<noteq> None
     \<and> (sat = None) = (unsat = None)
     \<and> (\<forall>r \<in> set_option sat \<union> set_option unsat. env_pcre2_compile e r \<noteq> None)
     \<and> env_eventfd_ok e \<and> env_fcntl_ok e \<and> 0 < env_fork e
     \<and> length (env_memory e) = 4 \<and> length (env_pipes e) = 6 \<and> (\<forall>fd \<in> set (env_pipes e). in32 fd)"

definition started_header :: "init_env \<Rightarrow> int \<Rightarrow> int \<Rightarrow> int \<Rightarrow> quapi_msg_header_data" where
  "started_header e litcount clausecount maxassumptions =
     \<lparr>literals = litcount,
      clauses = if maxassumptions > 0 then s32 (clausecount + maxassumptions) else clausecount,
      prefixdepth = maxassumptions,
      forked_child_read_pipe_r = env_pipes e ! 0, forked_child_read_pipe_w = env_pipes e ! 1,
      forked_child_write_pipe_r = env_pipes e ! 2, forked_child_write_pipe_w = env_pipes e ! 3,
      message_to_parent_pipe_r = env_pipes e ! 4, message_to_parent_pipe_w = env_pipes e ! 5\<rparr>"

lemma setup_regex_ok:
  assumes "env_pcre2_compile e r \<noteq> None" "env_pcre2_compile e r' \<noteq> None" "re_SAT s = None" "re_UNSAT s = None"
  shows "setup_regex e r r' s =
    Ret (True, s\<lparr>re_SAT := env_pcre2_compile e r, re_UNSAT := env_pcre2_compile e r'\<rparr>)"
  using assms by (auto simp: setup_regex_def compile_regex_def)

lemma setup_patterns:
  assumes st: "starts e m sat unsat" and re: "re_SAT s = None" "re_UNSAT s = None"
  shows "(case sat of None \<Rightarrow> Ret (True, s) | Some r \<Rightarrow> setup_regex e r (the unsat) s) =
    Ret (True, s\<lparr>re_SAT := Option.bind sat (env_pcre2_compile e),
                 re_UNSAT := Option.bind unsat (env_pcre2_compile e)\<rparr>)"
proof (cases sat)
  case None
  moreover have "s\<lparr>re_SAT := re_SAT s, re_UNSAT := re_UNSAT s\<rparr> = s" by simp
  then have "s\<lparr>re_SAT := None, re_UNSAT := None\<rparr> = s" by (simp only: re)
  ultimately show ?thesis using st by (simp add: starts_def)
next
  case (Some r)
  with st obtain r' where "unsat = Some r'" by (auto simp: starts_def)
  with Some st setup_regex_ok [OF _ _ re, of e r r'] show ?thesis by (simp add: starts_def)
qed

lemma start_solver_describes:
  assumes e: "env_eventfd_ok e" "env_fcntl_ok e" "0 < env_fork e" "length (sv_junk s) = 4"
    and h: "header_ok (sv_header (snd (fork_and_exec e s)))"
    and fresh: "sv_state s = QUAPI_INPUT" "universal_prefix_depth s = -1" "written_clauses s = 0"
      "written_assumptions s = 0" "written_quantifier_literals s = 0"
    and r: "quapi_read_msg_from_fd (env_reply e) = Ret (Some (Some (MStarted v)), rest)"
  shows "\<exists>s'. start_solver e s = Ret (Some s') \<and> describes s' start_formula
    \<and> sv_header s' = sv_header (snd (fork_and_exec e s)) \<and> sv_messages s' = rest
    \<and> executable_argv (config s') = executable_argv (config s)
    \<and> executable_envp (config s') = executable_envp (config s)
    \<and> SAT_regex (config s') = SAT_regex (config s) \<and> re_SAT s' = re_SAT s \<and> re_UNSAT s' = re_UNSAT s
    \<and> poll_solverchild s' = (re_SAT s \<noteq> None) \<and> sv_state s' = QUAPI_INPUT
    \<and> file_out_arrived (write_pipe_stream s') (frames s' [MHeader QUAPI_API_VERSION])"
proof -
  obtain s1 where f: "fork_and_exec e s = (True, s1)"
    and s1: "s1 = s\<lparr>config := (config s)\<lparr>header := sv_header s1\<rparr>, sv_pid := env_fork e,
      write_pipe_stream := fdopen_write e, solverchild_write_pipe_stream := fdopen_write e\<rparr>"
    using e by (auto simp: fork_and_exec_def Let_def)
  let ?s2 = "s1\<lparr>poll_solverchild := (re_SAT s1 \<noteq> None)\<rparr>"
  have w0: "write_pipe_stream s1 = fdopen_write e" "solverchild_write_pipe_stream s1 = fdopen_write e"
    and j: "sv_junk s1 = sv_junk s"
    by (subst s1, simp)+
  have empty: "file_out_holds (fdopen_write e) []" by (simp add: file_out_holds_def fdopen_write_def)
  let ?m = "MHeader QUAPI_API_VERSION"
  from file_sink.write_msg [OF empty e(4), of ?m "Some (sv_header s1)" "sv_header s1"]
  obtain g where g: "quapi_write_msg_to_file file_write file_flush True (fdopen_write e) (sv_junk s) ?m (Some (sv_header s1))
      = Ret (QUAPI_OK, g)"
    "file_out_holds g [frame (sv_junk s) (sv_header s1) ?m]"
    "file_out_arrived g [frame (sv_junk s) (sv_header s1) ?m]" by auto
  let ?s3 = "?s2\<lparr>write_pipe_stream := g\<rparr>"
  have "start_solver e s = Ret (Some (?s3\<lparr>sv_messages := rest\<rparr>))"
    using f g(1) e(1) r w0(1) j by (simp add: start_solver_def write_main_def)
  moreover have "describes (?s3\<lparr>sv_messages := rest\<rparr>) start_formula"
  proof -
    have "sv_state s1 = QUAPI_INPUT" "universal_prefix_depth s1 = -1" "written_clauses s1 = 0"
      "written_assumptions s1 = 0" "written_quantifier_literals s1 = 0"
      using fresh by (subst s1, simp)+
    moreover have "header_ok (sv_header s1)" using h f by simp
    ultimately show ?thesis
      using e(4) j g(2) w0(2) empty
      by (simp add: describes_defs start_formula_def frames_def)
  qed
  moreover have "sv_state s1 = QUAPI_INPUT" "executable_argv (config s1) = executable_argv (config s)"
    "executable_envp (config s1) = executable_envp (config s)" "SAT_regex (config s1) = SAT_regex (config s)"
    "re_SAT s1 = re_SAT s" "re_UNSAT s1 = re_UNSAT s"
    by (subst s1, simp add: fresh)+
  ultimately show ?thesis using f j g(3) by (auto simp: frames_def)
qed

lemma write_header_returns: "\<exists>st s'. write_main (MHeader v) (Some h) s = Ret (st, s')"
  by (cases "file_write (write_pipe_stream s) (msg_arr (sv_junk s) (MHeader v) @ header_trail h)")
    (auto simp: write_main_def quapi_write_msg_to_file_def serialize_header_def)

text \<open>The second half fails when one of its steps does.\<close>

lemma start_solver_none:
  assumes r: "quapi_read_msg_from_fd (env_reply e) = Ret (msg, rest)"
    and f: "\<not> env_eventfd_ok e \<or> \<not> env_fcntl_ok e \<or> env_fork e \<le> 0 \<or> (\<forall>v. msg \<noteq> Some (Some (MStarted v)))"
  shows "start_solver e s = Ret None"
proof (cases "\<not> env_eventfd_ok e \<or> \<not> fst (fork_and_exec e s)")
  case True
  then show ?thesis by (auto simp: start_solver_def Let_def split: prod.splits)
next
  case False
  then have ok: "env_fcntl_ok e" "0 < env_fork e" by (auto simp: fork_and_exec_def Let_def split: if_splits)
  obtain s1 where fe: "fork_and_exec e s = (True, s1)" using False by (cases "fork_and_exec e s") auto
  let ?s2 = "s1\<lparr>poll_solverchild := (re_SAT s1 \<noteq> None)\<rparr>"
  obtain st s3 where "write_main (MHeader QUAPI_API_VERSION) (Some (sv_header ?s2)) ?s2 = Ret (st, s3)"
    using write_header_returns by blast
  moreover have "\<forall>v. msg \<noteq> Some (Some (MStarted v))" using f False ok by auto
  ultimately show ?thesis
    using False fe r by (auto simp: start_solver_def split: option.splits quapi_msg.splits)
qed

lemma quapi_init_describes:
  assumes st: "starts e maxassumptions sat unsat"
    and n: "in32 litcount" "in32 clausecount" "in32 maxassumptions"
    and env: "env_environ e = c_array environ"
    and r: "quapi_read_msg_from_fd (env_reply e) = Ret (Some (Some (MStarted v)), rest)"
  shows "\<exists>s. quapi_init e (Some path) (Some (c_array args)) None litcount clausecount maxassumptions sat unsat u
      = Ret (Some s)
    \<and> describes s start_formula \<and> sv_header s = started_header e litcount clausecount maxassumptions
    \<and> executable_argv (config s) = c_array (if args \<noteq> [] \<and> hd args = path then args else path # args)
    \<and> executable_envp (config s) =
        c_array ((''LD_PRELOAD='' @ the (fst (get_preload_so_path e None))) # environ)
    \<and> file_out_arrived (write_pipe_stream s) (frames s [MHeader QUAPI_API_VERSION])
    \<and> waits s = (sat = None) \<and> poll_solverchild s = (sat \<noteq> None)
    \<and> re_SAT s = Option.bind sat (env_pcre2_compile e) \<and> re_UNSAT s = Option.bind unsat (env_pcre2_compile e)
    \<and> sv_messages s = rest \<and> sv_state s = QUAPI_INPUT"
proof -
  let ?s0 = "initial_solver e path litcount clausecount maxassumptions sat unsat u"
  obtain pre where pre: "fst (get_preload_so_path e None) = Some pre" using st by (auto simp: starts_def)
  let ?args = "c_array (if args \<noteq> [] \<and> hd args = path then args else path # args)"
  let ?env = "c_array ((''LD_PRELOAD='' @ pre) # environ)"
  let ?s1 = "?s0\<lparr>re_SAT := Option.bind sat (env_pcre2_compile e), re_UNSAT := Option.bind unsat (env_pcre2_compile e)\<rparr>"
  let ?s2 = "?s1\<lparr>config := (config ?s1)\<lparr>executable_argv := ?args, executable_envp := ?env\<rparr>\<rparr>"
  have "re_SAT ?s0 = None" "re_UNSAT ?s0 = None" by (simp_all add: initial_solver_def)
  from setup_patterns [OF st this]
  have reg: "(case sat of None \<Rightarrow> Ret (True, ?s0) | Some r \<Rightarrow> setup_regex e r (the unsat) ?s0) = Ret (True, ?s1)" .
  obtain s2 where s2: "s2 = ?s2" by simp
  have q: "quapi_init e (Some path) (Some (c_array args)) None litcount clausecount maxassumptions sat unsat u
      = start_solver e s2"
    using st pre reg s2
    by (simp add: quapi_init_def starts_def executable_args_c_array executable_env_c_array env Let_def)
  have f: "length (sv_junk s2) = 4" "sv_state s2 = QUAPI_INPUT" "universal_prefix_depth s2 = -1"
    "written_clauses s2 = 0" "written_assumptions s2 = 0" "written_quantifier_literals s2 = 0"
    "executable_argv (config s2) = ?args" "executable_envp (config s2) = ?env" "SAT_regex (config s2) = sat"
    "re_SAT s2 = Option.bind sat (env_pcre2_compile e)" "re_UNSAT s2 = Option.bind unsat (env_pcre2_compile e)"
    "sv_header s2 = zero_header\<lparr>literals := litcount,
          clauses := if maxassumptions > 0 then s32 (clausecount + maxassumptions) else clausecount,
          prefixdepth := maxassumptions\<rparr>"
    using st by (simp_all add: s2 initial_solver_def starts_def)
  have h: "sv_header (snd (fork_and_exec e s2)) = started_header e litcount clausecount maxassumptions"
    using st f(12) by (simp add: fork_and_exec_def starts_def Let_def started_header_def zero_header_def)
  have ok: "header_ok (sv_header (snd (fork_and_exec e s2)))"
    using st n unfolding h by (auto simp: header_ok_def header_fields_def started_header_def starts_def)
  have en: "env_eventfd_ok e" "env_fcntl_ok e" "0 < env_fork e" using st by (simp_all add: starts_def)
  have p: "Option.bind sat (env_pcre2_compile e) \<noteq> None \<longleftrightarrow> sat \<noteq> None"
    using st by (cases sat) (auto simp: starts_def)
  from start_solver_describes [OF en f(1) ok f(2-6) r] show ?thesis
    unfolding q h f(7-11) p pre waits_def by (auto simp: f(9))
qed

end
