(* ===== verification/Quapi_Client.thy ===== *)
theory Quapi_Client
  imports Quapi_Init
begin

text \<open>
  A client of the library: the calls of \<open>quapi.h\<close> as a datatype, what a client has to
  respect when it makes one (\<open>may_call\<close>), and the executions a client can have
  (\<open>session\<close>). Every legal call keeps the relation \<open>describes\<close>, so a session ends in a solver
  that describes the formula the calls built.
\<close>

section \<open>Calls\<close>

text \<open>
  A call that waits carries what arrives meanwhile: the reply to a request to fork, and the
  results \<open>poll\<close> will have.
\<close>

datatype 'u client_call =
    Quantify int
  | Add int
  | Assume "byte list" int
  | Reset_Assumptions
  | Solve bool "byte list" "poll_result list"
  | Terminate
  | Set_Stdout_Cb "(string \<Rightarrow> 'u \<Rightarrow> int \<times> 'u) option" 'u

text \<open>\<open>None\<close>: the call does not return.\<close>

fun call :: "'u client_call \<Rightarrow> 'u quapi_solver \<Rightarrow> 'u quapi_solver outcome option" where
  "call (Quantify q) s = Some (bind_outcome (quapi_quantify q s) (\<lambda>(r, s'). Ret s'))"
| "call (Add l) s = Some (bind_outcome (quapi_add l s) (\<lambda>(r, s'). Ret s'))"
| "call (Assume reply a) s = Some (bind_outcome (quapi_assume reply a s) (\<lambda>(r, s'). Ret s'))"
| "call Reset_Assumptions s = Some (Ret (quapi_reset_assumptions s))"
| "call (Solve allow reply script) s =
     map_option (\<lambda>res. bind_outcome res (\<lambda>(r, s'). Ret s')) (quapi_solve allow reply script s)"
| "call Terminate s = Some (Ret (quapi_terminate s))"
| "call (Set_Stdout_Cb cb u) s = Some (Ret (quapi_set_stdout_cb cb u s))"

text \<open>What a call does to the formula that was described.\<close>

fun fs_call :: "bool \<Rightarrow> 'u client_call \<Rightarrow> formula_state \<Rightarrow> formula_state" where
  "fs_call w (Quantify q) F = fs_quantify q F"
| "fs_call w (Add l) F = fs_add l F"
| "fs_call w (Assume reply a) F = fs_assume w a F"
| "fs_call w Reset_Assumptions F = fs_reset F"
| "fs_call w (Solve allow reply script) F = fs_solve w F"
| "fs_call w Terminate F = F"
| "fs_call w (Set_Stdout_Cb cb u) F = F"

text \<open>The request to fork, if one is needed, is answered.\<close>

definition answered :: "byte list \<Rightarrow> 'u quapi_solver \<Rightarrow> formula_state \<Rightarrow> bool" where
  "answered reply s F \<longleftrightarrow> (fs_assumptions F = None \<longrightarrow> (\<exists>p rest. reports (sv_messages s @ reply) p rest))"

text \<open>
  When a client may make a call: quantifiers come first and are not 0, clauses are not added
  while assumptions wait for a solve, clauses are finished before an assumption or a solve,
  and the numbers stay in the range of their counters.
\<close>

fun may_call :: "'u client_call \<Rightarrow> 'u quapi_solver \<Rightarrow> formula_state \<Rightarrow> bool" where
  "may_call (Quantify q) s F \<longleftrightarrow> sv_state s = QUAPI_INPUT \<and> lit_ok q \<and> q \<noteq> 0
     \<and> int (length (fs_asked F)) < 2 ^ 31 - 1"
| "may_call (Add l) s F \<longleftrightarrow> fs_assumptions F = None \<and> int (fs_count F) < 2 ^ 31 - 1"
| "may_call (Assume reply a) s F \<longleftrightarrow> sv_state s \<noteq> QUAPI_INPUT \<and> fs_clause F = [] \<and> a \<noteq> 0 \<and> answered reply s F
     \<and> written_clauses s < s32 (clauses (sv_header s) + prefixdepth (sv_header s))"
| "may_call Reset_Assumptions s F \<longleftrightarrow> fs_assumptions F \<noteq> None \<and> int (fs_count F + length (fs_units F)) < 2 ^ 31"
| "may_call (Solve allow reply script) s F \<longleftrightarrow> fs_clause F = [] \<and> answered reply s F
     \<and> (universal_depth (prefixdepth (sv_header s)) (fs_asked F) \<le> int (length (fs_units F)) \<or> allow)
     \<and> int (fs_count F + length (fs_units F)) < 2 ^ 31"
| "may_call Terminate s F \<longleftrightarrow> True"
| "may_call (Set_Stdout_Cb cb u) s F \<longleftrightarrow> True"

lemma quapi_terminate_describes: "describes s F \<Longrightarrow> describes (quapi_terminate s) F"
  by (simp add: quapi_terminate_def describes_def counts_ok_def frames_def)

lemma quapi_set_stdout_cb_describes: "describes s F \<Longrightarrow> describes (quapi_set_stdout_cb cb u s) F"
  by (simp add: quapi_set_stdout_cb_def describes_def counts_ok_def frames_def)

text \<open>A call that returns keeps the relation; every call but a solve returns.\<close>

lemma call_describes:
  assumes d: "describes s F" and m: "may_call c s F" and r: "call c s = Some (Ret s')"
  shows "describes s' (fs_call (waits s) c F) \<and> config s' = config s"
proof (cases c)
  case (Quantify q)
  with m quapi_quantify_describes [OF d, of q] r show ?thesis by auto
next
  case (Add l)
  with m quapi_add_describes [OF d, of l] r show ?thesis by auto
next
  case (Assume reply a)
  with m have a: "fs_clause F = []" "sv_state s \<noteq> QUAPI_INPUT" "a \<noteq> 0"
    "written_clauses s < s32 (clauses (sv_header s) + prefixdepth (sv_header s))" by auto
  obtain p rest where "fs_assumptions F = None \<Longrightarrow> reports (sv_messages s @ reply) p rest"
    using m Assume by (auto simp: answered_def)
  from quapi_assume_describes [OF d a(1-3) this a(4)] r Assume show ?thesis by auto
next
  case Reset_Assumptions
  with m r quapi_reset_assumptions_describes [OF d] show ?thesis
    by (auto simp: quapi_reset_assumptions_def abort_solverchild_def Let_def)
next
  case (Solve allow reply script)
  with m have a: "fs_clause F = []"
    "universal_depth (prefixdepth (sv_header s)) (fs_asked F) \<le> int (length (fs_units F)) \<or> allow"
    "int (fs_count F + length (fs_units F)) < 2 ^ 31" by auto
  obtain p rest where p: "fs_assumptions F = None \<Longrightarrow> reports (sv_messages s @ reply) p rest"
    using m Solve by (auto simp: answered_def)
  obtain v where "quapi_solve allow reply script s = Some (Ret (v, s'))"
    using r Solve by (auto simp: bind_outcome_Ret_iff)
  from quapi_solve_describes [OF d a(1) p a(2,3) this] Solve show ?thesis by simp
next
  case Terminate
  with r quapi_terminate_describes [OF d] show ?thesis by (auto simp: quapi_terminate_def)
next
  case (Set_Stdout_Cb cb u)
  with r quapi_set_stdout_cb_describes [OF d] show ?thesis by (auto simp: quapi_set_stdout_cb_def)
qed

definition is_solve :: "'u client_call \<Rightarrow> bool" where
  "is_solve c \<longleftrightarrow> (\<exists>allow reply script. c = Solve allow reply script)"

text \<open>
  C7. No legal call gets stuck: on a solver that describes the client's formula, every legal
  call other than a solve returns, without a failed assertion, without undefined behaviour and
  without ending the process.
\<close>

theorem call_returns:
  assumes d: "describes s F" and m: "may_call c s F" and n: "\<not> is_solve c"
  shows "\<exists>s'. call c s = Some (Ret s')"
proof (cases c)
  case (Quantify q)
  with m quapi_quantify_describes [OF d, of q] show ?thesis by auto
next
  case (Add l)
  with m quapi_add_describes [OF d, of l] show ?thesis by auto
next
  case (Assume reply a)
  with m have a: "fs_clause F = []" "sv_state s \<noteq> QUAPI_INPUT" "a \<noteq> 0"
    "written_clauses s < s32 (clauses (sv_header s) + prefixdepth (sv_header s))" by auto
  obtain p rest where "fs_assumptions F = None \<Longrightarrow> reports (sv_messages s @ reply) p rest"
    using m Assume by (auto simp: answered_def)
  from quapi_assume_describes [OF d a(1-3) this a(4)] Assume show ?thesis by auto
qed (use n in \<open>simp_all add: is_solve_def\<close>)

section \<open>Sessions\<close>

text \<open>
  The executions of a client that makes only calls it may make, together with the formula
  it describes.
\<close>

inductive session ::
    "'u quapi_solver \<Rightarrow> formula_state \<Rightarrow> 'u client_call list \<Rightarrow> 'u quapi_solver \<Rightarrow> formula_state \<Rightarrow> bool" where
  session_start: "session s F [] s F"
| session_call: "session s F cs s1 F1 \<Longrightarrow> may_call c s1 F1 \<Longrightarrow> call c s1 = Some (Ret s2) \<Longrightarrow>
    session s F (cs @ [c]) s2 (fs_call (waits s1) c F1)"

inductive_cases session_NilE: "session s F [] s' F'"

lemma session_describes:
  assumes "session s F cs s' F'" and "describes s F"
  shows "describes s' F' \<and> config s' = config s"
  using assms by (induction rule: session.induct) (auto dest: call_describes)

text \<open>The formula a session describes is the one its calls build.\<close>

lemma session_formula:
  "session s F cs s' F' \<Longrightarrow> describes s F \<Longrightarrow> F' = fold (fs_call (waits s)) cs F"
proof (induction rule: session.induct)
  case (session_call s F cs s1 F1 c s2)
  from session_describes [OF session_call.hyps(1) session_call.prems] have "waits s1 = waits s"
    by (simp add: waits_def)
  with session_call show ?case by simp
qed simp

text \<open>Sessions follow one another.\<close>

lemma session_append:
  "session s1 F1 ds s2 F2 \<Longrightarrow> session s F cs s1 F1 \<Longrightarrow> session s F (cs @ ds) s2 F2"
proof (induction rule: session.induct)
  case (session_call s1 F1 ds s2 F2 c s3)
  from session.session_call [OF session_call.IH [OF session_call.prems] session_call.hyps(2,3)] show ?case by simp
qed simp

lemma session_single:
  "may_call c s F \<Longrightarrow> call c s = Some (Ret s') \<Longrightarrow> session s F [c] s' (fs_call (waits s) c F)"
  using session_call [OF session_start] by fastforce

end
