(* ===== verification/Quapi_Inject.thy ===== *)
theory Quapi_Inject
  imports Quapi_Formula
begin

text \<open>
  The functions the preload library puts in place of the C library's and zlib's, and its
  constructor and destructor: \<open>preload/src/inject_read.c\<close> and \<open>inject_main.c\<close>. Those
  that read the standard input go to \<open>quapi_read\<close>; all others go to the original
  functions, which are the record \<open>libc\<close> on the state \<open>'w\<close> of the rest of the
  process. The lemmas show that each way of reading keeps the contract \<open>char_source\<close>, or
  \<open>char_getter\<close> for the functions that give one character.
\<close>

section \<open>State\<close>

text \<open>
  A stream is the default \<open>stdin\<close>, the mock that \<open>fopen ("/dev/stdin")\<close> gives, another
  stream on descriptor 0, or any other stream.
\<close>

datatype stream = Default_Stdin | Stdin_Mock | Stream_On_0 nat | Other_Stream nat

datatype gz_file = Gz_Null | Gz_Stdin | Gz_Other nat

text \<open>The read buffer of a \<open>FILE\<close>: \<open>_IO_read_base\<close> and offsets into it.\<close>

record io_file =
  IO_read_base :: "string option"
  IO_read_ptr :: nat
  IO_read_end :: nat

definition fresh_file :: io_file where
  "fresh_file = \<lparr>IO_read_base = None, IO_read_ptr = 0, IO_read_end = 0\<rparr>"

text \<open>The original functions; a \<open>read\<close> gives a count and the bytes.\<close>

record 'w libc =
  c_fopen :: "string \<Rightarrow> string \<Rightarrow> 'w \<Rightarrow> stream option \<times> 'w"
  c_fclose :: "stream \<Rightarrow> 'w \<Rightarrow> int \<times> 'w"
  c_fgetc :: "stream \<Rightarrow> 'w \<Rightarrow> int \<times> 'w"
  c_fgetc_unlocked :: "stream \<Rightarrow> 'w \<Rightarrow> int \<times> 'w"
  c_getc :: "stream \<Rightarrow> 'w \<Rightarrow> int \<times> 'w"
  c_getc_unlocked :: "stream \<Rightarrow> 'w \<Rightarrow> int \<times> 'w"
  c_read :: "int \<Rightarrow> string \<Rightarrow> 'w \<Rightarrow> (int \<times> string) \<times> 'w"
  c_fread :: "nat \<Rightarrow> stream \<Rightarrow> string \<Rightarrow> 'w \<Rightarrow> (int \<times> string) \<times> 'w"
  c_gzdopen :: "int \<Rightarrow> string \<Rightarrow> 'w \<Rightarrow> gz_file \<times> 'w"
  c_gzread :: "gz_file \<Rightarrow> string \<Rightarrow> 'w \<Rightarrow> (int \<times> string) \<times> 'w"
  c_gzclose :: "gz_file \<Rightarrow> 'w \<Rightarrow> int \<times> 'w"

record 'w preload =
  pl_runtime :: quapi_runtime
  pl_stdin :: io_file
  pl_mock :: "io_file option"             \<comment> \<open>\<open>quapi_dev_stdin_mock\<close>\<close>
  quapi_gzFile_stdin :: gz_file
  quapi_runtime_read_detected :: bool
  quapi_runtime_initiated :: bool
  pl_ld_preload :: bool                   \<comment> \<open>\<open>LD_PRELOAD\<close> is still in the environment\<close>
  pl_world :: 'w

type_synonym ('a, 'w) pl_result = "('a \<times> 'w preload) outcome option"

definition STDIN_FILENO :: int where "STDIN_FILENO = 0"

text \<open>\<open>QUAPI_CHECK_AND_REPORT_ENTRY\<close>, without its debug message.\<close>

definition entered :: "'w preload \<Rightarrow> 'w preload" where
  "entered s = s\<lparr>quapi_runtime_read_detected := True\<rparr>"

text \<open>A call of an original function.\<close>

definition original :: "('w \<Rightarrow> 'a \<times> 'w) \<Rightarrow> 'w preload \<Rightarrow> ('a, 'w) pl_result" where
  "original f s = (let (x, w) = f (pl_world s) in Some (Ret (x, s\<lparr>pl_world := w\<rparr>)))"

text \<open>A call of \<open>quapi_read\<close> on the global runtime.\<close>

definition runtime_read :: "bool \<Rightarrow> string \<Rightarrow> 'w preload \<Rightarrow> (int \<times> string, 'w) pl_result" where
  "runtime_read trace buf s =
     map_option (\<lambda>res. bind_outcome res (\<lambda>(n, buf', r). Ret ((n, buf'), s\<lparr>pl_runtime := r\<rparr>)))
       (quapi_read trace (pl_runtime s) buf)"

section \<open>zlib\<close>

definition gzdopen :: "'w libc \<Rightarrow> int \<Rightarrow> string \<Rightarrow> 'w preload \<Rightarrow> (gz_file, 'w) pl_result" where
  "gzdopen c fd mode s0 =
     (let s = entered s0 in
      if fd = STDIN_FILENO then Some (Ret (Gz_Stdin, s\<lparr>quapi_gzFile_stdin := Gz_Stdin\<rparr>))
      else original (c_gzdopen c fd mode) s)"

definition gzread :: "bool \<Rightarrow> 'w libc \<Rightarrow> gz_file \<Rightarrow> string \<Rightarrow> 'w preload \<Rightarrow> (int \<times> string, 'w) pl_result" where
  "gzread trace c f data s0 =
     (let s = entered s0 in
      if f = quapi_gzFile_stdin s then runtime_read trace data s else original (c_gzread c f data) s)"

definition gzclose :: "'w libc \<Rightarrow> gz_file \<Rightarrow> 'w preload \<Rightarrow> (int, 'w) pl_result" where
  "gzclose c f s0 =
     (let s = entered s0 in
      if f = quapi_gzFile_stdin s then Some (Ret (0, s)) else original (c_gzclose c f) s)"

section \<open>Opening and closing\<close>

definition fopen :: "'w libc \<Rightarrow> string \<Rightarrow> string \<Rightarrow> 'w preload \<Rightarrow> (stream option, 'w) pl_result" where
  "fopen c path mode s0 =
     (let s = entered s0 in
      if path = ''/dev/stdin'' \<and> pl_mock s = None
      then Some (Ret (Some Stdin_Mock, s\<lparr>pl_mock := Some fresh_file\<rparr>))
      else original (c_fopen c path mode) s)"

definition fclose :: "'w libc \<Rightarrow> stream \<Rightarrow> 'w preload \<Rightarrow> (int, 'w) pl_result" where
  "fclose c f s0 =
     (let s = entered s0 in
      if f = Stdin_Mock then
        (if pl_mock s \<noteq> None then Some (Ret (0, s\<lparr>pl_mock := None\<rparr>)) else Some Undefined_Behaviour)
      else original (c_fclose c f) s)"

section \<open>Single characters\<close>

definition c_EOF :: int where "c_EOF = -1"

definition uchar :: "char \<Rightarrow> int" where
  "uchar c = of_char c"

lemma uchar_int: "uchar c = int (of_char c)"
  by (simp add: uchar_def of_char_def horner_sum_foldr)

lemma uchar_nonneg: "0 \<le> uchar c"
  by (simp only: uchar_int of_nat_0_le_iff)

lemma char_of_uchar [simp]: "char_of (uchar c) = c"
  by (simp add: uchar_def)

definition schar :: "char \<Rightarrow> int" where
  "schar c = (if uchar c < 128 then uchar c else uchar c - 256)"

text \<open>
  \<open>__uflow\<close>: the buffer has 64 bytes; the character it gives is a (signed) \<open>char\<close>, where the
  inlined access gives an \<open>unsigned char\<close>.
\<close>

definition uflow_size :: nat where "uflow_size = 64"

definition uflow :: "bool \<Rightarrow> io_file \<Rightarrow> 'w preload \<Rightarrow> (int \<times> io_file, 'w) pl_result" where
  "uflow trace file s0 =
     (let base = (case IO_read_base file of None \<Rightarrow> replicate uflow_size NUL | Some b \<Rightarrow> b) in
      map_option (\<lambda>res. bind_outcome res
          (\<lambda>((n, buf), s). Ret
             (if n = 0
              then ((c_EOF, file\<lparr>IO_read_base := None\<rparr>), s\<lparr>pl_ld_preload := False\<rparr>)
              else ((schar (buf ! 0),
                     file\<lparr>IO_read_base := Some buf, IO_read_ptr := 1, IO_read_end := nat n\<rparr>), s))))
        (runtime_read trace base (entered s0)))"

text \<open>The body the four functions share, on the buffer of a stream.\<close>

definition getc_body :: "bool \<Rightarrow> io_file \<Rightarrow> 'w preload \<Rightarrow> (int \<times> io_file, 'w) pl_result" where
  "getc_body trace file s =
     (if IO_read_ptr file \<ge> IO_read_end file then uflow trace file s
      else
        (case IO_read_base file of
           None \<Rightarrow> Some Undefined_Behaviour
         | Some b \<Rightarrow>
             Some (Ret ((uchar (b ! IO_read_ptr file), file\<lparr>IO_read_ptr := IO_read_ptr file + 1\<rparr>), s))))"

definition getc_on ::
    "bool \<Rightarrow> (stream \<Rightarrow> 'w \<Rightarrow> int \<times> 'w) \<Rightarrow> stream \<Rightarrow> 'w preload \<Rightarrow> (int, 'w) pl_result" where
  "getc_on trace orig stream s =
     (case stream of
        Default_Stdin \<Rightarrow>
          map_option (\<lambda>res. bind_outcome res (\<lambda>((ch, f), s'). Ret (ch, s'\<lparr>pl_stdin := f\<rparr>)))
            (getc_body trace (pl_stdin s) (entered s))
      | Stdin_Mock \<Rightarrow>
          (case pl_mock s of
             None \<Rightarrow> Some Undefined_Behaviour
           | Some m \<Rightarrow>
               map_option (\<lambda>res. bind_outcome res (\<lambda>((ch, f), s'). Ret (ch, s'\<lparr>pl_mock := Some f\<rparr>)))
                 (getc_body trace m (entered s)))
      | _ \<Rightarrow> original (orig stream) s)"

definition fgetc :: "bool \<Rightarrow> 'w libc \<Rightarrow> stream \<Rightarrow> 'w preload \<Rightarrow> (int, 'w) pl_result" where
  "fgetc trace c = getc_on trace (c_fgetc c)"

definition fgetc_unlocked :: "bool \<Rightarrow> 'w libc \<Rightarrow> stream \<Rightarrow> 'w preload \<Rightarrow> (int, 'w) pl_result" where
  "fgetc_unlocked trace c = getc_on trace (c_fgetc_unlocked c)"

definition getc :: "bool \<Rightarrow> 'w libc \<Rightarrow> stream \<Rightarrow> 'w preload \<Rightarrow> (int, 'w) pl_result" where
  "getc trace c = getc_on trace (c_getc c)"

definition getc_unlocked :: "bool \<Rightarrow> 'w libc \<Rightarrow> stream \<Rightarrow> 'w preload \<Rightarrow> (int, 'w) pl_result" where
  "getc_unlocked trace c = getc_on trace (c_getc_unlocked c)"

section \<open>Blocks\<close>

definition read_fd :: "bool \<Rightarrow> 'w libc \<Rightarrow> int \<Rightarrow> string \<Rightarrow> 'w preload \<Rightarrow> (int \<times> string, 'w) pl_result" where
  "read_fd trace c fd data s =
     (if fd = STDIN_FILENO then runtime_read trace data (entered s) else original (c_read c fd data) s)"

text \<open>
  \<open>fread\<close> of items of \<open>size\<close> bytes, into a buffer of all of them; on the standard input
  it gives the number of bytes. A mock that was closed is freed memory.
\<close>

definition fread :: "bool \<Rightarrow> 'w libc \<Rightarrow> nat \<Rightarrow> stream \<Rightarrow> string \<Rightarrow> 'w preload \<Rightarrow> (int \<times> string, 'w) pl_result" where
  "fread trace c sz stream ptr s0 =
     (let s = entered s0 in
      case stream of
        Default_Stdin \<Rightarrow> read_fd trace c STDIN_FILENO ptr s
      | Stream_On_0 n \<Rightarrow> read_fd trace c STDIN_FILENO ptr s
      | Stdin_Mock \<Rightarrow>
          (if pl_mock s \<noteq> None then read_fd trace c STDIN_FILENO ptr s else Some Undefined_Behaviour)
      | Other_Stream n \<Rightarrow> original (c_fread c sz stream ptr) s)"

section \<open>Construction and destruction\<close>

definition on_constructed :: "'w preload \<Rightarrow> 'w preload outcome" where
  "on_constructed s =
     (if \<not> quapi_runtime_initiated s then
        bind_outcome (quapi_runtime_init (pl_runtime s))
          (\<lambda>r. Ret (s\<lparr>quapi_runtime_initiated := True, pl_runtime := r\<rparr>))
      else Ret s)"

definition on_destructed :: "'w preload \<Rightarrow> 'w preload" where
  "on_destructed s =
     (if \<not> quapi_runtime_read_detected s then s
      else if rt_send_destructed_msg (pl_runtime s)
      then s\<lparr>pl_runtime := send_to_parent MDestructed (pl_runtime s)\<rparr>
      else s)"

section \<open>Reading blocks keeps the contract\<close>

definition as_source ::
    "(string \<Rightarrow> 'w preload \<Rightarrow> (int \<times> string, 'w) pl_result) \<Rightarrow> 'w preload \<Rightarrow> string \<Rightarrow>
     (nat \<times> string \<times> 'w preload) option" where
  "as_source rd s buf =
     (case rd buf s of
        Some (Ret ((n, buf'), s')) \<Rightarrow> (if 0 \<le> n then Some (nat n, buf', s') else None)
      | _ \<Rightarrow> None)"

lemma runtime_read_rd:
  "runtime_rd trace (pl_runtime s) buf = Some (k, buf', r) \<Longrightarrow>
   runtime_read trace buf s = Some (Ret ((int k, buf'), s\<lparr>pl_runtime := r\<rparr>))"
  by (auto simp: runtime_rd_def runtime_read_def split: option.splits outcome.splits if_splits prod.splits)

lemma char_source_runtime:
  assumes rd: "\<And>buf s. ready s \<Longrightarrow> \<exists>s0. rd buf s = runtime_read trace buf s0
      \<and> pl_runtime s0 = pl_runtime s \<and> (\<forall>r. ready (s0\<lparr>pl_runtime := r\<rparr>))"
  shows "char_source (as_source rd) (\<lambda>s t. ready s \<and> delivers h (pl_runtime s) t)"
proof
  fix s :: "'a preload" and t buf :: string
  assume d: "ready s \<and> delivers h (pl_runtime s) t" and b: "0 < length buf"
  then obtain s0 where s0: "rd buf s = runtime_read trace buf s0" "pl_runtime s0 = pl_runtime s"
    "\<And>r. ready (s0\<lparr>pl_runtime := r\<rparr>)" using rd by blast
  have step: "as_source rd s buf = Some (k, buf', s0\<lparr>pl_runtime := r\<rparr>)"
    if "runtime_rd trace (pl_runtime s) buf = Some (k, buf', r)" for k buf' r
    using runtime_read_rd [of trace s0 buf k buf' r] that s0 by (simp add: as_source_def)
  {
    assume "t \<noteq> []"
    with runtime.rd_some [of h "pl_runtime s" t buf trace] d b obtain k buf' r
      where "runtime_rd trace (pl_runtime s) buf = Some (k, buf', r)" "0 < k" "k \<le> length buf"
        "k \<le> length t" "length buf' = length buf" "take k buf' = take k t" "delivers h r (drop k t)" by blast
    with step s0(3) show "\<exists>k buf' s'. as_source rd s buf = Some (k, buf', s') \<and> 0 < k \<and> k \<le> length buf
        \<and> k \<le> length t \<and> length buf' = length buf \<and> take k buf' = take k t
        \<and> ready s' \<and> delivers h (pl_runtime s') (drop k t)"
      by (intro exI [of _ k] exI [of _ buf'] exI [of _ "s0\<lparr>pl_runtime := r\<rparr>"]) simp
  }
next
  fix s :: "'a preload" and buf :: string
  assume d: "ready s \<and> delivers h (pl_runtime s) []" and b: "0 < length buf"
  then obtain s0 where s0: "rd buf s = runtime_read trace buf s0" "pl_runtime s0 = pl_runtime s"
    using rd by blast
  from runtime.rd_end [of h "pl_runtime s" buf trace] d b obtain r
    where "runtime_rd trace (pl_runtime s) buf = Some (0, buf[0 := CHR 0xFF], r)" by blast
  with runtime_read_rd [of trace s0 buf 0 _ r] s0
  show "\<exists>s'. as_source rd s buf = Some (0, buf[0 := CHR 0xFF], s')"
    by (simp add: as_source_def)
qed

interpretation stdin_read: char_source
  "as_source (read_fd trace c STDIN_FILENO)" "\<lambda>s t. True \<and> delivers h (pl_runtime s) t" for trace c h
  by (rule char_source_runtime) (auto simp: read_fd_def entered_def intro: exI [of _ "entered s" for s])

text \<open>The streams that stand for the standard input.\<close>

definition stdin_stream :: "stream \<Rightarrow> 'w preload \<Rightarrow> bool" where
  "stdin_stream f s \<longleftrightarrow> (case f of Default_Stdin \<Rightarrow> True | Stdin_Mock \<Rightarrow> pl_mock s \<noteq> None
     | Stream_On_0 n \<Rightarrow> True | Other_Stream n \<Rightarrow> False)"

interpretation stdin_fread: char_source
  "as_source (fread trace c sz f)" "\<lambda>s t. stdin_stream f s \<and> delivers h (pl_runtime s) t" for trace c sz f h
  by (rule char_source_runtime)
    (cases f, auto simp: fread_def read_fd_def stdin_stream_def entered_def Let_def
      intro!: exI [of _ "entered (entered s)" for s])

interpretation stdin_gzread: char_source
  "as_source (gzread trace c f)" "\<lambda>s t. f = quapi_gzFile_stdin s \<and> delivers h (pl_runtime s) t" for trace c f h
  by (rule char_source_runtime) (auto simp: gzread_def entered_def intro!: exI [of _ "entered s" for s])

section \<open>Reading single characters\<close>

text \<open>A reader that asks for at most \<open>n\<close> characters and stops at the end of file.\<close>

fun get_all :: "('s \<Rightarrow> (int \<times> 's) option) \<Rightarrow> nat \<Rightarrow> 's \<Rightarrow> (string \<times> bool) option" where
  "get_all get 0 s = Some ([], False)"
| "get_all get (Suc n) s =
     (case get s of
        None \<Rightarrow> None
      | Some (ch, s') \<Rightarrow>
          (if ch = c_EOF then Some ([], True)
           else map_option (\<lambda>(out, eof). (char_of ch # out, eof)) (get_all get n s')))"

locale char_getter =
  fixes get :: "'s \<Rightarrow> (int \<times> 's) option"
    and owes :: "'s \<Rightarrow> string \<Rightarrow> bool"
  assumes get_some: "owes s (ch # t) \<Longrightarrow> \<exists>s'. get s = Some (uchar ch, s') \<and> owes s' t"
    and get_end: "owes s [] \<Longrightarrow> \<exists>s'. get s = Some (c_EOF, s')"
begin

lemma get_all_text: "owes s t \<Longrightarrow> get_all get n s = Some (take n t, length t < n)"
proof (induction n arbitrary: s t)
  case (Suc n)
  show ?case
  proof (cases t)
    case Nil
    with Suc.prems get_end [of s] show ?thesis by auto
  next
    case (Cons ch t')
    with Suc.prems get_some [of s ch t'] obtain s' where "get s = Some (uchar ch, s')" "owes s' t'" by blast
    moreover have "uchar ch \<noteq> c_EOF" using uchar_nonneg [of ch] by (simp add: c_EOF_def)
    ultimately show ?thesis using Suc.IH [of s' t'] Cons by simp
  qed
qed simp

end

text \<open>
  The part of a buffer that was not handed out, and the text that is then owed. The
  characters are ASCII: for these \<open>char\<close> and \<open>unsigned char\<close> agree.
\<close>

definition ascii :: "string \<Rightarrow> bool" where
  "ascii t \<longleftrightarrow> (\<forall>c \<in> set t. uchar c < 128)"

definition file_part :: "io_file \<Rightarrow> string" where
  "file_part f = (case IO_read_base f of None \<Rightarrow> []
     | Some b \<Rightarrow> peek b (IO_read_ptr f) (IO_read_end f - IO_read_ptr f))"

definition file_ok :: "io_file \<Rightarrow> bool" where
  "file_ok f \<longleftrightarrow> (case IO_read_base f of None \<Rightarrow> IO_read_end f \<le> IO_read_ptr f
     | Some b \<Rightarrow> length b = uflow_size \<and> IO_read_end f \<le> uflow_size)"

definition file_owes :: "quapi_msg_header_data \<Rightarrow> io_file \<Rightarrow> quapi_runtime \<Rightarrow> string \<Rightarrow> bool" where
  "file_owes h f r t \<longleftrightarrow> file_ok f \<and> ascii t \<and> (\<exists>u. t = file_part f @ u \<and> delivers h r u)"

lemma ascii_simps [simp]: "ascii []" "ascii (c # t) \<longleftrightarrow> uchar c < 128 \<and> ascii t"
  "ascii (t @ u) \<longleftrightarrow> ascii t \<and> ascii u"
  by (auto simp: ascii_def)

lemma file_part_Nil: "file_ok f \<Longrightarrow> file_part f = [] \<longleftrightarrow> IO_read_end f \<le> IO_read_ptr f"
  by (auto simp: file_part_def file_ok_def peek_def split: option.splits)

lemma uflow_text:
  assumes o: "file_owes h f (pl_runtime s) t" and e: "IO_read_end f \<le> IO_read_ptr f"
  shows "\<exists>f' s'. uflow trace f s = Some (Ret ((if t = [] then c_EOF else uchar (hd t), f'), s'))
    \<and> (t \<noteq> [] \<longrightarrow> file_owes h f' (pl_runtime s') (tl t))
    \<and> (\<exists>r b. s' = s\<lparr>quapi_runtime_read_detected := True, pl_runtime := r, pl_ld_preload := b\<rparr>)"
proof -
  have ok: "file_ok f" and a: "ascii t" using o by (simp_all add: file_owes_def)
  have d: "delivers h (pl_runtime s) t" using o file_part_Nil [OF ok] e by (auto simp: file_owes_def)
  let ?base = "case IO_read_base f of None \<Rightarrow> replicate uflow_size NUL | Some b \<Rightarrow> b"
  have len: "length ?base = 64" using ok by (auto simp: file_ok_def uflow_size_def split: option.splits)
  then have b: "0 < length ?base" by simp
  show ?thesis
  proof (cases t)
    case Nil
    from runtime.rd_end [of h "pl_runtime s" ?base trace] d b Nil obtain r
      where "runtime_rd trace (pl_runtime (entered s)) ?base = Some (0, ?base[0 := CHR 0xFF], r)"
      by (auto simp: entered_def)
    from runtime_read_rd [OF this] Nil show ?thesis
      by (auto simp: uflow_def entered_def intro!: exI [of _ r] exI [of _ False])
  next
    case (Cons c t')
    from runtime.rd_some [of h "pl_runtime s" t ?base trace] d b Cons obtain k buf r
      where rd: "runtime_rd trace (pl_runtime (entered s)) ?base = Some (k, buf, r)" and k: "0 < k" "k \<le> 64"
        "k \<le> length t" "length buf = 64" "take k buf = take k t" and d': "delivers h r (drop k t)"
      by (auto simp: entered_def len)
    let ?f = "f\<lparr>IO_read_base := Some buf, IO_read_ptr := 1, IO_read_end := k\<rparr>"
    let ?s = "s\<lparr>quapi_runtime_read_detected := True, pl_runtime := r\<rparr>"
    have same: "\<exists>r' b. ?s = s\<lparr>quapi_runtime_read_detected := True, pl_runtime := r', pl_ld_preload := b\<rparr>"
      by (intro exI [of _ r] exI [of _ "pl_ld_preload s"]) simp
    obtain k' where k': "k = Suc k'" using k(1) by (cases k) auto
    obtain x xs where buf: "buf = x # xs" using k(4) by (cases buf) auto
    have x: "x = c" "take k' xs = take k' t'" using k(5) by (simp_all add: k' buf Cons)
    then have "schar (buf ! 0) = uchar c" using a Cons buf by (simp add: schar_def)
    then have "uflow trace f s = Some (Ret ((uchar c, ?f), ?s))"
      using runtime_read_rd [OF rd] k(1) by (simp add: uflow_def entered_def)
    moreover have "file_part ?f = take k' t'" using x(2) by (simp add: file_part_def peek_def buf k')
    then have "file_owes h ?f r t'"
      using a Cons k d' append_take_drop_id [of k' t']
      by (auto simp: file_owes_def file_ok_def uflow_size_def k' intro!: exI [of _ "drop k' t'"])
    ultimately show ?thesis using Cons same by (intro exI [of _ ?f] exI [of _ ?s]) simp
  qed
qed

lemma getc_body_text:
  assumes o: "file_owes h f (pl_runtime s) t"
  shows "\<exists>f' s'. getc_body trace f s = Some (Ret ((if t = [] then c_EOF else uchar (hd t), f'), s'))
    \<and> (t \<noteq> [] \<longrightarrow> file_owes h f' (pl_runtime s') (tl t))
    \<and> (\<exists>b r d. s' = s\<lparr>quapi_runtime_read_detected := d, pl_runtime := r, pl_ld_preload := b\<rparr>)"
proof (cases "IO_read_end f \<le> IO_read_ptr f")
  case True
  from uflow_text [OF o True, of trace] True show ?thesis by (fastforce simp: getc_body_def)
next
  case False
  have ok: "file_ok f" and a: "ascii t" using o by (simp_all add: file_owes_def)
  then obtain b where b: "IO_read_base f = Some b" "length b = uflow_size" "IO_read_end f \<le> uflow_size"
    using False by (auto simp: file_ok_def split: option.splits)
  let ?f = "f\<lparr>IO_read_ptr := Suc (IO_read_ptr f)\<rparr>"
  have "file_part f = b ! IO_read_ptr f # file_part ?f"
    using b False by (simp add: file_part_def peek_def Suc_diff_Suc [symmetric] Cons_nth_drop_Suc [symmetric])
  then have t: "t \<noteq> []" "hd t = b ! IO_read_ptr f" "file_owes h ?f (pl_runtime s) (tl t)"
    using o b a by (auto simp: file_owes_def file_ok_def)
  have "getc_body trace f s = Some (Ret ((uchar (hd t), ?f), s))"
    using False b t(2) by (simp add: getc_body_def)
  moreover have "\<exists>b r d. s = s\<lparr>quapi_runtime_read_detected := d, pl_runtime := r, pl_ld_preload := b\<rparr>"
    by (intro exI [of _ "pl_ld_preload s"] exI [of _ "pl_runtime s"] exI [of _ "quapi_runtime_read_detected s"]) simp
  ultimately show ?thesis using t(1,3) by (intro exI [of _ ?f] exI [of _ s]) simp
qed

definition as_getter :: "('w preload \<Rightarrow> (int, 'w) pl_result) \<Rightarrow> 'w preload \<Rightarrow> (int \<times> 'w preload) option" where
  "as_getter g s = (case g s of Some (Ret (ch, s')) \<Rightarrow> Some (ch, s') | _ \<Rightarrow> None)"

definition stream_owes :: "quapi_msg_header_data \<Rightarrow> stream \<Rightarrow> 'w preload \<Rightarrow> string \<Rightarrow> bool" where
  "stream_owes h f s t =
     (case f of
        Default_Stdin \<Rightarrow> file_owes h (pl_stdin s) (pl_runtime s) t
      | Stdin_Mock \<Rightarrow> (case pl_mock s of None \<Rightarrow> False | Some m \<Rightarrow> file_owes h m (pl_runtime s) t)
      | _ \<Rightarrow> False)"

lemma getc_on_text:
  assumes "stream_owes h f s t"
  shows "\<exists>s'. as_getter (getc_on trace orig f) s = Some (if t = [] then c_EOF else uchar (hd t), s')
    \<and> (t \<noteq> [] \<longrightarrow> stream_owes h f s' (tl t))"
proof -
  have r: "pl_runtime (entered s) = pl_runtime s" by (simp add: entered_def)
  consider "f = Default_Stdin" | m where "f = Stdin_Mock" "pl_mock s = Some m"
    using assms by (cases f) (auto simp: stream_owes_def split: option.splits)
  then show ?thesis
  proof cases
    case 1
    then have "file_owes h (pl_stdin s) (pl_runtime (entered s)) t" using assms r by (simp add: stream_owes_def)
    from getc_body_text [OF this, of trace] 1 show ?thesis
      by (auto simp: as_getter_def getc_on_def stream_owes_def)
  next
    case (2 m)
    then have "file_owes h m (pl_runtime (entered s)) t" using assms r by (simp add: stream_owes_def)
    from getc_body_text [OF this, of trace] 2 show ?thesis
      by (auto simp: as_getter_def getc_on_def stream_owes_def)
  qed
qed

lemma char_getter_getc: "char_getter (as_getter (getc_on trace orig f)) (stream_owes h f)"
proof
  show "\<exists>s'. as_getter (getc_on trace orig f) s = Some (uchar ch, s') \<and> stream_owes h f s' t"
    if "stream_owes h f s (ch # t)" for s ch t
    using getc_on_text [OF that, of trace orig] by auto
  show "\<exists>s'. as_getter (getc_on trace orig f) s = Some (c_EOF, s')" if "stream_owes h f s []" for s
    using getc_on_text [OF that, of trace orig] by auto
qed

interpretation stdin_fgetc: char_getter "as_getter (fgetc trace c f)" "stream_owes h f" for trace c f h
  unfolding fgetc_def by (rule char_getter_getc)

interpretation stdin_fgetc_unlocked: char_getter "as_getter (fgetc_unlocked trace c f)" "stream_owes h f" for trace c f h
  unfolding fgetc_unlocked_def by (rule char_getter_getc)

interpretation stdin_getc: char_getter "as_getter (getc trace c f)" "stream_owes h f" for trace c f h
  unfolding getc_def by (rule char_getter_getc)

interpretation stdin_getc_unlocked: char_getter "as_getter (getc_unlocked trace c f)" "stream_owes h f" for trace c f h
  unfolding getc_unlocked_def by (rule char_getter_getc)

section \<open>The text is ASCII\<close>

lemma ascii_concat: "(\<And>x. x \<in> set xs \<Longrightarrow> ascii (f x)) \<Longrightarrow> ascii (concat (map f xs))"
  by (induction xs) auto

lemma uchar_digit: "n < 10 \<Longrightarrow> uchar (digit n) < 128"
  by (simp only: uchar_int digit_def of_char_of)

lemma ascii_show_nat: "ascii (show_nat n)"
proof (induction n rule: show_nat.induct)
  case (1 n)
  then show ?case by (cases "n < 10") (simp_all add: c_text uchar_digit)
qed

lemma ascii_show_int [simp]: "ascii (show_int i)"
  by (simp add: show_int_def ascii_show_nat uchar_def)

lemma ascii_formula_text: "ascii (formula_text h qs cs)"
  unfolding formula_text_def prefix_text_def
  by (auto simp: header_text_def block_text_def clause_text_def block_end_def uchar_def intro!: ascii_concat)

end
