(* ===== verification/Quapi_Examples.thy ===== *)
theory Quapi_Examples
  imports Quapi_Client Quapi_Inject
begin

text \<open>
  One concrete solver, on which the properties of the development are applied: two
  variables, the first a leading universal one, a clause and room for an assumption.
\<close>

definition demo_header :: quapi_msg_header_data where
  "demo_header = \<lparr>literals = 2, clauses = 3, prefixdepth = 1,
     forked_child_read_pipe_r = 3, forked_child_read_pipe_w = 4,
     forked_child_write_pipe_r = 5, forked_child_write_pipe_w = 6,
     message_to_parent_pipe_r = 7, message_to_parent_pipe_w = 8\<rparr>"

definition demo_junk :: "byte list" where
  "demo_junk = [17, 18, 19, 20]"

definition demo_formula :: formula_state where
  "demo_formula = start_formula\<lparr>fs_asked := [-1, 2], fs_clauses := [[1, -2]]\<rparr>"

definition demo_stream :: "quapi_msg list \<Rightarrow> file_out" where
  "demo_stream ms = \<lparr>fo_buffer = concat (map (frame demo_junk demo_header) ms), fo_pipe = [],
     fo_capacity = 4096, fo_broken = False\<rparr>"

definition demo_reply :: "byte list" where
  "demo_reply = msg_arr demo_junk (MFork_Report 42)"

text \<open>A line that starts with \<open>s SATISFIABLE\<close>, up to the terminator.\<close>

definition demo_sat :: "string \<Rightarrow> bool" where
  "demo_sat l = (take 13 l = ''s SATISFIABLE'')"

definition demo_unsat :: "string \<Rightarrow> bool" where
  "demo_unsat l = (take 15 l = ''s UNSATISFIABLE'')"

definition demo_solver :: "formula_state \<Rightarrow> quapi_state \<Rightarrow> unit quapi_solver" where
  "demo_solver F st =
     \<lparr>config = \<lparr>executable_path = ''solver'', executable_argv = [Some ''solver'', None],
        executable_envp = [Some ''LD_PRELOAD=p.so'', None], header = demo_header,
        SAT_regex = Some ''^s SATISFIABLE'', UNSAT_regex = Some ''^s UNSATISFIABLE''\<rparr>,
      sv_state = st, sv_pid = 41, universal_prefix_depth = universal_depth 1 (fs_asked F),
      write_pipe_stream = demo_stream (main_msgs 1 F), solverchild_write_pipe_stream = demo_stream (child_msgs F),
      written_clauses = int (fs_count F + length (fs_units F)), written_assumptions = int (length (fs_units F)),
      written_quantifier_literals = int (length (fs_asked F)),
      solverchild_pid = 0, stdout_cb = None, stdout_cb_userdata = (), poll_solverchild = True,
      re_SAT = Some demo_sat, re_UNSAT = Some demo_unsat,
      sv_messages = [], sv_output = [], sv_eventfd = 0, sv_killed = [], sv_junk = demo_junk\<rparr>"

lemma demo_header_ok: "header_ok demo_header"
  by (simp add: header_ok_def header_fields_def demo_header_def in32_def)

lemma demo_fields [simp]:
  "sv_header (demo_solver F st) = demo_header" "prefixdepth demo_header = 1" "clauses demo_header = 3"
  "literals demo_header = 2" "sv_state (demo_solver F st) = st" "sv_messages (demo_solver F st) = []"
  "sv_junk (demo_solver F st) = demo_junk" "length demo_junk = 4"
  "written_clauses (demo_solver F st) = int (fs_count F + length (fs_units F))"
  by (simp_all add: demo_solver_def demo_header_def demo_junk_def)

lemma demo_describes:
  assumes "phase_ok st F" "fs_assumptions F = None"
  shows "describes (demo_solver F st) F"
  using assms demo_header_ok
  by (simp add: describes_def counts_ok_def)
    (simp add: demo_solver_def demo_stream_def file_out_holds_def frames_def demo_header_def demo_junk_def)

lemma demo_reports: "reports (sv_messages (demo_solver F st) @ demo_reply) 42 []"
  using reports_frame [of demo_junk 42 "[]"] by (simp add: demo_reply_def in32_def)

lemma demo_phase: "phase_ok QUAPI_INPUT_LITERALS demo_formula"
  by (simp add: phase_ok_def demo_formula_def start_formula_def)

lemmas demo_formula_defs = demo_formula_def start_formula_def fs_units_def fs_count_def

lemma demo_solvable: "solvable demo_formula"
  by (simp add: solvable_def demo_formula_defs lit_ok_def fs_fork_def)

lemma demo_depth: "universal_depth 1 (fs_asked demo_formula) = 0"
  by (simp add: universal_depth_def demo_formula_def eval_nat_numeral)

lemma demo_formula_simps [simp]:
  "fs_units demo_formula = []" "fs_assumptions demo_formula = None" "fs_clause demo_formula = []"
  "fs_batches (fs_fork w demo_formula) = [([[1, -2]], w)]" "fs_count demo_formula = 1"
  by (simp_all add: demo_formula_defs fs_fork_def)

definition demo_text :: string where
  "demo_text = ''p cnf 2 3'' @ [NL] @ ''e 1 2 0'' @ [NL] @ ''1 -2 0'' @ [NL] @ ''1 -1 0'' @ [NL] @ ''1 -1 0'' @ [NL]"

lemma demo_input: "solver_input demo_formula 1 demo_header = demo_text"
  by code_simp

section \<open>A session\<close>

text \<open>
  The calls that describe \<open>demo_formula\<close>, made on any solver that was just started, and an
  environment in which a solver starts.
\<close>

definition demo_calls :: "'u client_call list" where
  "demo_calls = [Quantify (-1), Quantify 2, Add 1, Add (-2), Add 0]"

lemma input_messages:
  "quapi_quantify q s = Ret (r, s') \<Longrightarrow> sv_messages s' = sv_messages s"
  "quapi_add l s = Ret (r, s') \<Longrightarrow> sv_messages s' = sv_messages s"
  by (auto simp: quapi_quantify_def quapi_add_def write_main_def bind_outcome_Ret_iff Let_def split: if_splits)

lemma demo_quantify:
  assumes start: "describes (s0 :: 'u quapi_solver) start_formula" and "session s0 start_formula cs s F" "sv_state s = QUAPI_INPUT" "sv_messages s = []"
    and "lit_ok q" "q \<noteq> 0" "int (length (fs_asked F)) < 2 ^ 31 - 1"
  shows "\<exists>s'. session s0 start_formula (cs @ [Quantify q]) s' (fs_quantify q F)
    \<and> sv_state s' = QUAPI_INPUT \<and> sv_messages s' = []"
proof -
  have d: "describes s F" using session_describes [OF assms(2) start] by simp
  from quapi_quantify_describes [OF d assms(3,5-7)] obtain s'
    where s': "quapi_quantify q s = Ret ((), s')" "sv_state s' = QUAPI_INPUT" by blast
  have "session s0 start_formula (cs @ [Quantify q]) s' (fs_call (waits s) (Quantify q :: 'u client_call) F)"
    by (rule session_call [OF assms(2)]) (use assms s' in simp_all)
  with s' input_messages(1) [OF s'(1)] assms(4) show ?thesis by auto
qed

lemma demo_add:
  assumes start: "describes (s0 :: 'u quapi_solver) start_formula" and "session s0 start_formula cs s F" "sv_messages s = []"
    and "fs_assumptions F = None" "int (fs_count F) < 2 ^ 31 - 1"
  shows "\<exists>s'. session s0 start_formula (cs @ [Add l]) s' (fs_add l F) \<and> sv_messages s' = []"
proof -
  have d: "describes s F" using session_describes [OF assms(2) start] by simp
  from quapi_add_describes [OF d assms(4,5)] obtain s' where s': "quapi_add l s = Ret ((), s')" by blast
  have "session s0 start_formula (cs @ [Add l]) s' (fs_call (waits s) (Add l :: 'u client_call) F)"
    by (rule session_call [OF assms(2)]) (use assms s' in simp_all)
  with input_messages(2) [OF s'] assms(3) show ?thesis by auto
qed

lemma demo_session:
  assumes start: "describes (s0 :: 'u quapi_solver) start_formula" and st: "sv_state s0 = QUAPI_INPUT" "sv_messages s0 = []"
  shows "\<exists>s. session s0 start_formula demo_calls s demo_formula \<and> sv_messages s = []"
proof -
  have "session s0 start_formula [] s0 start_formula" by (rule session_start)
  then obtain s1 where s1: "session s0 start_formula [Quantify (-1)] s1 (fs_quantify (-1) start_formula)"
    "sv_state s1 = QUAPI_INPUT" "sv_messages s1 = []"
    using demo_quantify [OF start, of "[]" s0 start_formula "-1"] st by (auto simp: lit_ok_def start_formula_def)
  from demo_quantify [OF start s1, of 2] obtain s2
    where s2: "session s0 start_formula [Quantify (-1), Quantify 2] s2 (fs_quantify 2 (fs_quantify (-1) start_formula))"
      "sv_messages s2 = []" by (auto simp: lit_ok_def start_formula_def fs_quantify_def)
  let ?F = "fs_quantify 2 (fs_quantify (-1) start_formula)"
  note defs = fs_quantify_def fs_add_def start_formula_def fs_count_def
  from demo_add [OF start s2, of 1] obtain s3
    where s3: "session s0 start_formula [Quantify (-1), Quantify 2, Add 1] s3 (fs_add 1 ?F)"
      "sv_messages s3 = []" by (auto simp: defs)
  from demo_add [OF start s3, of "-2"] obtain s4
    where s4: "session s0 start_formula [Quantify (-1), Quantify 2, Add 1, Add (-2)] s4 (fs_add (-2) (fs_add 1 ?F))"
      "sv_messages s4 = []" by (auto simp: defs)
  from demo_add [OF start s4, of 0] obtain s5
    where s5: "session s0 start_formula demo_calls s5 (fs_add 0 (fs_add (-2) (fs_add 1 ?F)))"
      "sv_messages s5 = []" by (auto simp: defs demo_calls_def)
  have "fs_add 0 (fs_add (-2) (fs_add 1 ?F)) = demo_formula" by (simp add: defs demo_formula_def)
  with s5 show ?thesis by auto
qed

definition demo_env :: init_env where
  "demo_env = \<lparr>env_preload_path = Some ''p.so'', env_file_exists = (\<lambda>f. f = ''p.so''), env_self_exe = None,
     env_environ = c_array [''HOME=h''], env_pcre2_compile = (\<lambda>r. Some demo_sat),
     env_eventfd_ok = True, env_fcntl_ok = True, env_fork = 41, env_pipes = [3, 4, 5, 6, 7, 8],
     env_stdio_size = 4096, env_reply = msg_arr demo_junk (MStarted 3), env_memory = demo_junk,
     env_memory_pid = 0\<rparr>"

lemma demo_starts: "starts demo_env 1 None None"
  by (simp add: starts_def demo_env_def get_preload_so_path_def found_def in32_def demo_junk_def)

lemma demo_environ: "env_environ demo_env = c_array [''HOME=h'']"
  by (simp add: demo_env_def)

lemma demo_started: "quapi_read_msg_from_fd (env_reply demo_env) = Ret (Some (Some (MStarted 3)), [])"
  using quapi_read_msg_from_fd_msg [of demo_junk "MStarted 3" "[]"] by (simp add: demo_env_def in32_def)

lemma demo_range: "in32 2" "in32 1"
  by (simp_all add: in32_def)

lemma demo_init:
  "\<exists>s0 s. quapi_init demo_env (Some ''solver'') (Some (c_array [])) None 2 1 1 None None () = Ret (Some s0)
    \<and> session s0 start_formula demo_calls s demo_formula"
proof -
  from quapi_init_describes [OF demo_starts demo_range(1,2) demo_range(2) demo_environ demo_started, of "''solver''" "[]" "()"]
  obtain s0 :: "unit quapi_solver"
    where s0: "quapi_init demo_env (Some ''solver'') (Some (c_array [])) None 2 1 1 None None () = Ret (Some s0)"
      and d: "describes s0 start_formula" "sv_state s0 = QUAPI_INPUT" "sv_messages s0 = []" by blast
  from demo_session [OF d] s0 show ?thesis by blast
qed

section \<open>A preloaded process\<close>

lemma demo_delivers: "\<exists>rt. delivers demo_header rt demo_text"
proof -
  have u: "universal_depth (prefixdepth (sv_header (demo_solver demo_formula QUAPI_INPUT_LITERALS)))
      (fs_asked demo_formula) \<le> int (length (fs_units demo_formula)) \<or> False"
    by (simp add: demo_depth)
  from quapi_solve_delivers [OF demo_describes [OF demo_phase] demo_solvable demo_reports u, of "[]"]
  show ?thesis by (auto simp: parents_def demo_input)
qed

text \<open>A C library that has nothing, and a process on a runtime.\<close>

definition demo_libc :: "unit libc" where
  "demo_libc = \<lparr>c_fopen = (\<lambda>path mode w. (None, w)), c_fclose = (\<lambda>f w. (-1, w)), c_fgetc = (\<lambda>f w. (-1, w)),
     c_fgetc_unlocked = (\<lambda>f w. (-1, w)), c_getc = (\<lambda>f w. (-1, w)), c_getc_unlocked = (\<lambda>f w. (-1, w)),
     c_read = (\<lambda>fd buf w. ((0, buf), w)), c_fread = (\<lambda>sz f buf w. ((0, buf), w)),
     c_gzdopen = (\<lambda>fd mode w. (Gz_Null, w)), c_gzread = (\<lambda>f buf w. ((0, buf), w)),
     c_gzclose = (\<lambda>f w. (0, w))\<rparr>"

definition demo_process :: "quapi_runtime \<Rightarrow> unit preload" where
  "demo_process rt = \<lparr>pl_runtime = rt, pl_stdin = fresh_file, pl_mock = None, quapi_gzFile_stdin = Gz_Stdin,
     quapi_runtime_read_detected = False, quapi_runtime_initiated = True, pl_ld_preload = True, pl_world = ()\<rparr>"

lemma demo_process_runtime [simp]: "pl_runtime (demo_process rt) = rt"
  by (simp add: demo_process_def)

lemma demo_text_ascii: "ascii demo_text"
  unfolding demo_input [symmetric] solver_input_def by (rule ascii_formula_text)

lemma demo_stream_owes:
  "delivers demo_header rt demo_text \<Longrightarrow> stream_owes demo_header Default_Stdin (demo_process rt) demo_text"
  by (simp add: stream_owes_def file_owes_def demo_process_def fresh_file_def file_ok_def file_part_def
      demo_text_ascii)

section \<open>A solver without patterns\<close>

definition demo_plain :: "formula_state \<Rightarrow> quapi_state \<Rightarrow> unit quapi_solver" where
  "demo_plain F st = (demo_solver F st)\<lparr>config := (config (demo_solver F st))\<lparr>SAT_regex := None, UNSAT_regex := None\<rparr>,
     poll_solverchild := False, re_SAT := None, re_UNSAT := None\<rparr>"

lemma demo_plain_describes: "phase_ok st F \<Longrightarrow> fs_assumptions F = None \<Longrightarrow> describes (demo_plain F st) F"
  using demo_describes [of st F] by (simp add: describes_def counts_ok_def frames_def demo_plain_def)

definition demo_parent :: quapi_runtime where
  "demo_parent = global_runtime [] [Fork_Parent 77 (Wait_Exited 10)]"

text \<open>The demo formula with an assumption that waits for a solve.\<close>

definition demo_assumed :: formula_state where
  "demo_assumed = demo_formula\<lparr>fs_batches := [([[1, -2]], False)], fs_clauses := [], fs_assumptions := Some [1]\<rparr>"

lemma demo_assumed_simps [simp]:
  "fs_units demo_assumed = [1]" "fs_assumptions demo_assumed = Some [1]" "fs_clause demo_assumed = []"
  "fs_count demo_assumed = 1" "fs_batches demo_assumed = [([[1, -2]], False)]" "fs_asked demo_assumed = [-1, 2]"
  "fs_earlier demo_assumed = []"
  by (simp_all add: demo_assumed_def demo_formula_defs)

text \<open>Its solver has passed everything before the request to fork on, and nothing to the child.\<close>

definition demo_assuming :: "unit quapi_solver" where
  "demo_assuming = (demo_solver demo_assumed QUAPI_INPUT_ASSUMPTIONS)
     \<lparr>write_pipe_stream := file_flush (demo_stream (main_msgs 1 demo_assumed))\<rparr>"

lemma demo_assuming_describes: "describes demo_assuming demo_assumed"
  using demo_header_ok
  by (simp add: describes_def counts_ok_def phase_ok_def)
    (simp add: demo_assuming_def demo_solver_def demo_stream_def file_out_holds_def file_out_arrived_def file_flush_def
      frames_def demo_header_def demo_junk_def)

lemma demo_assuming_fields:
  "sv_header demo_assuming = demo_header" "sv_messages demo_assuming = []"
  "fo_pipe (solverchild_write_pipe_stream demo_assuming) = []"
  by (simp_all add: demo_assuming_def) (simp add: demo_solver_def demo_stream_def)

lemma demo_assumed_solvable: "solvable demo_assumed"
  by (simp add: solvable_def lit_ok_def fs_fork_def) (simp add: demo_assumed_def demo_formula_defs)

end
