(* ===== verification/Quapi_Files.thy ===== *)
theory Quapi_Files
  imports Quapi_Inject "HOL-Library.Sublist"
begin

text \<open>
  The files of the tool Quapify: \<open>utilities.c\<close> and \<open>file.c\<close>. A formula is read from a plain file, or
  through a decompressing program when its name ends like a compressed file, its first bytes
  are those of such a file and the program is on the search path.

  The operating system is the record \<open>file_env\<close>: what \<open>stat\<close> and \<open>access\<close> say of a path, the
  bytes of a file that \<open>fopen\<close> can read, the search path, and the output of a command that
  \<open>popen\<close> could start. An allocation never fails. \<open>_POSIX_C_SOURCE\<close> is defined, as the
  compiler does by default.
\<close>

section \<open>Suffixes\<close>

text \<open>The two pointers walk from the ends; the reversed strings are what is before them.\<close>

fun has_suffix_loop :: "string \<Rightarrow> string \<Rightarrow> bool" where
  "has_suffix_loop (p # ps) (q # qs) = (if p \<noteq> q then False else has_suffix_loop ps qs)"
| "has_suffix_loop ps qs = (qs = [])"

definition kissat_has_suffix :: "string \<Rightarrow> string \<Rightarrow> bool" where
  "kissat_has_suffix str sfx = has_suffix_loop (rev str) (rev sfx)"

lemma has_suffix_loop: "has_suffix_loop ps qs \<longleftrightarrow> prefix qs ps"
  by (induction ps qs rule: has_suffix_loop.induct) auto

lemma kissat_has_suffix: "kissat_has_suffix str sfx \<longleftrightarrow> suffix sfx str"
  by (simp add: kissat_has_suffix_def has_suffix_loop suffix_to_prefix)

section \<open>The file system\<close>

datatype stat_result = Stat_Failed int | Stat_Directory nat | Stat_File nat

record file_env =
  fe_stat :: "string \<Rightarrow> stat_result"
  fe_access_r :: "string \<Rightarrow> bool"
  fe_access_w :: "string \<Rightarrow> bool"
  fe_content :: "string \<Rightarrow> string option"      \<comment> \<open>of \<open>fopen(path, "r")\<close>\<close>
  fe_creates :: "string \<Rightarrow> bool"               \<comment> \<open>\<open>fopen(path, "w")\<close> succeeds\<close>
  fe_unlinks :: "string \<Rightarrow> bool"               \<comment> \<open>\<open>unlink(path)\<close> succeeds\<close>
  fe_PATH :: "string option"
  fe_popen :: "string \<Rightarrow> string option"        \<comment> \<open>the output of a command\<close>

definition ENOENT :: int where "ENOENT = 2"

definition stat_ok :: "file_env \<Rightarrow> string \<Rightarrow> bool" where
  "stat_ok e path = (case fe_stat e path of Stat_Failed n \<Rightarrow> False | _ \<Rightarrow> True)"

definition kissat_file_exists :: "file_env \<Rightarrow> string option \<Rightarrow> bool" where
  "kissat_file_exists e path = (case path of None \<Rightarrow> False | Some p \<Rightarrow> stat_ok e p)"

definition kissat_file_readable :: "file_env \<Rightarrow> string option \<Rightarrow> bool" where
  "kissat_file_readable e path =
     (case path of None \<Rightarrow> False | Some p \<Rightarrow> if \<not> stat_ok e p then False else fe_access_r e p)"

definition kissat_file_size :: "file_env \<Rightarrow> string \<Rightarrow> nat" where
  "kissat_file_size e path =
     (case fe_stat e path of Stat_Failed n \<Rightarrow> 0 | Stat_Directory n \<Rightarrow> n | Stat_File n \<Rightarrow> n)"

abbreviation SLASH :: char where "SLASH \<equiv> CHR 0x2F"
abbreviation COLON :: char where "COLON \<equiv> CHR 0x3A"

text \<open>\<open>strrchr\<close>: the position of the last occurrence.\<close>

definition strrchr :: "string \<Rightarrow> char \<Rightarrow> nat option" where
  "strrchr s c = (if c \<in> set s then Some (length s - 1 - length (takeWhile (\<lambda>x. x \<noteq> c) (rev s))) else None)"

text \<open>The numbered reasons of \<open>kissat_file_writable\<close>; 0 is writable.\<close>

definition writable_result :: "file_env \<Rightarrow> string option \<Rightarrow> int" where
  "writable_result e path =
     (case path of
        None \<Rightarrow> 1
      | Some p \<Rightarrow>
          if p = ''/dev/null'' then 0
          else if p = [] then 2
          else
            (case strrchr p SLASH of
               None \<Rightarrow>
                 (case fe_stat e p of
                    Stat_Failed n \<Rightarrow> if n = ENOENT then 0 else -2
                  | Stat_Directory sz \<Rightarrow> 3
                  | Stat_File sz \<Rightarrow> if fe_access_w e p then 0 else 4)
             | Some i \<Rightarrow>
                 if i + 1 = length p then 5
                 else
                   (let dirname = take i p in
                    case fe_stat e dirname of
                      Stat_Failed n \<Rightarrow> 6
                    | Stat_File sz \<Rightarrow> 7
                    | Stat_Directory sz \<Rightarrow>
                        if \<not> fe_access_w e dirname then 8
                        else
                          (case fe_stat e p of
                             Stat_Failed n \<Rightarrow> if n = ENOENT then 0 else -3
                           | _ \<Rightarrow> if fe_access_w e p then 0 else 9))))"

definition kissat_file_writable :: "file_env \<Rightarrow> string option \<Rightarrow> bool" where
  "kissat_file_writable e path = (writable_result e path = 0)"

lemma stat_ok_simps [simp]:
  "stat_ok e p \<longleftrightarrow> (\<forall>n. fe_stat e p \<noteq> Stat_Failed n)"
  by (simp add: stat_ok_def split: stat_result.splits)

section \<open>Executables\<close>

text \<open>The search path from the position \<open>dir\<close> on; a path ends with the last of its directories.\<close>

function find_in_dirs :: "file_env \<Rightarrow> string \<Rightarrow> string \<Rightarrow> bool" where
  "find_in_dirs e name dirs =
     (let dir = takeWhile (\<lambda>c. c \<noteq> COLON) dirs; q = dropWhile (\<lambda>c. c \<noteq> COLON) dirs in
      if kissat_file_readable e (Some (dir @ [SLASH] @ name)) then True
      else if q = [] then False else find_in_dirs e name (tl q))"
  by pat_completeness auto
termination
proof (relation "measure (\<lambda>(e, name, dirs). length dirs)")
  fix e :: file_env and name dirs x xa
  assume "xa = dropWhile (\<lambda>c. c \<noteq> COLON) dirs" "xa \<noteq> []"
  then have "length xa \<le> length dirs" "0 < length xa" by (simp_all add: length_dropWhile_le)
  then have "length (tl xa) < length dirs" unfolding length_tl by linarith
  then show "((e, name, tl xa), e, name, dirs) \<in> measure (\<lambda>(e, name, dirs). length dirs)" by simp
qed simp

declare find_in_dirs.simps [simp del]

definition kissat_find_executable :: "file_env \<Rightarrow> string \<Rightarrow> bool" where
  "kissat_find_executable e name =
     (case fe_PATH e of None \<Rightarrow> False | Some environment \<Rightarrow> find_in_dirs e name environment)"

text \<open>A search path is its directories with colons between them, empty ones included.\<close>

fun search_path :: "string list \<Rightarrow> string" where
  "search_path [] = []"
| "search_path [d] = d"
| "search_path (d # ds) = d @ COLON # search_path ds"

lemma search_path_Cons: "ds \<noteq> [] \<Longrightarrow> search_path (d # ds) = d @ COLON # search_path ds"
  by (cases ds) simp_all

lemma until_colon:
  assumes "COLON \<notin> set d"
  shows "takeWhile (\<lambda>c. c \<noteq> COLON) (d @ COLON # x) = d" "dropWhile (\<lambda>c. c \<noteq> COLON) (d @ COLON # x) = COLON # x"
    and "takeWhile (\<lambda>c. c \<noteq> COLON) d = d" "dropWhile (\<lambda>c. c \<noteq> COLON) d = []"
  using assms by (induction d) auto

lemma find_in_dirs_search_path:
  assumes "\<forall>d \<in> set ds. COLON \<notin> set d" "ds \<noteq> []"
  shows "find_in_dirs e name (search_path ds)
    \<longleftrightarrow> (\<exists>d \<in> set ds. kissat_file_readable e (Some (d @ [SLASH] @ name)))"
  using assms
proof (induction ds)
  case (Cons d ds)
  then have d: "COLON \<notin> set d" by simp
  show ?case
  proof (cases "ds = []")
    case True
    then show ?thesis by (subst find_in_dirs.simps) (simp add: until_colon(3,4) [OF d] Let_def)
  next
    case False
    with Cons show ?thesis
      by (subst find_in_dirs.simps) (simp add: search_path_Cons until_colon(1,2) [OF d] Let_def)
  qed
qed simp

section \<open>Compressed files\<close>

text \<open>The first bytes of the kinds of compressed files, ended by \<open>EOF\<close>.\<close>

definition bz2sig :: "int list" where "bz2sig = [0x42, 0x5A, 0x68, c_EOF]"
definition gzsig :: "int list" where "gzsig = [0x1F, 0x8B, c_EOF]"
definition lzmasig :: "int list" where "lzmasig = [0x5D, 0x00, 0x00, 0x80, 0x00, c_EOF]"
definition sig7z :: "int list" where "sig7z = [0x37, 0x7A, 0xBC, 0xAF, 0x27, 0x1C, c_EOF]"
definition xzsig :: "int list" where "xzsig = [0xFD, 0x37, 0x7A, 0x58, 0x5A, 0x00, 0x00, c_EOF]"

text \<open>The loop of \<open>match_signature\<close>; \<open>getc\<close> gives \<open>EOF\<close> at the end of the file.\<close>

fun match_bytes :: "int list \<Rightarrow> string \<Rightarrow> bool outcome" where
  "match_bytes [] cs = Undefined_Behaviour"
| "match_bytes (p # ps) cs =
     (if p = c_EOF then Ret True
      else
        (let ch = (case cs of [] \<Rightarrow> c_EOF | c # _ \<Rightarrow> uchar c) in
         if ch \<noteq> p then Ret False else match_bytes ps (tl cs)))"

definition match_signature :: "file_env \<Rightarrow> string \<Rightarrow> int list \<Rightarrow> bool outcome" where
  "match_signature e path sig =
     (case fe_content e path of None \<Rightarrow> Ret False | Some cs \<Rightarrow> match_bytes sig cs)"

text \<open>
  \<open>kissat_looks_like_a_compressed_file\<close>, which is there when the program is compiled without
  \<open>_POSIX_C_SOURCE\<close>.
\<close>

fun looks_compressed :: "file_env \<Rightarrow> (string \<times> int list) list \<Rightarrow> string \<Rightarrow> bool outcome" where
  "looks_compressed e [] path = Ret False"
| "looks_compressed e ((sfx, sig) # ps) path =
     (if kissat_has_suffix path sfx then
        bind_outcome (match_signature e path sig)
          (\<lambda>matches. if matches then Ret True else looks_compressed e ps path)
      else looks_compressed e ps path)"

definition kissat_looks_like_a_compressed_file :: "file_env \<Rightarrow> string \<Rightarrow> bool outcome" where
  "kissat_looks_like_a_compressed_file e path =
     looks_compressed e [(''.bz2'', bz2sig), (''.gz'', gzsig), (''.lzma'', lzmasig), (''.7z'', sig7z), (''.xz'', xzsig)] path"

definition sprintf_path :: "string \<Rightarrow> string \<Rightarrow> string" where
  "sprintf_path fmt path =
     takeWhile (\<lambda>c. c \<noteq> CHR ''%'') fmt @ path @ drop 2 (dropWhile (\<lambda>c. c \<noteq> CHR ''%'') fmt)"

text \<open>
  \<open>open_pipe\<close>, with the command that was started as its result; the command and its terminator
  have to fit into the memory allocated for them.
\<close>

definition open_pipe :: "file_env \<Rightarrow> (string \<Rightarrow> bool) \<Rightarrow> string \<Rightarrow> string \<Rightarrow> string option outcome" where
  "open_pipe e starts fmt path =
     (let name = takeWhile (\<lambda>c. c \<noteq> SPC) fmt in
      if \<not> kissat_find_executable e name then Ret None
      else
        (let cmd = sprintf_path fmt path in
         if length fmt + length path < length cmd + 1 then Undefined_Behaviour
         else Ret (if starts cmd then Some cmd else None)))"

definition read_pipe :: "file_env \<Rightarrow> string \<Rightarrow> int list \<Rightarrow> string \<Rightarrow> string option outcome" where
  "read_pipe e fmt sig path =
     (if \<not> kissat_file_readable e (Some path) then Ret None
      else
        bind_outcome (match_signature e path sig)
          (\<lambda>matches. if \<not> matches then Ret None
             else open_pipe e (\<lambda>cmd. fe_popen e cmd \<noteq> None) fmt path))"

definition write_pipe :: "file_env \<Rightarrow> string \<Rightarrow> string \<Rightarrow> string option outcome" where
  "write_pipe e fmt path = open_pipe e (\<lambda>cmd. fe_popen e cmd \<noteq> None) fmt path"

section \<open>Opening, reading and closing\<close>

text \<open>A stream with the characters that are left to read; a null pointer is \<open>None\<close>.\<close>

datatype kissat_stream = Given_Stream | Plain_Stream | Pipe_Stream string

record kissat_file =
  kf_file :: "(kissat_stream \<times> string) option"
  kf_close :: bool
  kf_reading :: bool
  kf_compressed :: bool
  kf_path :: string
  kf_bytes :: nat

definition kissat_read_already_open_file :: "string \<Rightarrow> string \<Rightarrow> kissat_file" where
  "kissat_read_already_open_file cs path =
     \<lparr>kf_file = Some (Given_Stream, cs), kf_close = False, kf_reading = True, kf_compressed = False,
      kf_path = path, kf_bytes = 0\<rparr>"

definition kissat_write_already_open_file :: "string \<Rightarrow> kissat_file" where
  "kissat_write_already_open_file path =
     \<lparr>kf_file = Some (Given_Stream, []), kf_close = False, kf_reading = False, kf_compressed = False,
      kf_path = path, kf_bytes = 0\<rparr>"

text \<open>The lines \<open>READ_PIPE\<close> and \<open>WRITE_PIPE\<close>.\<close>

definition read_commands :: "(string \<times> string \<times> int list) list" where
  "read_commands =
     [(''.bz2'', ''bzip2 -c -d %s'', bz2sig), (''.gz'', ''gzip -c -d %s'', gzsig),
      (''.lzma'', ''lzma -c -d %s'', lzmasig), (''.7z'', ''7z x -so %s 2>/dev/null'', sig7z),
      (''.xz'', ''xz -c -d %s'', xzsig)]"

definition write_commands :: "(string \<times> string) list" where
  "write_commands =
     [(''.bz2'', ''bzip2 -c > %s''), (''.gz'', ''gzip -c > %s''), (''.lzma'', ''lzma -c > %s''),
      (''.7z'', ''7z a -si %s 2>/dev/null''), (''.xz'', ''xz -c > %s'')]"

fun read_pipes :: "file_env \<Rightarrow> (string \<times> string \<times> int list) list \<Rightarrow> string \<Rightarrow> string option outcome" where
  "read_pipes e [] path = Ret None"
| "read_pipes e ((sfx, fmt, sig) # ps) path =
     (if kissat_has_suffix path sfx then
        bind_outcome (read_pipe e fmt sig path)
          (\<lambda>r. case r of None \<Rightarrow> read_pipes e ps path | Some cmd \<Rightarrow> Ret (Some cmd))
      else read_pipes e ps path)"

definition kissat_open_to_read_file :: "file_env \<Rightarrow> string \<Rightarrow> kissat_file option outcome" where
  "kissat_open_to_read_file e path =
     bind_outcome (read_pipes e read_commands path)
       (\<lambda>r. case r of
          Some cmd \<Rightarrow>
            Ret (Some \<lparr>kf_file = Some (Pipe_Stream cmd, the (fe_popen e cmd)), kf_close = True, kf_reading = True,
                 kf_compressed = True, kf_path = path, kf_bytes = 0\<rparr>)
        | None \<Rightarrow>
            (case fe_content e path of
               None \<Rightarrow> Ret None
             | Some cs \<Rightarrow>
                 Ret (Some \<lparr>kf_file = Some (Plain_Stream, cs), kf_close = True, kf_reading = True,
                      kf_compressed = False, kf_path = path, kf_bytes = 0\<rparr>)))"

text \<open>
  The first suffix that fits decides. A readable \<open>.7z\<close> file is removed before it is written
  again; the result tells whether it was.
\<close>

definition written_file :: "kissat_stream \<Rightarrow> string \<Rightarrow> kissat_file" where
  "written_file st path =
     \<lparr>kf_file = Some (st, []), kf_close = True, kf_reading = False, kf_compressed = (st \<noteq> Plain_Stream),
      kf_path = path, kf_bytes = 0\<rparr>"

definition kissat_open_to_write_file :: "file_env \<Rightarrow> string \<Rightarrow> (bool \<times> kissat_file option) outcome" where
  "kissat_open_to_write_file e path =
     (case find (\<lambda>(sfx, fmt). kissat_has_suffix path sfx) write_commands of
        Some (sfx, fmt) \<Rightarrow>
          (let remove = (sfx ! 1 = CHR ''7'' \<and> kissat_file_readable e (Some path)) in
           if remove \<and> \<not> fe_unlinks e path then Ret (False, None)
           else
             bind_outcome (write_pipe e fmt path)
               (\<lambda>r. Ret (remove, map_option (\<lambda>cmd. written_file (Pipe_Stream cmd) path) r)))
      | None \<Rightarrow> Ret (False, if fe_creates e path then Some (written_file Plain_Stream path) else None))"

definition kissat_getc :: "kissat_file \<Rightarrow> (int \<times> kissat_file) outcome" where
  "kissat_getc f =
     (case kf_file f of
        None \<Rightarrow> Assert_Failed
      | Some (st, cs) \<Rightarrow>
          if \<not> kf_reading f then Assert_Failed
          else
            (case cs of
               [] \<Rightarrow> Ret (c_EOF, f)
             | c # cs' \<Rightarrow>
                 Ret (uchar c, f\<lparr>kf_file := Some (st, cs'), kf_bytes := (kf_bytes f + 1) mod 2 ^ 64\<rparr>)))"

text \<open>
  \<open>kissat_putc\<close>; a file that is written has the characters that were put. \<open>ok\<close> is whether the
  stream takes the character, which the result does not tell.
\<close>

definition kissat_putc :: "bool \<Rightarrow> kissat_file \<Rightarrow> int \<Rightarrow> (int \<times> kissat_file) outcome" where
  "kissat_putc ok f ch =
     (case kf_file f of
        None \<Rightarrow> Assert_Failed
      | Some (st, cs) \<Rightarrow>
          if kf_reading f then Assert_Failed
          else if \<not> ok then Ret (ch, f)
          else Ret (ch, f\<lparr>kf_file := Some (st, cs @ [char_of ch]), kf_bytes := (kf_bytes f + 1) mod 2 ^ 64\<rparr>))"

fun put_all :: "string \<Rightarrow> kissat_file \<Rightarrow> kissat_file outcome" where
  "put_all [] f = Ret f"
| "put_all (c # cs) f = bind_outcome (kissat_putc True f (uchar c)) (\<lambda>(ch, f'). put_all cs f')"

lemma put_all_text:
  "kf_file f = Some (st, cs) \<Longrightarrow> \<not> kf_reading f \<Longrightarrow> kf_bytes f < 2 ^ 64 \<Longrightarrow>
   put_all t f = Ret (f\<lparr>kf_file := Some (st, cs @ t), kf_bytes := (kf_bytes f + length t) mod 2 ^ 64\<rparr>)"
proof (induction t arbitrary: f cs)
  case Nil
  then show ?case by simp
next
  case (Cons c t)
  let ?f = "f\<lparr>kf_file := Some (st, cs @ [c]), kf_bytes := (kf_bytes f + 1) mod 2 ^ 64\<rparr>"
  have "put_all (c # t) f = put_all t ?f" using Cons.prems by (simp add: kissat_putc_def)
  also have "\<dots> = Ret (?f\<lparr>kf_file := Some (st, (cs @ [c]) @ t), kf_bytes := (kf_bytes ?f + length t) mod 2 ^ 64\<rparr>)"
    by (rule Cons.IH) (use Cons.prems in simp_all)
  finally show ?case by (simp add: mod_simps)
qed

datatype close_call = Pclose | Fclose

definition kissat_close_file :: "kissat_file \<Rightarrow> (close_call list \<times> kissat_file) outcome" where
  "kissat_close_file f =
     (if kf_file f = None then Assert_Failed
      else Ret ((if kf_close f \<and> kf_compressed f then [Pclose] else [])
                @ (if kf_close f \<and> \<not> kf_compressed f then [Fclose] else []), f\<lparr>kf_file := None\<rparr>))"

section \<open>What is opened\<close>

text \<open>A signature as the characters a file has to start with.\<close>

definition magic :: "int list \<Rightarrow> string" where
  "magic sig = map char_of (butlast sig)"

definition sig_ok :: "int list \<Rightarrow> bool" where
  "sig_ok sig \<longleftrightarrow> sig = map uchar (magic sig) @ [c_EOF]"

lemma match_bytes_magic: "match_bytes (map uchar m @ [c_EOF]) cs = Ret (prefix m cs)"
proof (induction m arbitrary: cs)
  case (Cons c m)
  have "uchar c \<noteq> c_EOF" for c using uchar_nonneg [of c] by (simp add: c_EOF_def)
  moreover have "uchar a = uchar c \<longleftrightarrow> a = c" for a using char_of_uchar by metis
  ultimately show ?case using Cons by (cases cs) (auto dest: sym)
qed simp

lemma match_signature_magic:
  assumes "sig_ok sig"
  shows "match_signature e path sig =
    Ret (case fe_content e path of None \<Rightarrow> False | Some cs \<Rightarrow> prefix (magic sig) cs)"
proof -
  have "match_bytes sig cs = Ret (prefix (magic sig) cs)" for cs
    using match_bytes_magic [of "magic sig" cs] assms by (simp only: sig_ok_def)
  then show ?thesis by (simp add: match_signature_def split: option.splits)
qed

text \<open>A format with one place for the path: the command fits into its memory.\<close>

definition fmt_ok :: "string \<Rightarrow> bool" where
  "fmt_ok fmt \<longleftrightarrow> 2 \<le> length (dropWhile (\<lambda>c. c \<noteq> CHR ''%'') fmt)"

lemma length_sprintf_path:
  assumes "fmt_ok fmt"
  shows "length (sprintf_path fmt path) + 2 = length fmt + length path"
proof -
  have "length (takeWhile (\<lambda>c. c \<noteq> CHR ''%'') fmt) + length (dropWhile (\<lambda>c. c \<noteq> CHR ''%'') fmt) = length fmt"
    by (metis length_append takeWhile_dropWhile_id)
  with assms show ?thesis by (simp add: sprintf_path_def fmt_ok_def)
qed

definition program_of :: "string \<Rightarrow> string" where
  "program_of fmt = takeWhile (\<lambda>c. c \<noteq> SPC) fmt"

lemma open_pipe_fits:
  "fmt_ok fmt \<Longrightarrow> open_pipe e starts fmt path =
     Ret (if kissat_find_executable e (program_of fmt) \<and> starts (sprintf_path fmt path)
          then Some (sprintf_path fmt path) else None)"
  using length_sprintf_path [of fmt path] by (auto simp: open_pipe_def program_of_def Let_def)

text \<open>When a file is read as a compressed file of one of the kinds.\<close>

definition compressed_as :: "file_env \<Rightarrow> string \<Rightarrow> string \<times> string \<times> int list \<Rightarrow> bool" where
  "compressed_as e path = (\<lambda>(sfx, fmt, sig). suffix sfx path \<and> kissat_file_readable e (Some path)
     \<and> (case fe_content e path of None \<Rightarrow> False | Some cs \<Rightarrow> prefix (magic sig) cs)
     \<and> kissat_find_executable e (program_of fmt) \<and> fe_popen e (sprintf_path fmt path) \<noteq> None)"

lemma read_pipe_compressed:
  assumes "fmt_ok fmt" "sig_ok sig" "kissat_has_suffix path sfx"
  shows "read_pipe e fmt sig path = Ret (if compressed_as e path (sfx, fmt, sig) then Some (sprintf_path fmt path) else None)"
  using assms(3)
  by (simp add: read_pipe_def match_signature_magic [OF assms(2)] open_pipe_fits [OF assms(1)] compressed_as_def
      kissat_has_suffix del: stat_ok_simps)

lemma read_pipes_find:
  assumes "\<forall>(sfx, fmt, sig) \<in> set ps. fmt_ok fmt \<and> sig_ok sig"
  shows "read_pipes e ps path = Ret (map_option (\<lambda>(sfx, fmt, sig). sprintf_path fmt path) (find (compressed_as e path) ps))"
  using assms
proof (induction ps)
  case (Cons p ps)
  obtain sfx fmt sig where p: "p = (sfx, fmt, sig)" by (cases p)
  show ?case
  proof (cases "kissat_has_suffix path sfx")
    case True
    then show ?thesis using Cons read_pipe_compressed [of fmt sig path sfx e] by (simp add: p)
  next
    case False
    then have "\<not> compressed_as e path p" by (simp add: p compressed_as_def kissat_has_suffix)
    with False Cons show ?thesis by (simp add: p)
  qed
qed simp

lemma read_commands_ok: "\<forall>(sfx, fmt, sig) \<in> set read_commands. fmt_ok fmt \<and> sig_ok sig"
  by code_simp

section \<open>Reading characters\<close>

text \<open>An open file is a source of characters as the functions of the C library are.\<close>

definition as_kissat_getter :: "kissat_file \<Rightarrow> (int \<times> kissat_file) option" where
  "as_kissat_getter f = (case kissat_getc f of Ret r \<Rightarrow> Some r | _ \<Rightarrow> None)"

definition kissat_owes :: "kissat_file \<Rightarrow> string \<Rightarrow> bool" where
  "kissat_owes f t \<longleftrightarrow> kf_reading f \<and> (\<exists>st. kf_file f = Some (st, t))"

interpretation kissat_reader: char_getter as_kissat_getter kissat_owes
  by unfold_locales (auto simp: as_kissat_getter_def kissat_getc_def kissat_owes_def)

text \<open>The text the tool parses when it opens \<open>path\<close>.\<close>

definition file_text :: "file_env \<Rightarrow> string \<Rightarrow> string option" where
  "file_text e path =
     (case find (compressed_as e path) read_commands of
        Some (sfx, fmt, sig) \<Rightarrow> fe_popen e (sprintf_path fmt path)
      | None \<Rightarrow> fe_content e path)"

lemma open_file_text:
  "(case file_text e path of
      None \<Rightarrow> kissat_open_to_read_file e path = Ret None
    | Some t \<Rightarrow> \<exists>f st. kissat_open_to_read_file e path = Ret (Some f) \<and> kf_file f = Some (st, t) \<and> kf_reading f
        \<and> kf_compressed f = (\<exists>c \<in> set read_commands. compressed_as e path c))"
proof -
  note pipes = read_pipes_find [OF read_commands_ok, of e path]
  show ?thesis
  proof (cases "find (compressed_as e path) read_commands")
    case None
    then have "\<not> (\<exists>c \<in> set read_commands. compressed_as e path c)" by (auto simp: find_None_iff)
    with None pipes show ?thesis
      by (cases "fe_content e path") (auto simp: kissat_open_to_read_file_def file_text_def)
  next
    case (Some c)
    obtain sfx fmt sig where c: "c = (sfx, fmt, sig)" by (cases c)
    from Some have some: "compressed_as e path c" "c \<in> set read_commands" by (auto simp: find_Some_iff)
    then obtain t where "fe_popen e (sprintf_path fmt path) = Some t" by (auto simp: c compressed_as_def)
    with Some some pipes show ?thesis by (auto simp: c kissat_open_to_read_file_def file_text_def)
  qed
qed

text \<open>
  C27. Opening a formula. \<open>kissat_open_to_read_file\<close> reads a file as what its suffix and its first
  bytes say together: through the decompressing program when there is one on the search path that
  starts, and plainly otherwise; it fails only when the plain file cannot be opened, and its
  command always fits into the memory allocated for it. The characters of the opened file
  are those of the decompressed or plain text, and then \<open>EOF\<close>.
\<close>

theorem open_to_read_file_text:
  "case kissat_open_to_read_file e path of
     Ret (Some f) \<Rightarrow> (\<exists>t. file_text e path = Some t
         \<and> (\<forall>n. get_all as_kissat_getter n f = Some (take n t, length t < n))
         \<and> kf_compressed f = (\<exists>c \<in> set read_commands. compressed_as e path c))
   | Ret None \<Rightarrow> file_text e path = None
   | _ \<Rightarrow> False"
proof (cases "file_text e path")
  case None
  with open_file_text [of e path] show ?thesis by simp
next
  case (Some t)
  with open_file_text [of e path] obtain f st where "kissat_open_to_read_file e path = Ret (Some f)"
    "kf_file f = Some (st, t)" "kf_reading f" "kf_compressed f = (\<exists>c \<in> set read_commands. compressed_as e path c)"
    by auto
  with Some show ?thesis by (auto simp: kissat_owes_def intro!: kissat_reader.get_all_text)
qed

text \<open>
  Searching a program. For every list of directories without a colon, empty ones included,
  \<open>kissat_find_executable\<close> finds a name exactly when one of them has a readable file of that name.
\<close>

theorem find_executable_search_path:
  assumes "fe_PATH e = Some (search_path ds)" and "\<forall>d \<in> set ds. COLON \<notin> set d" and "ds \<noteq> []"
  shows "kissat_find_executable e name
    \<longleftrightarrow> (\<exists>d \<in> set ds. kissat_file_readable e (Some (d @ [SLASH] @ name)))"
  using find_in_dirs_search_path [OF assms(2,3)] assms(1) by (simp add: kissat_find_executable_def)

text \<open>The directory of a path in the root is empty.\<close>

lemma strrchr_root: "SLASH \<notin> set name \<Longrightarrow> strrchr (SLASH # name) SLASH = Some 0"
proof -
  assume "SLASH \<notin> set name"
  then have "takeWhile (\<lambda>x. x \<noteq> SLASH) (rev name @ [SLASH]) = rev name" by (subst takeWhile_append2) auto
  then show ?thesis by (simp add: strrchr_def)
qed

text \<open>
  Files in the root directory. The name of the directory of \<open>/name\<close> is cut out as the empty
  string, which names no directory, so \<open>kissat_file_writable\<close> calls no file of the root directory
  writable, whatever its permissions are.
\<close>

theorem root_files_unwritable:
  assumes "fe_stat e [] = Stat_Failed n" and "SLASH \<notin> set name"
  shows "\<not> kissat_file_writable e (Some (SLASH # name))"
  using assms strrchr_root [OF assms(2)] by (auto simp: kissat_file_writable_def writable_result_def)

end
