(* ===== verification/Quapi_Parse.thy ===== *)
theory Quapi_Parse
  imports Quapi_Formula
begin

text \<open>
  The parser of \<open>quapify/src/parse.c\<close>. The file is the list of its characters; the
  character the code has read last but not used is the first of the list. An error is the
  message with the line number the caller sees, after \<open>nonl\<close> has taken back a line end. What
  the parser hands to \<open>add_quantifier\<close> and \<open>add_lit\<close> is the list of its events.
\<close>

section \<open>Characters and numbers\<close>

datatype strictness = RELAXED_PARSING | NORMAL_PARSING | PEDANTIC_PARSING

fun strictness_code :: "strictness \<Rightarrow> nat" where
  "strictness_code RELAXED_PARSING = 0"
| "strictness_code NORMAL_PARSING = 1"
| "strictness_code PEDANTIC_PARSING = 2"

instantiation strictness :: linorder
begin

definition less_eq_strictness :: "strictness \<Rightarrow> strictness \<Rightarrow> bool" where
  "less_eq_strictness a b \<longleftrightarrow> strictness_code a \<le> strictness_code b"

definition less_strictness :: "strictness \<Rightarrow> strictness \<Rightarrow> bool" where
  "less_strictness a b \<longleftrightarrow> strictness_code a < strictness_code b"

instance
proof
  fix a b c :: strictness
  show "(a < b) = (a \<le> b \<and> \<not> b \<le> a)"
    by (auto simp: less_eq_strictness_def less_strictness_def)
  show "a \<le> a" by (simp add: less_eq_strictness_def)
  show "a \<le> b \<Longrightarrow> b \<le> c \<Longrightarrow> a \<le> c" by (simp add: less_eq_strictness_def)
  show "a \<le> b \<Longrightarrow> b \<le> a \<Longrightarrow> a = b"
    by (cases a; cases b) (simp_all add: less_eq_strictness_def)
  show "a \<le> b \<or> b \<le> a" by (auto simp: less_eq_strictness_def)
qed

end

datatype parse_event = Add_Quantifier int | Add_Lit int

type_synonym parse_error = "string \<times> nat"

definition MAX_VARS :: nat where "MAX_VARS = 2 ^ 31 - 1"
definition UINT64_MAX :: nat where "UINT64_MAX = 2 ^ 64 - 1"

definition isdigit :: "char \<Rightarrow> bool" where
  "isdigit c \<longleftrightarrow> (48 :: nat) \<le> of_char c \<and> (of_char c :: nat) \<le> 57"

definition digit_value :: "char \<Rightarrow> nat" where
  "digit_value c = of_char c - 48"

definition blank :: "char \<Rightarrow> bool" where
  "blank c \<longleftrightarrow> c = SPC \<or> c = TAB"

text \<open>
  \<open>while (isdigit (ch = NEXT ()))\<close> with the two overflow checks, from the value \<open>acc\<close> of the
  digits so far; \<open>None\<close> is an overflow.
\<close>

fun parse_number :: "nat \<Rightarrow> nat \<Rightarrow> string \<Rightarrow> (nat \<times> string) option" where
  "parse_number limit acc [] = Some (acc, [])"
| "parse_number limit acc (c # cs) =
     (if isdigit c then
        (if limit div 10 < acc then None
         else if limit - digit_value c < acc * 10 then None
         else parse_number limit (acc * 10 + digit_value c) cs)
      else Some (acc, c # cs))"

definition quoted :: "string \<Rightarrow> string" where
  "quoted x = CHR 0x27 # x @ [CHR 0x27]"

definition TRY_RELAXED_PARSING :: string where
  "TRY_RELAXED_PARSING = ''(try '' @ quoted ''--relaxed'' @ '' parsing)''"

text \<open>The character after a carriage return.\<close>

definition expect_newline :: "string \<Rightarrow> nat \<Rightarrow> parse_error + (string \<times> nat)" where
  "expect_newline cs ln =
     (case cs of
        [] \<Rightarrow> Inl (''expected new-line after carriage-return'', ln)
      | c # cs' \<Rightarrow> if c = NL then Inr (cs', ln + 1)
                  else Inl (''expected new-line after carriage-return'', ln))"

section \<open>The header\<close>

text \<open>The rest of a comment line before the header, and such a line from its start.\<close>

fun skip_header_comment :: "string \<Rightarrow> nat \<Rightarrow> parse_error + (string \<times> nat)" where
  "skip_header_comment [] ln = Inl (''end-of-file in header comment'', ln)"
| "skip_header_comment (c # cs) ln =
     (if c = NL then Inr (cs, ln + 1)
      else if c = CR then expect_newline cs ln
      else skip_header_comment cs ln)"

fun header_comment :: "string \<Rightarrow> nat \<Rightarrow> parse_error + (string \<times> nat)" where
  "header_comment [] ln = Inl (''end-of-file in header comment'', ln)"
| "header_comment (c # cs) ln =
     (if c = NL then Inr (cs, ln + 1)
      else if c = CR then expect_newline cs ln
      else if blank c then header_comment cs ln
      else skip_header_comment cs ln)"

lemma expect_newline_shorter: "expect_newline cs ln = Inr (cs', ln') \<Longrightarrow> length cs' < length cs"
  by (auto simp: expect_newline_def split: list.splits if_splits)

lemma skip_header_comment_shorter: "skip_header_comment cs ln = Inr (cs', ln') \<Longrightarrow> length cs' < length cs"
  by (induction cs ln rule: skip_header_comment.induct)
    (auto split: if_splits dest: expect_newline_shorter)

lemma header_comment_shorter: "header_comment cs ln = Inr (cs', ln') \<Longrightarrow> length cs' < length cs"
  by (induction cs ln rule: header_comment.induct)
    (auto split: if_splits dest: expect_newline_shorter skip_header_comment_shorter)

text \<open>The lines before the header, up to its \<open>p\<close>.\<close>

function header_lines :: "strictness \<Rightarrow> bool \<Rightarrow> string \<Rightarrow> nat \<Rightarrow> parse_error + (string \<times> nat)" where
  "header_lines strict first cs ln =
     (case cs of
        [] \<Rightarrow> Inl (if first then ''empty file'' else ''end-of-file before header'', ln)
      | c # cs1 \<Rightarrow>
          (if c = CHR ''p'' then Inr (cs1, ln)
           else if c = CR then
             (case expect_newline cs1 ln of
                Inl e \<Rightarrow> Inl e
              | Inr (cs2, ln2) \<Rightarrow>
                  (if strict = PEDANTIC_PARSING then Inl (''unexpected empty line'', ln2 - 1)
                   else header_lines strict False cs2 ln2))
           else if c = NL then
             (if strict = PEDANTIC_PARSING then Inl (''unexpected empty line'', ln)
              else header_lines strict False cs1 (ln + 1))
           else if c = CHR ''c'' then
             (case header_comment cs1 ln of
                Inl e \<Rightarrow> Inl e
              | Inr (cs2, ln2) \<Rightarrow> header_lines strict False cs2 ln2)
           else Inl (''expected '' @ quoted ''c'' @ '' or '' @ quoted ''p'' @ '' at start of line'', ln)))"
  by pat_completeness auto

termination
  by (relation "measure (\<lambda>(strict, first, cs, ln). length cs)")
    (auto dest: expect_newline_shorter header_comment_shorter)

declare header_lines.simps [simp del]

text \<open>One character of the header line; a line end is not counted.\<close>

definition expect_char :: "char \<Rightarrow> string \<Rightarrow> string \<Rightarrow> nat \<Rightarrow> parse_error + string" where
  "expect_char x msg cs ln =
     (case cs of [] \<Rightarrow> Inl (msg, ln) | c # cs' \<Rightarrow> if c = x then Inr cs' else Inl (msg, ln))"

definition skip_blanks :: "strictness \<Rightarrow> string \<Rightarrow> string" where
  "skip_blanks strict cs = (if strict = PEDANTIC_PARSING then cs else dropWhile blank cs)"

definition bind_sum :: "'e + 'a \<Rightarrow> ('a \<Rightarrow> 'e + 'b) \<Rightarrow> 'e + 'b" where
  "bind_sum m f = (case m of Inl e \<Rightarrow> Inl e | Inr x \<Rightarrow> f x)"

text \<open>A line end that was read is counted.\<close>

definition line_read :: "string \<Rightarrow> nat \<Rightarrow> nat" where
  "line_read cs ln = (case cs of [] \<Rightarrow> ln | c # _ \<Rightarrow> if c = NL then ln + 1 else ln)"

definition header_variables :: "string \<Rightarrow> nat \<Rightarrow> parse_error + (nat \<times> string)" where
  "header_variables cs ln =
     (case cs of
        [] \<Rightarrow> Inl (''expected digit after '' @ quoted ''p cnf '', ln)
      | c # cs1 \<Rightarrow>
          (if \<not> isdigit c then Inl (''expected digit after '' @ quoted ''p cnf '', ln)
           else
             (case parse_number MAX_VARS (digit_value c) cs1 of
                None \<Rightarrow> Inl (''maximum variable too large'', ln)
              | Some (variables, cs2) \<Rightarrow>
                  (case cs2 of
                     [] \<Rightarrow> Inl (''unexpected end-of-file while parsing maximum variable'', ln)
                   | d # cs3 \<Rightarrow>
                       (if d = CR then
                          (case expect_newline cs3 ln of
                             Inl e \<Rightarrow> Inl e
                           | Inr x \<Rightarrow> Inl (''unexpected new-line after maximum variable'', ln))
                        else if d = NL then Inl (''unexpected new-line after maximum variable'', ln)
                        else if d \<noteq> SPC then Inl (''expected space after maximum variable'', ln)
                        else Inr (variables, cs3)))))) "

definition header_clauses :: "strictness \<Rightarrow> string \<Rightarrow> nat \<Rightarrow> parse_error + (nat \<times> string \<times> nat)" where
  "header_clauses strict cs ln =
     (case cs of
        [] \<Rightarrow> Inl (''expected number of clauses after maximum variable'', ln)
      | c # cs1 \<Rightarrow>
          (if \<not> isdigit c
           then Inl (''expected number of clauses after maximum variable'', line_read cs ln)
           else
             (case parse_number UINT64_MAX (digit_value c) cs1 of
                None \<Rightarrow> Inl (''number of clauses too large'', ln)
              | Some (cls, cs2) \<Rightarrow>
                  (if cs2 = [] then Inl (''unexpected end-of-file while parsing number of clauses'', ln)
                   else
                     (case skip_blanks strict cs2 of
                        [] \<Rightarrow> Inl (''unexpected end-of-file after parsing number of clauses'', ln)
                      | d # cs3 \<Rightarrow>
                          (if d = CR then
                             (case expect_newline cs3 ln of
                                Inl e \<Rightarrow> Inl e
                              | Inr (cs4, ln4) \<Rightarrow> Inr (cls, cs4, ln4))
                           else if d = NL then Inr (cls, cs3, ln + 1)
                           else Inl (''expected new-line after parsing number of clauses'', ln)))))))"

text \<open>The header line after its \<open>p\<close>: the numbers of variables and clauses.\<close>

definition header_line :: "strictness \<Rightarrow> string \<Rightarrow> nat \<Rightarrow> parse_error + (nat \<times> nat \<times> string \<times> nat)" where
  "header_line strict cs ln =
     bind_sum (expect_char SPC (''expected space after '' @ quoted ''p'') cs ln) (\<lambda>cs1.
     bind_sum (expect_char (CHR ''c'') (''expected '' @ quoted ''c'' @ '' after '' @ quoted ''p '') (skip_blanks strict cs1) ln) (\<lambda>cs2.
     bind_sum (expect_char (CHR ''n'') (''expected '' @ quoted ''n'' @ '' after '' @ quoted ''p c'') cs2 ln) (\<lambda>cs3.
     bind_sum (expect_char (CHR ''f'') (''expected '' @ quoted ''n'' @ '' after '' @ quoted ''p cn'') cs3 ln) (\<lambda>cs4.
     bind_sum (expect_char SPC (''expected space after '' @ quoted ''p cnf'') cs4 ln) (\<lambda>cs5.
     bind_sum (header_variables (skip_blanks strict cs5) ln) (\<lambda>(variables, cs6).
     bind_sum (header_clauses strict (skip_blanks strict cs6) ln) (\<lambda>(cls, cs7, ln7).
       Inr (variables, cls, cs7, ln7))))))))"

section \<open>Quantifiers and clauses\<close>

text \<open>The variables of the loop after the header.\<close>

record parse_state =
  block_exists :: bool
  block_forall :: bool
  parsed :: nat
  last_lit :: int
  events :: "parse_event list"

text \<open>A comment: \<open>None\<close> is the end of the file in it.\<close>

fun skip_comment :: "string \<Rightarrow> nat \<Rightarrow> (string \<times> nat) option" where
  "skip_comment [] ln = None"
| "skip_comment (c # cs) ln = (if c = NL then Some (cs, ln + 1) else skip_comment cs ln)"

text \<open>What follows a literal: the rest, its line, and the line \<open>nonl\<close> would give.\<close>

definition after_literal :: "strictness \<Rightarrow> nat \<Rightarrow> string \<Rightarrow> nat \<Rightarrow> parse_error + (string \<times> nat \<times> nat)" where
  "after_literal strict idx cs ln =
     (case cs of
        [] \<Rightarrow>
          (if strict = PEDANTIC_PARSING
           then Inl (if idx \<noteq> 0 then ''unexpected end-of-file after literal''
                     else ''unexpected end-of-file after trailing zero'', ln)
           else Inr ([], ln, ln))
      | c # cs1 \<Rightarrow>
          (if c = CR then
             (case expect_newline cs1 ln of Inl e \<Rightarrow> Inl e | Inr (cs2, ln2) \<Rightarrow> Inr (cs2, ln2, ln))
           else if c = CHR ''c'' then
             (case skip_comment cs1 ln of
                None \<Rightarrow>
                  (if strict = PEDANTIC_PARSING
                   then Inl (''unexpected end-of-file in comment after literal'', ln)
                   else Inr ([], ln, ln))
              | Some (cs2, ln2) \<Rightarrow> Inr (cs2, ln2, ln))
           else if c = NL then Inr (cs1, ln + 1, ln)
           else if blank c then Inr (cs1, ln, ln)
           else Inl (''expected white space after literal'', ln)))"

text \<open>A whole literal is handed to the caller, or ends a clause or a block.\<close>

definition take_literal :: "parse_state \<Rightarrow> int \<Rightarrow> parse_state" where
  "take_literal b lit =
     (let b1 = (if lit = 0 \<and> \<not> block_exists b \<and> \<not> block_forall b then b\<lparr>parsed := parsed b + 1\<rparr> else b);
          b2 = b1\<lparr>last_lit := lit\<rparr>
      in if block_exists b \<or> block_forall b then
           (if lit \<noteq> 0
            then b2\<lparr>events := events b @ [Add_Quantifier (if block_forall b then - \<bar>lit\<bar> else \<bar>lit\<bar>)]\<rparr>
            else b2\<lparr>block_exists := False, block_forall := False\<rparr>)
         else b2\<lparr>events := events b @ [Add_Lit lit]\<rparr>)"

definition parse_literal ::
    "strictness \<Rightarrow> nat \<Rightarrow> nat \<Rightarrow> parse_state \<Rightarrow> int \<Rightarrow> char \<Rightarrow> string \<Rightarrow> nat \<Rightarrow>
     parse_error + (parse_state \<times> string \<times> nat)" where
  "parse_literal strict variables cls b sign c cs ln =
     (case parse_number MAX_VARS (digit_value c) cs of
        None \<Rightarrow> Inl (''variable index too large'', ln)
      | Some (idx, cs1) \<Rightarrow>
          bind_sum (after_literal strict idx cs1 ln)
            (\<lambda>(cs2, ln2, ln_back).
               if strict \<noteq> RELAXED_PARSING \<and> variables < idx
               then Inl (''maximum variable index exceeded '' @ TRY_RELAXED_PARSING, ln_back)
               else if idx = 0 \<and> strict \<noteq> RELAXED_PARSING \<and> parsed b = cls
               then Inl (''too many clauses '' @ TRY_RELAXED_PARSING, ln2)
               else Inr (take_literal b (sign * int idx), cs2, ln2)))"

text \<open>One round of the loop, for the character \<open>c\<close>.\<close>

definition parse_token ::
    "strictness \<Rightarrow> nat \<Rightarrow> nat \<Rightarrow> parse_state \<Rightarrow> char \<Rightarrow> string \<Rightarrow> nat \<Rightarrow>
     parse_error + (parse_state \<times> string \<times> nat)" where
  "parse_token strict variables cls b c cs ln =
     (if blank c then Inr (b, cs, ln)
      else if c = NL then Inr (b, cs, ln + 1)
      else if c = CR then bind_sum (expect_newline cs ln) (\<lambda>(cs1, ln1). Inr (b, cs1, ln1))
      else if c = CHR ''c'' then
        (case skip_comment cs ln of
           None \<Rightarrow>
             (if strict = PEDANTIC_PARSING then Inl (''unexpected end-of-file in comment after header'', ln)
              else Inr (b, [], ln))
         | Some (cs1, ln1) \<Rightarrow> Inr (b, cs1, ln1))
      else if c = CHR ''-'' then
        (case cs of
           [] \<Rightarrow> Inl (''unexpected end-of-file after '' @ quoted ''-'', ln)
         | d # cs1 \<Rightarrow>
             (if d = NL then Inl (''unexpected new-line after '' @ quoted ''-'', ln)
              else if \<not> isdigit d then Inl (''expected digit after '' @ quoted ''-'', ln)
              else if d = CHR ''0'' then Inl (''expected non-zero digit after '' @ quoted ''-'', ln)
              else parse_literal strict variables cls b (-1) d cs1 ln))
      else if c = CHR ''e'' then
        (if block_exists b \<or> block_forall b then Inl (''previous quantifier block not closed!'', ln)
         else Inr (b\<lparr>block_exists := True\<rparr>, drop 1 cs, line_read cs ln))
      else if c = CHR ''a'' then
        (if block_exists b \<or> block_forall b then Inl (''previous quantifier block not closed!'', ln)
         else Inr (b\<lparr>block_forall := True\<rparr>, drop 1 cs, line_read cs ln))
      else if \<not> isdigit c then Inl (''expected digit or '' @ quoted ''-'', ln)
      else parse_literal strict variables cls b 1 c cs ln)"

text \<open>The checks after the loop.\<close>

definition parse_end :: "strictness \<Rightarrow> nat \<Rightarrow> parse_state \<Rightarrow> string option" where
  "parse_end strict cls b =
     (if last_lit b \<noteq> 0 then Some ''trailing zero missing''
      else if strict \<noteq> RELAXED_PARSING \<and> parsed b < cls then
        (if parsed b + 1 = cls then Some (''one clause missing '' @ TRY_RELAXED_PARSING)
         else Some (''more than one clause missing '' @ TRY_RELAXED_PARSING))
      else None)"

lemma parse_number_shorter: "parse_number limit acc cs = Some (n, cs') \<Longrightarrow> length cs' \<le> length cs"
  by (induction limit acc cs rule: parse_number.induct) (auto split: if_splits)

lemma skip_comment_shorter: "skip_comment cs ln = Some (cs', ln') \<Longrightarrow> length cs' < length cs"
  by (induction cs ln rule: skip_comment.induct) (auto split: if_splits)

lemma after_literal_shorter: "after_literal strict idx cs ln = Inr (cs', x) \<Longrightarrow> length cs' \<le> length cs"
  by (auto simp: after_literal_def split: list.splits if_splits option.splits sum.splits
      dest!: expect_newline_shorter skip_comment_shorter)

lemma parse_literal_shorter:
  "parse_literal strict vs cl b sign c cs ln = Inr (b', cs', ln') \<Longrightarrow> length cs' \<le> length cs"
  by (auto simp: parse_literal_def bind_sum_def split: option.splits sum.splits if_splits
      dest!: parse_number_shorter after_literal_shorter)

lemma parse_token_shorter:
  "parse_token strict vs cl b c cs ln = Inr (b', cs', ln') \<Longrightarrow> length cs' \<le> length cs"
  by (auto simp: parse_token_def bind_sum_def split: option.splits sum.splits if_splits list.splits
      dest!: expect_newline_shorter skip_comment_shorter parse_literal_shorter)

text \<open>The loop: the error, the line and the state at its end.\<close>

function parse_body ::
    "strictness \<Rightarrow> nat \<Rightarrow> nat \<Rightarrow> parse_state \<Rightarrow> string \<Rightarrow> nat \<Rightarrow> string option \<times> nat \<times> parse_state" where
  "parse_body strict variables cls b cs ln =
     (case cs of
        [] \<Rightarrow> (parse_end strict cls b, ln, b)
      | c # cs1 \<Rightarrow>
          (case parse_token strict variables cls b c cs1 ln of
             Inl (msg, ln') \<Rightarrow> (Some msg, ln', b)
           | Inr (b', cs2, ln2) \<Rightarrow> parse_body strict variables cls b' cs2 ln2))"
  by pat_completeness auto

termination
  by (relation "measure (\<lambda>(strict, vs, cl, b, cs, ln). length cs)")
    (auto dest: parse_token_shorter)

declare parse_body.simps [simp del]

section \<open>Parsing a file\<close>

record parse_result =
  pr_error :: "string option"
  pr_lineno :: nat
  pr_max_var :: "nat option"
  pr_events :: "parse_event list"

definition start_state :: parse_state where
  "start_state = \<lparr>block_exists = False, block_forall = False, parsed = 0, last_lit = 0, events = []\<rparr>"

definition parse_dimacs :: "strictness \<Rightarrow> string \<Rightarrow> parse_result" where
  "parse_dimacs strict cs =
     (case bind_sum (header_lines strict True cs 1) (\<lambda>(cs1, ln1). header_line strict cs1 ln1) of
        Inl (msg, ln) \<Rightarrow> \<lparr>pr_error = Some msg, pr_lineno = ln, pr_max_var = None, pr_events = []\<rparr>
      | Inr (variables, cls, cs2, ln2) \<Rightarrow>
          (let (err, ln, b) = parse_body strict variables cls start_state cs2 ln2 in
           \<lparr>pr_error = err, pr_lineno = ln, pr_max_var = Some variables, pr_events = events b\<rparr>))"

definition kissat_parse_dimacs :: "strictness \<Rightarrow> string \<Rightarrow> parse_result" where
  "kissat_parse_dimacs strict cs = parse_dimacs strict cs"

section \<open>Less strict parsing accepts more\<close>

lemma strictness_le:
  assumes "strict' \<le> strict"
  shows "strict' = PEDANTIC_PARSING \<Longrightarrow> strict = PEDANTIC_PARSING"
    and "strict' \<noteq> RELAXED_PARSING \<Longrightarrow> strict \<noteq> RELAXED_PARSING"
  using assms by (cases strict; cases strict'; simp add: less_eq_strictness_def)+

lemmas strictness_dest = strictness_le(1) strictness_le(2)

lemma header_lines_mono:
  "header_lines strict first cs ln = Inr x \<Longrightarrow> strict' \<le> strict \<Longrightarrow> header_lines strict' first cs ln = Inr x"
proof (induction strict first cs ln rule: header_lines.induct)
  case (1 strict first cs ln)
  note [simp] = header_lines.simps [of _ _ "_ # _"] header_lines.simps [of _ _ "[]"]
  show ?case
    using 1 strictness_le(1) [OF 1(5)] by (cases cs) (auto split: if_splits sum.splits)
qed

lemma skip_blanks_mono:
  assumes "strict' \<le> strict" and "skip_blanks strict cs \<noteq> []" and "\<not> blank (hd (skip_blanks strict cs))"
  shows "skip_blanks strict' cs = skip_blanks strict cs"
  using assms strictness_le(1) [OF assms(1)]
  by (cases cs) (auto simp: skip_blanks_def)

lemma expect_char_mono:
  "expect_char x msg (skip_blanks strict cs) ln = Inr cs' \<Longrightarrow> strict' \<le> strict \<Longrightarrow> \<not> blank x \<Longrightarrow>
   expect_char x msg (skip_blanks strict' cs) ln = Inr cs'"
  by (subst skip_blanks_mono [of strict' strict])
    (auto simp: expect_char_def split: list.splits if_splits)

lemma digit_not_blank: "isdigit c \<Longrightarrow> \<not> blank c"
  by (auto simp: isdigit_def blank_def)

lemma header_variables_mono:
  "header_variables (skip_blanks strict cs) ln = Inr x \<Longrightarrow> strict' \<le> strict \<Longrightarrow>
   header_variables (skip_blanks strict' cs) ln = Inr x"
  by (subst skip_blanks_mono [of strict' strict])
    (auto simp: header_variables_def dest: digit_not_blank split: list.splits if_splits)

lemma header_clauses_mono:
  assumes h: "header_clauses strict (skip_blanks strict cs) ln = Inr x" and le: "strict' \<le> strict"
  shows "header_clauses strict' (skip_blanks strict' cs) ln = Inr x"
proof -
  obtain c cs1 where c: "skip_blanks strict cs = c # cs1" "isdigit c"
    using h by (auto simp: header_clauses_def split: list.splits if_splits)
  have 1: "skip_blanks strict' cs = c # cs1"
    using skip_blanks_mono [OF le, of cs] c digit_not_blank [of c] by simp
  obtain n cs2 where n: "parse_number UINT64_MAX (digit_value c) cs1 = Some (n, cs2)" "cs2 \<noteq> []"
    using h c by (auto simp: header_clauses_def split: option.splits if_splits)
  obtain d cs3 where d: "skip_blanks strict cs2 = d # cs3" "d = CR \<or> d = NL"
    using h c n by (auto simp: header_clauses_def split: list.splits if_splits)
  then have "\<not> blank d" by (auto simp: blank_def)
  then have "skip_blanks strict' cs2 = d # cs3" using skip_blanks_mono [OF le, of cs2] d by simp
  then show ?thesis using h c n d 1 by (simp add: header_clauses_def)
qed

lemma bind_sum_Inr: "bind_sum m f = Inr y \<longleftrightarrow> (\<exists>x. m = Inr x \<and> f x = Inr y)"
  by (auto simp: bind_sum_def split: sum.splits)

lemma header_line_mono:
  assumes h: "header_line strict cs ln = Inr x" and le: "strict' \<le> strict"
  shows "header_line strict' cs ln = Inr x"
proof -
  have "\<not> blank (CHR ''c'')" by (simp add: blank_def)
  with h le show ?thesis
    by (auto simp: header_line_def bind_sum_Inr
        dest!: expect_char_mono [OF _ le] header_variables_mono [OF _ le] header_clauses_mono [OF _ le])
qed

lemma after_literal_mono:
  "after_literal strict idx cs ln = Inr x \<Longrightarrow> strict' \<le> strict \<Longrightarrow> after_literal strict' idx cs ln = Inr x"
  using strictness_le(1) [of strict' strict]
  by (auto simp: after_literal_def split: list.splits if_splits option.splits)

lemma parse_literal_mono:
  assumes h: "parse_literal strict vs cl b sign c cs ln = Inr x" and le: "strict' \<le> strict"
  shows "parse_literal strict' vs cl b sign c cs ln = Inr x"
proof -
  obtain idx cs1 cs2 ln2 bk where p: "parse_number MAX_VARS (digit_value c) cs = Some (idx, cs1)"
    and a: "after_literal strict idx cs1 ln = Inr (cs2, ln2, bk)"
    using h by (auto simp: parse_literal_def bind_sum_Inr split: option.splits)
  have "after_literal strict' idx cs1 ln = Inr (cs2, ln2, bk)" by (rule after_literal_mono [OF a le])
  with h p a strictness_le(2) [OF le] show ?thesis
    by (cases "strict' = RELAXED_PARSING") (simp_all add: parse_literal_def bind_sum_def split: if_splits)
qed

lemma parse_token_mono:
  assumes h: "parse_token strict vs cl b c cs ln = Inr x" and le: "strict' \<le> strict"
  shows "parse_token strict' vs cl b c cs ln = Inr x"
proof (cases "c = CHR ''c''")
  case True
  with h strictness_le(1) [OF le] show ?thesis
    by (cases "skip_comment cs ln") (auto simp: parse_token_def blank_def split: if_splits)
next
  case False
  note lit = parse_literal_mono [OF _ le]
  show ?thesis
  proof (cases "c = CHR ''-''")
    case True
    with h lit show ?thesis
      by (cases cs) (auto simp: parse_token_def blank_def split: if_splits)
  next
    case no: False
    show ?thesis
    proof (cases "blank c \<or> c = NL \<or> c = CR \<or> c = CHR ''e'' \<or> c = CHR ''a'' \<or> \<not> isdigit c")
      case True
      with False no have "parse_token strict' vs cl b c cs ln = parse_token strict vs cl b c cs ln"
        by (auto simp: parse_token_def)
      with h show ?thesis by simp
    next
      case other: False
      with h lit False no show ?thesis by (simp add: parse_token_def)
    qed
  qed
qed

lemma parse_end_mono: "parse_end strict cl b = None \<Longrightarrow> strict' \<le> strict \<Longrightarrow> parse_end strict' cl b = None"
  using strictness_le(2) [of strict' strict] by (auto simp: parse_end_def split: if_splits)

lemma parse_body_mono:
  "parse_body strict vs cl b cs ln = (None, x) \<Longrightarrow> strict' \<le> strict \<Longrightarrow> parse_body strict' vs cl b cs ln = (None, x)"
proof (induction strict vs cl b cs ln rule: parse_body.induct)
  case (1 strict vs cl b cs ln)
  note [simp] = parse_body.simps [of _ _ _ _ "_ # _"] parse_body.simps [of _ _ _ _ "[]"]
  show ?case
  proof (cases cs)
    case Nil
    with 1(2) parse_end_mono [OF _ 1(3)] show ?thesis by auto
  next
    case (Cons c cs1)
    then obtain b' cs2 ln2 where t: "parse_token strict vs cl b c cs1 ln = Inr (b', cs2, ln2)"
      using 1(2) by (auto split: sum.splits)
    with 1(1) [OF Cons t refl refl] 1(2,3) parse_token_mono [OF t 1(3)] Cons show ?thesis by simp
  qed
qed

text \<open>
  C18. The levels of strictness are ordered: a file that parses at some level parses at every
  more relaxed one with the same events, variables and line number.
\<close>

theorem parse_dimacs_mono:
  assumes "pr_error (parse_dimacs strict cs) = None" and le: "strict' \<le> strict"
  shows "parse_dimacs strict' cs = parse_dimacs strict cs"
proof -
  let ?h = "\<lambda>strict. bind_sum (header_lines strict True cs 1) (\<lambda>(cs1, ln1). header_line strict cs1 ln1)"
  obtain vs cl cs2 ln2 where h: "?h strict = Inr (vs, cl, cs2, ln2)"
    using assms(1) by (cases "?h strict") (auto simp: parse_dimacs_def)
  then have h': "?h strict' = Inr (vs, cl, cs2, ln2)"
    by (auto simp: bind_sum_Inr dest!: header_lines_mono [OF _ le] header_line_mono [OF _ le])
  obtain ln b where b: "parse_body strict vs cl start_state cs2 ln2 = (None, ln, b)"
    using assms(1) h by (auto simp: parse_dimacs_def Let_def split: prod.splits)
  from h h' b parse_body_mono [OF b le] show ?thesis by (simp add: parse_dimacs_def)
qed

end
