(* ===== verification/Quapi_Intsplit.thy ===== *)
theory Quapi_Intsplit
  imports Quapi_Parse
begin

text \<open>
  The assumptions of the tool Quapify (\<open>quapify.c\<close>): the configuration they are stored in, the
  logarithm and the bits, and \<open>inflate_intsplits\<close>, which turns splits of the prefix into one
  assumption for every vector of numbers. The loop is a \<open>partial_function\<close>, and that it ends is
  part of \<open>inflate_intsplits_states\<close>: its state counts in a mixed radix.

  An allocation never fails and sizes stay below \<open>SIZE_MAX\<close>.
\<close>

unbundle bit_operations_syntax

section \<open>Logarithms and bits\<close>

text \<open>\<open>ceil_log2\<close>: the loop over the masks, with the shift \<open>j\<close> that is halved in each round.\<close>

fun ceil_log2_loop :: "64 word list \<Rightarrow> nat \<Rightarrow> 64 word \<Rightarrow> nat \<Rightarrow> nat" where
  "ceil_log2_loop [] j x y = y"
| "ceil_log2_loop (t # ts) j x y =
     (let k = (if x AND t = 0 then 0 else j) in ceil_log2_loop ts (j div 2) (drop_bit k x) (y + k))"

definition ceil_log2 :: "64 word \<Rightarrow> nat" where
  "ceil_log2 x =
     ceil_log2_loop
       [0xFFFFFFFF00000000, 0x00000000FFFF0000, 0x000000000000FF00,
        0x00000000000000F0, 0x000000000000000C, 0x0000000000000002]
       32 x (if x AND (x - 1) = 0 then 0 else 1)"

text \<open>The masks: of the lower \<open>2j\<close> bits the upper \<open>j\<close>, for \<open>j\<close> a power of two.\<close>

definition upper_half :: "nat \<Rightarrow> 64 word" where
  "upper_half j = push_bit j (mask j)"

fun masks :: "nat \<Rightarrow> 64 word list" where
  "masks 0 = [upper_half 1]"
| "masks (Suc i) = upper_half (2 ^ Suc i) # masks i"

lemma ceil_log2_masks:
  "[0xFFFFFFFF00000000, 0x00000000FFFF0000, 0x000000000000FF00,
    0x00000000000000F0, 0x000000000000000C, 0x0000000000000002] = masks 5"
  by (simp add: numeral_eq_Suc upper_half_def) (simp add: mask_eq_exp_minus_1 push_bit_eq_mult)

lemma unat_drop_bit64: "unat (drop_bit j (x :: 64 word)) = unat x div 2 ^ j"
  by (subst unat_drop_bit_eq) (rule drop_bit_eq_div)

lemma word_zero_iff_bits: "x = 0 \<longleftrightarrow> (\<forall>n. \<not> bit (x :: 64 word) n)"
  by (auto intro: bit_word_eqI)

lemma drop_bit_zero_iff: "drop_bit j (x :: 64 word) = 0 \<longleftrightarrow> unat x < 2 ^ j"
proof -
  have "drop_bit j x = 0 \<longleftrightarrow> unat (drop_bit j x) = 0" by (simp only: unat_eq_0)
  also have "\<dots> \<longleftrightarrow> unat x div 2 ^ j = 0" by (simp only: unat_drop_bit64)
  also have "\<dots> \<longleftrightarrow> unat x < 2 ^ j" by (simp add: div_eq_0_iff)
  finally show ?thesis .
qed

lemma upper_half_zero_iff:
  assumes "unat (x :: 64 word) < 2 ^ (2 * j)"
  shows "x AND upper_half j = 0 \<longleftrightarrow> unat x < 2 ^ j"
proof -
  have high: "\<not> bit x n" if "2 * j \<le> n" for n
  proof -
    have "drop_bit (2 * j) x = 0" using assms by (simp only: drop_bit_zero_iff)
    then have "\<not> bit (drop_bit (2 * j) x) (n - 2 * j)" by simp
    with that show ?thesis by (simp add: bit_simps)
  qed
  have "x AND upper_half j = 0 \<longleftrightarrow> (\<forall>n. j \<le> n \<longrightarrow> n < 2 * j \<longrightarrow> \<not> bit x n)"
  proof -
    have "bit (x AND upper_half j) n \<longleftrightarrow> bit x n \<and> j \<le> n \<and> n < 2 * j" for n
      by (auto simp: upper_half_def bit_simps dest: bit_imp_le_length)
    then show ?thesis unfolding word_zero_iff_bits by auto
  qed
  also have "\<dots> \<longleftrightarrow> (\<forall>n. j \<le> n \<longrightarrow> \<not> bit x n)" using high by (meson not_le)
  also have "\<dots> \<longleftrightarrow> drop_bit j x = 0"
  proof -
    have "bit (drop_bit j x) n \<longleftrightarrow> bit x (j + n)" for n by (simp add: bit_simps)
    then show ?thesis unfolding word_zero_iff_bits by (metis le_Suc_ex le_add1)
  qed
  finally show ?thesis by (simp only: drop_bit_zero_iff)
qed

lemma ceil_log2_loop_masks:
  assumes "0 < unat x" "unat x < 2 ^ (2 * 2 ^ i)"
  shows "\<exists>k. ceil_log2_loop (masks i) (2 ^ i) x y = y + k \<and> 2 ^ k \<le> unat x \<and> unat x < 2 ^ Suc k"
  using assms
proof (induction i arbitrary: x y)
  case 0
  then show ?case using upper_half_zero_iff [of x 1] by (auto intro: exI [of _ 0] exI [of _ 1])
next
  case (Suc i)
  let ?j = "2 ^ Suc i :: nat"
  show ?case
  proof (cases "unat x < 2 ^ ?j")
    case True
    then have "ceil_log2_loop (masks (Suc i)) ?j x y = ceil_log2_loop (masks i) (2 ^ i) x y"
      using upper_half_zero_iff [of x ?j] Suc.prems(2) by (simp add: Let_def del: power_Suc) simp
    with Suc.IH [of x y] Suc.prems(1) True show ?thesis by simp
  next
    case False
    let ?x = "drop_bit ?j x"
    have d: "unat ?x = unat x div 2 ^ ?j" by (rule unat_drop_bit64)
    have "2 ^ ?j \<le> unat x" using False by simp
    then have "0 < unat ?x" unfolding d by (simp add: div_greater_zero_iff)
    moreover have "unat ?x < 2 ^ (2 * 2 ^ i)"
      unfolding d using Suc.prems(2) by (intro less_mult_imp_div_less) (simp add: power_add [symmetric] mult_2)
    ultimately obtain k where k: "ceil_log2_loop (masks i) (2 ^ i) ?x (y + ?j) = y + ?j + k"
      "2 ^ k \<le> unat ?x" "unat ?x < 2 ^ Suc k" using Suc.IH by blast
    have "ceil_log2_loop (masks (Suc i)) ?j x y = y + (?j + k)"
      using upper_half_zero_iff [of x ?j] Suc.prems(2) False k(1) by (simp add: Let_def add.assoc del: power_Suc) simp
    moreover have "2 ^ (?j + k) \<le> unat x"
      using k(2) unfolding d power_add by (simp add: less_eq_div_iff_mult_less_eq mult.commute)
    moreover have "unat x < 2 ^ Suc (?j + k)"
      using k(3) unfolding d by (simp add: div_less_iff_less_mult power_add mult.commute)
    ultimately show ?thesis by blast
  qed
qed

text \<open>A power of two shares no bit with its predecessor; no other positive number does without.\<close>

lemma bit_top: "2 ^ k \<le> (n :: nat) \<Longrightarrow> n < 2 ^ Suc k \<Longrightarrow> bit n k"
proof -
  assume "2 ^ k \<le> n" "n < 2 ^ Suc k"
  then have "n div 2 ^ k = 1" by (intro div_nat_eqI) simp_all
  then show ?thesis by (simp add: bit_iff_odd)
qed

lemma power_of_two_test:
  assumes "2 ^ k \<le> unat (x :: 64 word)" "unat x < 2 ^ Suc k"
  shows "x AND (x - 1) = 0 \<longleftrightarrow> unat x = 2 ^ k"
proof -
  have "x \<noteq> 0" using assms(1) by auto
  then have pred: "unat (x - 1) = unat x - 1" by (simp add: unat_minus_one)
  show ?thesis
  proof (cases "unat x = 2 ^ k")
    case True
    have "\<not> bit (2 ^ k - 1 :: nat) k" by (simp add: bit_iff_odd)
    then have "\<not> (bit (unat x) n \<and> bit (unat x - 1) n)" for n
      unfolding True by (auto simp: bit_exp_iff)
    then have "\<not> (bit (unat x) n \<and> bit (unat (x - 1)) n)" for n unfolding pred .
    then have "\<not> (bit x n \<and> bit (x - 1) n)" for n by (simp add: bit_unsigned_iff)
    then have "x AND (x - 1) = 0" by (intro bit_word_eqI) (simp add: bit_and_iff)
    with True show ?thesis by simp
  next
    case False
    then have "bit (unat x - 1) k" using assms by (intro bit_top) auto
    then have "bit (x - 1) k" unfolding pred [symmetric] by (simp add: bit_unsigned_iff)
    moreover have "bit x k" using bit_top [OF assms] by (simp add: bit_unsigned_iff)
    ultimately have "bit (x AND (x - 1)) k" by (simp add: bit_and_iff)
    then have "x AND (x - 1) \<noteq> 0" by auto
    with False show ?thesis by simp
  qed
qed

lemma ceil_log2_bounds:
  assumes "0 < unat x"
  shows "unat x \<le> 2 ^ ceil_log2 x" and "0 < ceil_log2 x \<Longrightarrow> 2 ^ (ceil_log2 x - 1) < unat x"
    and "ceil_log2 x \<le> 64"
proof -
  have lt: "unat x < 2 ^ (2 * 2 ^ 5)" using unsigned_less [of x] by simp
  from ceil_log2_loop_masks [OF assms lt] obtain k where
    k: "2 ^ k \<le> unat x" "unat x < 2 ^ Suc k"
      "ceil_log2_loop (masks 5) (2 ^ 5) x (if x AND (x - 1) = 0 then 0 else 1)
        = (if x AND (x - 1) = 0 then 0 else 1) + k" by blast
  have "(2 :: nat) ^ k < 2 ^ 64" using k(1) lt by (simp add: order.strict_trans1)
  then have k64: "k < 64" by (rule power_less_imp_less_exp [rotated]) simp
  have c: "ceil_log2 x = (if unat x = 2 ^ k then 0 else 1) + k"
    using k(3) unfolding power_of_two_test [OF k(1,2)] ceil_log2_def ceil_log2_masks by simp
  show "unat x \<le> 2 ^ ceil_log2 x" unfolding c using k(2) by auto
  show "2 ^ (ceil_log2 x - 1) < unat x" if "0 < ceil_log2 x"
  proof (cases "unat x = 2 ^ k")
    case True
    with that c have "k - 1 < k" by simp
    then show ?thesis unfolding c using True by simp
  next
    case False
    then show ?thesis unfolding c using k(1) by auto
  qed
  show "ceil_log2 x \<le> 64" unfolding c using k64 by auto
qed

text \<open>
  C30. The logarithm. For every positive 64-bit number \<open>ceil_log2\<close> is the least exponent whose
  power of two is not below the number.
\<close>

theorem ceil_log2_least:
  assumes "x \<noteq> 0"
  shows "ceil_log2 x = (LEAST k. unat x \<le> 2 ^ k)"
proof (rule Least_equality [symmetric])
  have x: "0 < unat x" using assms by (simp add: unat_gt_0)
  show "unat x \<le> 2 ^ ceil_log2 x" by (rule ceil_log2_bounds(1) [OF x])
  fix k assume le: "unat x \<le> 2 ^ k"
  show "ceil_log2 x \<le> k"
  proof (rule ccontr)
    assume "\<not> ceil_log2 x \<le> k"
    then have "2 ^ (ceil_log2 x - 1) < unat x" "(2 :: nat) ^ k \<le> 2 ^ (ceil_log2 x - 1)"
      using ceil_log2_bounds(2) [OF x] by (auto intro: power_increasing)
    with le show False by simp
  qed
qed

definition get_bit :: "32 word \<Rightarrow> nat \<Rightarrow> nat" where
  "get_bit n b = (if 32 \<le> b then 255 else unat (drop_bit b n AND 1))"

lemma get_bit_int:
  assumes "b < 32"
  shows "get_bit (word_of_int v) b = 0 \<longleftrightarrow> \<not> bit v b"
proof -
  have "drop_bit b (word_of_int v :: 32 word) AND 1 = of_bool (bit v b)"
    using assms by (simp add: and_one_eq mod_2_eq_odd bit_iff_odd_drop_bit [symmetric] bit_word_of_int_iff)
  with assms show ?thesis by (simp add: get_bit_def)
qed

section \<open>The configuration\<close>

text \<open>
  \<open>struct config\<close>, with the growing arrays as the elements stored so far and their capacity,
  followed by the static counter of \<open>add_to_assumptions\<close>, the global \<open>option_verbose\<close> and whether
  \<open>QUAPI_DEBUG\<close> and \<open>QUAPI_TRACE\<close> were set in the environment. An assumption is stored as its
  literals and a closing 0.
\<close>

record quapify_config =
  cfg_assumptions_count :: nat
  cfg_max_assumption_size :: nat
  cfg_assumptions_capacity :: nat
  cfg_assumptions :: "int list"
  cfg_highest_intsplit :: int
  cfg_intsplits_capacity :: nat
  cfg_intsplits :: "int list"
  cfg_print_assumptions :: bool
  cfg_stringify_result :: bool
  cfg_print_header :: bool
  cfg_wrap_assumption :: bool
  cfg_generate_list :: bool
  cfg_selected :: int
  cfg_strictness :: strictness
  cfg_input :: "string option"
  cfg_solver :: "string option"
  cfg_solver_argv :: "string list"
  current_assumption_size :: nat
  option_verbose :: bool
  env_debug :: bool
  env_trace :: bool

text \<open>
  Appending to an array that doubles when it is full. Writing behind the allocated memory
  would be undefined.
\<close>

definition push :: "nat \<Rightarrow> 'a list \<Rightarrow> nat \<Rightarrow> 'a \<Rightarrow> ('a list \<times> nat) outcome" where
  "push first xs capacity x =
     (let capacity' = (if length xs = capacity then if capacity = 0 then first else capacity * 2 else capacity) in
      if length xs < capacity' then Ret (xs @ [x], capacity') else Undefined_Behaviour)"

lemma push_fits:
  "0 < first \<Longrightarrow> length xs \<le> capacity \<Longrightarrow>
   \<exists>capacity'. push first xs capacity x = Ret (xs @ [x], capacity') \<and> Suc (length xs) \<le> capacity'"
  by (auto simp: push_def Let_def)

definition add_to_assumptions :: "int \<Rightarrow> quapify_config \<Rightarrow> quapify_config outcome" where
  "add_to_assumptions assumption c =
     (let c1 = (if assumption = 0 then
                  (let c0 = (if cfg_max_assumption_size c < current_assumption_size c
                             then c\<lparr>cfg_max_assumption_size := current_assumption_size c\<rparr> else c)
                   in c0\<lparr>cfg_assumptions_count := cfg_assumptions_count c0 + 1, current_assumption_size := 0\<rparr>)
                else c\<lparr>current_assumption_size := current_assumption_size c + 1\<rparr>)
      in bind_outcome (push 16 (cfg_assumptions c1) (cfg_assumptions_capacity c1) assumption)
           (\<lambda>(xs, cap). Ret (c1\<lparr>cfg_assumptions := xs, cfg_assumptions_capacity := cap\<rparr>)))"

definition add_intsplit_nesting_level :: "int \<Rightarrow> quapify_config \<Rightarrow> quapify_config outcome" where
  "add_intsplit_nesting_level intsplit c =
     (if intsplit \<le> 0 then Ret c
      else
        (let c1 = (if cfg_highest_intsplit c < intsplit then c\<lparr>cfg_highest_intsplit := intsplit\<rparr> else c) in
         bind_outcome (push 8 (cfg_intsplits c1) (cfg_intsplits_capacity c1) intsplit)
           (\<lambda>(xs, cap). Ret (c1\<lparr>cfg_intsplits := xs, cfg_intsplits_capacity := cap\<rparr>))))"

text \<open>The stored assumptions \<open>as\<close>, and the literals \<open>cur\<close> of one that is not closed.\<close>

definition stored :: "int list list \<Rightarrow> int list" where
  "stored as = concat (map (\<lambda>a. a @ [0]) as)"

lemma stored_simps [simp]:
  "stored [] = []" "stored (a # as) = a @ 0 # stored as" "stored (as @ bs) = stored as @ stored bs"
  by (simp_all add: stored_def)

lemma stored_eq_Nil [simp]: "stored as = [] \<longleftrightarrow> as = []"
  by (cases as) simp_all

definition holds :: "quapify_config \<Rightarrow> int list list \<Rightarrow> int list \<Rightarrow> bool" where
  "holds c as cur \<longleftrightarrow> cfg_assumptions c = stored as @ cur \<and> cfg_assumptions_count c = length as
     \<and> current_assumption_size c = length cur \<and> cfg_max_assumption_size c = fold max (map length as) 0
     \<and> (\<forall>a \<in> set as. 0 \<notin> set a) \<and> 0 \<notin> set cur \<and> length (cfg_assumptions c) \<le> cfg_assumptions_capacity c
     \<and> length (cfg_intsplits c) \<le> cfg_intsplits_capacity c \<and> (\<forall>n \<in> set (cfg_intsplits c). 0 < n \<and> n < 2 ^ 31)"

text \<open>What storing assumptions leaves alone.\<close>

definition cfg_options :: "quapify_config \<Rightarrow> quapify_config" where
  "cfg_options c = c\<lparr>cfg_assumptions_count := 0, cfg_max_assumption_size := 0,
     cfg_assumptions_capacity := 0, cfg_assumptions := [], current_assumption_size := 0\<rparr>"

definition same_options :: "quapify_config \<Rightarrow> quapify_config \<Rightarrow> bool" where
  "same_options c d \<longleftrightarrow> cfg_options c = cfg_options d"

lemma same_options_refl [simp, intro]: "same_options c c"
  by (simp add: same_options_def)

lemma same_options_trans: "same_options c d \<Longrightarrow> same_options d e \<Longrightarrow> same_options c e"
  by (simp add: same_options_def)

lemma same_options_fields:
  "same_options c d \<Longrightarrow> cfg_intsplits d = cfg_intsplits c \<and> cfg_print_assumptions d = cfg_print_assumptions c
     \<and> cfg_stringify_result d = cfg_stringify_result c \<and> cfg_print_header d = cfg_print_header c
     \<and> cfg_wrap_assumption d = cfg_wrap_assumption c \<and> cfg_generate_list d = cfg_generate_list c
     \<and> cfg_selected d = cfg_selected c \<and> cfg_strictness d = cfg_strictness c \<and> cfg_input d = cfg_input c
     \<and> cfg_solver d = cfg_solver c \<and> cfg_solver_argv d = cfg_solver_argv c"
  by (cases c; cases d) (simp add: same_options_def cfg_options_def)

lemma add_to_assumptions_holds:
  assumes "holds c as cur"
  shows "\<exists>d. add_to_assumptions a c = Ret d \<and> same_options c d
    \<and> (if a = 0 then holds d (as @ [cur]) [] else holds d as (cur @ [a]))"
proof -
  have "length (cfg_assumptions c) \<le> cfg_assumptions_capacity c" using assms unfolding holds_def by blast
  from push_fits [OF _ this, of 16 a] obtain k
    where "push 16 (cfg_assumptions c) (cfg_assumptions_capacity c) a = Ret (cfg_assumptions c @ [a], k)"
      "Suc (length (cfg_assumptions c)) \<le> k" by auto
  note k = this
  show ?thesis
  proof (cases "a = 0")
    case True
    let ?d = "c\<lparr>cfg_assumptions_count := cfg_assumptions_count c + 1,
      cfg_max_assumption_size := max (current_assumption_size c) (cfg_max_assumption_size c),
      current_assumption_size := 0, cfg_assumptions := cfg_assumptions c @ [0], cfg_assumptions_capacity := k\<rparr>"
    have "add_to_assumptions a c = Ret ?d" using k(1) True by (simp add: add_to_assumptions_def Let_def max_def)
    moreover have "same_options c ?d" by (simp add: same_options_def cfg_options_def)
    moreover have "holds ?d (as @ [cur]) []" using assms k(2) by (simp add: holds_def)
    ultimately show ?thesis using True by auto
  next
    case False
    let ?d = "c\<lparr>current_assumption_size := current_assumption_size c + 1,
      cfg_assumptions := cfg_assumptions c @ [a], cfg_assumptions_capacity := k\<rparr>"
    have "add_to_assumptions a c = Ret ?d" using k(1) False by (simp add: add_to_assumptions_def Let_def)
    moreover have "same_options c ?d" by (simp add: same_options_def cfg_options_def)
    moreover have "holds ?d as (cur @ [a])" using assms k(2) False by (simp add: holds_def)
    ultimately show ?thesis using False by auto
  qed
qed

text \<open>A loop that stores the literals of an assumption.\<close>

fun add_all_to_assumptions :: "int list \<Rightarrow> quapify_config \<Rightarrow> quapify_config outcome" where
  "add_all_to_assumptions [] c = Ret c"
| "add_all_to_assumptions (a # as) c = bind_outcome (add_to_assumptions a c) (add_all_to_assumptions as)"

lemma add_all_to_assumptions_holds:
  "holds c as cur \<Longrightarrow> 0 \<notin> set ls \<Longrightarrow>
   \<exists>d. add_all_to_assumptions ls c = Ret d \<and> same_options c d \<and> holds d as (cur @ ls)"
proof (induction ls arbitrary: c cur)
  case (Cons l ls)
  from add_to_assumptions_holds [OF Cons.prems(1), of l] Cons.prems(2) obtain d
    where d: "add_to_assumptions l c = Ret d" "same_options c d" "holds d as (cur @ [l])" by auto
  from Cons.IH [OF d(3)] Cons.prems(2) obtain e
    where "add_all_to_assumptions ls d = Ret e" "same_options d e" "holds e as (cur @ l # ls)" by auto
  with d show ?case by (auto intro: same_options_trans)
qed auto

lemma add_intsplit_holds:
  assumes "holds c as cur" "n < 2 ^ 31"
  shows "\<exists>d. add_intsplit_nesting_level n c = Ret d \<and> holds d as cur
    \<and> cfg_intsplits d = cfg_intsplits c @ (if 0 < n then [n] else [])"
proof (cases "0 < n")
  case True
  have "length (cfg_intsplits c) \<le> cfg_intsplits_capacity c" using assms unfolding holds_def by blast
  from push_fits [OF _ this, of 8 n] obtain k
    where "push 8 (cfg_intsplits c) (cfg_intsplits_capacity c) n = Ret (cfg_intsplits c @ [n], k)"
      "Suc (length (cfg_intsplits c)) \<le> k" by auto
  with assms True show ?thesis by (auto simp: add_intsplit_nesting_level_def holds_def Let_def)
qed (use assms in \<open>simp add: add_intsplit_nesting_level_def\<close>)

section \<open>Splitting the prefix by integers\<close>

definition intsplits_current_length :: "quapify_config \<Rightarrow> nat \<Rightarrow> nat" where
  "intsplits_current_length c index =
     (let n = cfg_intsplits c ! index in if n \<noteq> 0 then ceil_log2 (word_of_int n) else 1)"

definition intsplits_summed_length :: "quapify_config \<Rightarrow> nat \<Rightarrow> nat" where
  "intsplits_summed_length c index = sum_list (map (intsplits_current_length c) [0..<index])"

text \<open>
  The inner loop of \<open>intsplit_state_to_assumption\<close>: \<open>r\<close> literals of the split are left, so the next
  bit is \<open>r - 1\<close>. \<open>None\<close>: the split spans two blocks.
\<close>

fun set_bits :: "int list \<Rightarrow> int \<Rightarrow> nat \<Rightarrow> nat \<Rightarrow> int list \<Rightarrow> (nat \<times> int list) option" where
  "set_bits quantifiers v 0 i assumption = Some (i, assumption)"
| "set_bits quantifiers v (Suc r) i assumption =
     (if 0 < r \<and> (quantifiers ! i) XOR (quantifiers ! (i + 1)) < 0 then None
      else
        (let a = assumption ! i in
         set_bits quantifiers v r (i + 1)
           (assumption[i := if get_bit (word_of_int v) r = 0 then - \<bar>a\<bar> else \<bar>a\<bar>])))"

text \<open>The outer loop, over the lengths and values of the splits.\<close>

fun set_splits :: "int list \<Rightarrow> (nat \<times> int) list \<Rightarrow> nat \<Rightarrow> int list \<Rightarrow> int list option" where
  "set_splits quantifiers [] i assumption = Some assumption"
| "set_splits quantifiers ((cl, v) # ps) i assumption =
     (case set_bits quantifiers v cl i assumption of
        None \<Rightarrow> None
      | Some (i', assumption') \<Rightarrow> set_splits quantifiers ps i' assumption')"

text \<open>
  \<open>quantifiers\<close> is the global array that the first pass over the formula filled. When every split is
  the number 1, the array \<open>assumption\<close> of the code has the length 0, which C leaves undefined
  for arrays on the stack; the model takes it for an empty array.
\<close>

definition intsplit_state_to_assumption ::
    "int list \<Rightarrow> int list \<Rightarrow> quapify_config \<Rightarrow> (bool \<times> quapify_config) outcome" where
  "intsplit_state_to_assumption quantifiers state c =
     (let state_size = length state in
      if length (cfg_intsplits c) < state_size then Assert_Failed
      else
        (let l = intsplits_summed_length c state_size in
         if length quantifiers < l then Ret (False, c)
         else
           (case set_splits quantifiers (map (\<lambda>i. (intsplits_current_length c i, state ! i)) [0..<state_size]) 0
                   (take l quantifiers) of
              None \<Rightarrow> Ret (False, c)
            | Some assumption \<Rightarrow>
                bind_outcome (add_all_to_assumptions (take l assumption) c)
                  (\<lambda>c1. bind_outcome (add_to_assumptions 0 c1) (\<lambda>c2. Ret (True, c2))))))"

text \<open>
  The loop that carries: from the last position \<open>d\<close> down. At the first position the test is one
  off, so that the outer loop sees the end; passing it would leave the array.
\<close>

fun carry :: "int list \<Rightarrow> nat \<Rightarrow> int list \<Rightarrow> int list outcome" where
  "carry splits 0 state =
     (if state ! 0 = s32 (splits ! 0 + 1) then Undefined_Behaviour else Ret state)"
| "carry splits (Suc d) state =
     (if state ! Suc d = splits ! Suc d
      then carry splits d (state[Suc d := 0, d := s32 (state ! d + 1)])
      else Ret state)"

text \<open>The loop of \<open>inflate_intsplits\<close>; \<open>None\<close> if it does not end.\<close>

partial_function (option) inflate_loop ::
    "int list \<Rightarrow> int list \<Rightarrow> quapify_config \<Rightarrow> (bool \<times> quapify_config) outcome option" where
  "inflate_loop quantifiers state c =
     (if \<not> state ! 0 \<le> s32 (cfg_intsplits c ! 0 - 1) then Some (Ret (True, c))
      else
        (case intsplit_state_to_assumption quantifiers state c of
           Ret (ok, c1) \<Rightarrow>
             (if \<not> ok then Some (Ret (False, c1))
              else
                (let last = length (cfg_intsplits c1) - 1 in
                 case carry (cfg_intsplits c1) last (state[last := s32 (state ! last + 1)]) of
                   Ret state' \<Rightarrow> inflate_loop quantifiers state' c1
                 | Exited n \<Rightarrow> Some (Exited n)
                 | Assert_Failed \<Rightarrow> Some Assert_Failed
                 | Undefined_Behaviour \<Rightarrow> Some Undefined_Behaviour))
         | Exited n \<Rightarrow> Some (Exited n)
         | Assert_Failed \<Rightarrow> Some Assert_Failed
         | Undefined_Behaviour \<Rightarrow> Some Undefined_Behaviour))"

definition inflate_intsplits :: "int list \<Rightarrow> quapify_config \<Rightarrow> (bool \<times> quapify_config) outcome option" where
  "inflate_intsplits quantifiers c =
     (if quantifiers = [] \<or> cfg_intsplits c = [] then Some Assert_Failed
      else inflate_loop quantifiers (replicate (length (cfg_intsplits c)) 0) c)"

section \<open>The assumption of a state\<close>

text \<open>The variables of a split with the bits of its value as signs, the highest bit first.\<close>

fun bit_lits :: "int list \<Rightarrow> int \<Rightarrow> int list" where
  "bit_lits [] v = []"
| "bit_lits (q # qs) v = (if bit v (length qs) then \<bar>q\<bar> else - \<bar>q\<bar>) # bit_lits qs v"

fun split_lits :: "int list \<Rightarrow> (nat \<times> int) list \<Rightarrow> int list" where
  "split_lits qs [] = []"
| "split_lits qs ((cl, v) # ps) = bit_lits (take cl qs) v @ split_lits (drop cl qs) ps"

text \<open>Every split lies in one block of the prefix.\<close>

definition same_block :: "int list \<Rightarrow> bool" where
  "same_block qs \<longleftrightarrow> (\<forall>p \<in> set qs. \<forall>q \<in> set qs. (p < 0) = (q < 0))"

fun in_blocks :: "int list \<Rightarrow> nat list \<Rightarrow> bool" where
  "in_blocks qs [] = True"
| "in_blocks qs (cl # cls) = (same_block (take cl qs) \<and> in_blocks (drop cl qs) cls)"

definition split_lens :: "int list \<Rightarrow> nat list" where
  "split_lens splits = map (\<lambda>n. ceil_log2 (word_of_int n)) splits"

definition splits_fit :: "int list \<Rightarrow> int list \<Rightarrow> bool" where
  "splits_fit qs splits \<longleftrightarrow> sum_list (split_lens splits) \<le> length qs \<and> in_blocks qs (split_lens splits)"

lemma length_bit_lits [simp]: "length (bit_lits qs v) = length qs"
  by (induction qs) auto

lemma same_block_simps [simp]:
  "same_block []" "same_block [q]"
  "same_block (p # q # qs) \<longleftrightarrow> (p < 0) = (q < 0) \<and> same_block (q # qs)"
  by (auto simp: same_block_def)

lemma set_bits_lits:
  assumes "length pre = i" "mid = take r (drop i qs)" "length mid = r" "r \<le> 32"
  shows "set_bits qs v r i (pre @ mid @ post) =
    (if same_block mid then Some (i + r, pre @ bit_lits mid v @ post) else None)"
  using assms
proof (induction r arbitrary: i pre mid)
  case (Suc r)
  obtain q mid' where mid: "mid = q # mid'" using Suc.prems(3) by (metis Suc_length_conv)
  have i: "i < length qs" using Suc.prems(2,3) by (cases "i < length qs") auto
  then have "drop i qs = qs ! i # drop (i + 1) qs" by (simp add: Cons_nth_drop_Suc)
  with Suc.prems(2) mid have q: "q = qs ! i" "mid' = take r (drop (i + 1) qs)" by simp_all
  let ?x = "if bit v r then \<bar>q\<bar> else - \<bar>q\<bar>"
  have len: "length mid' = r" using Suc.prems(3) mid by simp
  have upd: "(pre @ mid @ post)[i := ?x] = (pre @ [?x]) @ mid' @ post"
    using Suc.prems(1) mid by (simp add: list_update_append)
  have at: "(pre @ mid @ post) ! i = q" using Suc.prems(1) mid by (simp add: nth_append)
  have IH: "set_bits qs v r (i + 1) ((pre @ [?x]) @ mid' @ post) =
      (if same_block mid' then Some (i + 1 + r, (pre @ [?x]) @ bit_lits mid' v @ post) else None)"
    using Suc.prems q(2) len by (intro Suc.IH) simp_all
  have bit: "get_bit (word_of_int v) r = 0 \<longleftrightarrow> \<not> bit v r" using Suc.prems(4) by (intro get_bit_int) simp
  show ?case
  proof (cases mid')
    case Nil
    with len have r0: "r = 0" by simp
    show ?thesis using upd at bit unfolding r0 by (cases "bit v 0") (simp_all add: Let_def mid Nil)
  next
    case (Cons q' mid'')
    with len have r: "0 < r" by auto
    have "q' = qs ! (i + 1)"
    proof -
      have "mid' ! 0 = qs ! (i + 1)" using q(2) len r by simp
      with Cons show ?thesis by simp
    qed
    then have spans: "(qs ! i) XOR (qs ! (i + 1)) < 0 \<longleftrightarrow> (q < 0) \<noteq> (q' < 0)"
      using q(1) by (simp add: xor_negative_int_iff)
    have "set_bits qs v (Suc r) i (pre @ mid @ post) =
        (if (q < 0) \<noteq> (q' < 0) then None else set_bits qs v r (i + 1) ((pre @ [?x]) @ mid' @ post))"
      using spans r at upd bit by (cases "bit v r") (simp_all add: Let_def)
    with IH len show ?thesis by (auto simp: mid Cons)
  qed
qed simp

lemma set_splits_lits:
  assumes "length pre = i" "mid = take (sum_list (map fst ps)) (drop i qs)" "length mid = sum_list (map fst ps)"
    and "\<forall>p \<in> set ps. fst p \<le> 32"
  shows "set_splits qs ps i (pre @ mid) =
    (if in_blocks (drop i qs) (map fst ps) then Some (pre @ split_lits (drop i qs) ps) else None)"
  using assms
proof (induction ps arbitrary: i pre mid)
  case (Cons p ps)
  obtain cl v where p: "p = (cl, v)" by (cases p)
  let ?m1 = "take cl (drop i qs)" and ?m2 = "take (sum_list (map fst ps)) (drop (i + cl) qs)"
  have all: "cl + sum_list (map fst ps) \<le> length (drop i qs)" using Cons.prems(2,3) by (simp add: p)
  then have len: "length ?m1 = cl" "length ?m2 = sum_list (map fst ps)" by simp_all
  have mid: "mid = ?m1 @ ?m2" using Cons.prems(2) by (simp add: p take_add add.commute)
  have bits: "set_bits qs v cl i (pre @ ?m1 @ ?m2) =
      (if same_block ?m1 then Some (i + cl, pre @ bit_lits ?m1 v @ ?m2) else None)"
    using Cons.prems(1,4) len(1) by (intro set_bits_lits) (simp_all add: p)
  have "set_splits qs ps (i + cl) ((pre @ bit_lits ?m1 v) @ ?m2) =
      (if in_blocks (drop (i + cl) qs) (map fst ps)
       then Some ((pre @ bit_lits ?m1 v) @ split_lits (drop (i + cl) qs) ps) else None)"
    using Cons.prems(1,4) len by (intro Cons.IH) simp_all
  with bits show ?case by (simp add: p mid add.commute)
qed simp

lemma split_lits_length: "sum_list (map fst ps) \<le> length qs \<Longrightarrow> length (split_lits qs ps) = sum_list (map fst ps)"
  by (induction qs ps rule: split_lits.induct) auto

lemma bit_lits_nonzero: "0 \<notin> set qs \<Longrightarrow> 0 \<notin> set (bit_lits qs v)"
  by (induction qs) auto

lemma split_lits_nonzero: "0 \<notin> set qs \<Longrightarrow> 0 \<notin> set (split_lits qs ps)"
proof (induction qs ps rule: split_lits.induct)
  case (2 qs cl v ps)
  then have "0 \<notin> set (take cl qs)" "0 \<notin> set (drop cl qs)" by (meson in_set_takeD in_set_dropD)+
  with 2 show ?case by (simp add: bit_lits_nonzero)
qed simp

lemma unat_word_of_int: "0 \<le> n \<Longrightarrow> n < 2 ^ 31 \<Longrightarrow> unat (word_of_int n :: 64 word) = nat n"
  by (simp add: unsigned_of_int take_bit_int_eq_self)

lemma ceil_log2_int:
  assumes "0 < n" "n < 2 ^ 31"
  shows "n \<le> 2 ^ ceil_log2 (word_of_int n)" and "ceil_log2 (word_of_int n) \<le> 31"
proof -
  let ?w = "word_of_int n :: 64 word"
  have u: "unat ?w = nat n" using assms by (intro unat_word_of_int) simp_all
  then have pos: "0 < unat ?w" using assms by simp
  have "nat n \<le> 2 ^ ceil_log2 ?w" using ceil_log2_bounds(1) [OF pos] u by simp
  then show "n \<le> 2 ^ ceil_log2 ?w" by (simp add: nat_le_iff)
  show "ceil_log2 ?w \<le> 31"
  proof (rule ccontr)
    assume "\<not> ceil_log2 ?w \<le> 31"
    then have "31 \<le> ceil_log2 ?w - 1" "2 ^ (ceil_log2 ?w - 1) < unat ?w"
      using ceil_log2_bounds(2) [OF pos] by auto
    moreover from this(1) have "(2 :: nat) ^ 31 \<le> 2 ^ (ceil_log2 ?w - 1)" by (rule power_increasing) simp
    ultimately have "2 ^ 31 \<le> unat ?w" by linarith
    with u assms(2) show False by simp
  qed
qed

lemma current_lengths:
  assumes "holds c as cur" "cfg_intsplits c = splits"
  shows "map (intsplits_current_length c) [0..<length splits] = split_lens splits"
    and "\<forall>cl \<in> set (split_lens splits). cl \<le> 32"
proof -
  have n: "0 < n \<and> n < 2 ^ 31" if "n \<in> set splits" for n using assms that unfolding holds_def by blast
  show "map (intsplits_current_length c) [0..<length splits] = split_lens splits"
  proof (rule nth_equalityI)
    fix i assume "i < length (map (intsplits_current_length c) [0..<length splits])"
    then have "i < length splits" "splits ! i \<noteq> 0" using n [OF nth_mem, of i] by auto
    then show "map (intsplits_current_length c) [0..<length splits] ! i = split_lens splits ! i"
      using assms(2) by (simp add: split_lens_def intsplits_current_length_def Let_def)
  qed (simp add: split_lens_def)
  show "\<forall>cl \<in> set (split_lens splits). cl \<le> 32"
    using n ceil_log2_int(2) by (fastforce simp: split_lens_def)
qed

lemma intsplit_state_stored:
  assumes h: "holds c as []" and q: "0 \<notin> set qs" and s: "cfg_intsplits c = splits" "length state = length splits"
  shows "if splits_fit qs splits
    then \<exists>d. intsplit_state_to_assumption qs state c = Ret (True, d) \<and> same_options c d
      \<and> holds d (as @ [split_lits qs (zip (split_lens splits) state)]) []
    else intsplit_state_to_assumption qs state c = Ret (False, c)"
proof -
  let ?ls = "split_lens splits" and ?ps = "zip (split_lens splits) state"
  note lens = current_lengths [OF h s(1)]
  have l: "intsplits_summed_length c (length splits) = sum_list ?ls"
    using lens(1) by (simp add: intsplits_summed_length_def)
  have fst: "map fst ?ps = ?ls" using s(2) by (simp add: split_lens_def)
  have ps: "map (\<lambda>i. (intsplits_current_length c i, state ! i)) [0..<length splits] = ?ps"
  proof (rule nth_equalityI)
    fix i assume "i < length (map (\<lambda>i. (intsplits_current_length c i, state ! i)) [0..<length splits])"
    then have i: "i < length splits" by simp
    have "intsplits_current_length c i = ?ls ! i" using i lens(1) by (simp flip: lens(1))
    with i s(2) show "map (\<lambda>i. (intsplits_current_length c i, state ! i)) [0..<length splits] ! i = ?ps ! i"
      by (simp add: split_lens_def)
  qed (use s(2) in \<open>simp add: split_lens_def\<close>)
  have def: "intsplit_state_to_assumption qs state c =
      (if length qs < sum_list ?ls then Ret (False, c)
       else (case set_splits qs ?ps 0 (take (sum_list ?ls) qs) of
              None \<Rightarrow> Ret (False, c)
            | Some assumption \<Rightarrow> bind_outcome (add_all_to_assumptions (take (sum_list ?ls) assumption) c)
                (\<lambda>c1. bind_outcome (add_to_assumptions 0 c1) (\<lambda>c2. Ret (True, c2)))))"
    using s l ps by (simp add: intsplit_state_to_assumption_def Let_def)
  show ?thesis
  proof (cases "length qs < sum_list ?ls")
    case True
    then show ?thesis by (simp add: def splits_fit_def)
  next
    case False
    have p32: "\<forall>p \<in> set ?ps. fst p \<le> 32" using lens(2) by (auto dest: set_zip_leftD)
    have "take (sum_list (map fst ?ps)) (drop 0 qs) = take (sum_list ?ls) qs"
      "length (take (sum_list ?ls) qs) = sum_list (map fst ?ps)" using False by (simp_all add: fst)
    from set_splits_lits [OF _ this(1) [symmetric] this(2) p32, of "[]"]
    have set: "set_splits qs ?ps 0 (take (sum_list ?ls) qs) = (if in_blocks qs ?ls then Some (split_lits qs ?ps) else None)"
      by (simp add: fst)
    show ?thesis
    proof (cases "in_blocks qs ?ls")
      case True
      have "length (split_lits qs ?ps) = sum_list ?ls" using split_lits_length [of ?ps qs] False by (simp add: fst)
      moreover from add_all_to_assumptions_holds [OF h split_lits_nonzero [OF q]] obtain d
        where d: "add_all_to_assumptions (split_lits qs ?ps) c = Ret d" "same_options c d" "holds d as (split_lits qs ?ps)"
        by auto
      moreover from add_to_assumptions_holds [OF d(3), of 0] obtain e
        where "add_to_assumptions 0 d = Ret e" "same_options d e" "holds e (as @ [split_lits qs ?ps]) []" by auto
      ultimately show ?thesis using True False set by (auto simp: def splits_fit_def intro: same_options_trans)
    next
      case blocks: False
      then show ?thesis using set False by (simp add: def splits_fit_def)
    qed
  qed
qed

section \<open>The order of the states\<close>

text \<open>
  The states are the numbers below the product of the splits, in a mixed radix. \<open>le_digits\<close> is
  the state of a number with its last position first; the first position is not reduced, as
  in the loop.
\<close>

fun le_digits :: "nat list \<Rightarrow> nat \<Rightarrow> nat list" where
  "le_digits [] k = []"
| "le_digits [n] k = [k]"
| "le_digits (n # ns) k = (k mod n) # le_digits ns (k div n)"

fun carry_reversed :: "int list \<Rightarrow> int list \<Rightarrow> int list option" where
  "carry_reversed [n] [v] = (if v = s32 (n + 1) then None else Some [v])"
| "carry_reversed (n # m # ns) (v # w # vs) =
     (if v = n then map_option (\<lambda>r. 0 # r) (carry_reversed (m # ns) (s32 (w + 1) # vs)) else Some (v # w # vs))"
| "carry_reversed ns vs = None"

lemma carry_carry_reversed:
  assumes "length state = length splits" "d < length splits"
  shows "carry splits d state =
    (case carry_reversed (rev (take (Suc d) splits)) (rev (take (Suc d) state)) of
       None \<Rightarrow> Undefined_Behaviour | Some r \<Rightarrow> Ret (rev r @ drop (Suc d) state))"
  using assms
proof (induction d arbitrary: state)
  case 0
  then have "take (Suc 0) splits = [splits ! 0]" "take (Suc 0) state = [state ! 0]"
    by (simp_all add: take_Suc_conv_app_nth)
  moreover have "state ! 0 # drop (Suc 0) state = state" using 0 by (cases state) simp_all
  ultimately show ?case by simp
next
  case (Suc d)
  let ?state = "state[Suc d := 0, d := s32 (state ! d + 1)]"
  have lt: "d < length splits" "Suc d < length state" "d < length state" using Suc.prems by simp_all
  have t: "rev (take (Suc (Suc d)) xs) = xs ! Suc d # xs ! d # rev (take d xs)" if "Suc d < length xs" for xs :: "int list"
    using that by (simp add: take_Suc_conv_app_nth)
  have t1: "rev (take (Suc d) xs) = xs ! d # rev (take d xs)" if "d < length xs" for xs :: "int list"
    using that by (simp add: take_Suc_conv_app_nth)
  show ?case
  proof (cases "state ! Suc d = splits ! Suc d")
    case True
    have "drop (Suc d) ?state = 0 # drop (Suc (Suc d)) state"
      using lt by (simp flip: Cons_nth_drop_Suc)
    moreover have "rev (take (Suc d) ?state) = s32 (state ! d + 1) # rev (take d state)"
      using lt t1 [of ?state] by (simp add: take_update_cancel)
    moreover have "carry splits d ?state = (case carry_reversed (rev (take (Suc d) splits)) (rev (take (Suc d) ?state)) of
        None \<Rightarrow> Undefined_Behaviour | Some r \<Rightarrow> Ret (rev r @ drop (Suc d) ?state))"
      using Suc.prems lt by (intro Suc.IH) simp_all
    ultimately show ?thesis
      using True t [OF lt(2)] t [OF Suc.prems(2)] t1 [OF lt(1)] by (simp split: option.split)
  next
    case False
    have "rev (rev (take (Suc (Suc d)) state)) @ drop (Suc (Suc d)) state = state" by simp
    then have "rev (take d state) = rev (take d state)
      \<and> take d state @ [state ! d, state ! Suc d] @ drop (Suc (Suc d)) state = state"
      unfolding t [OF lt(2)] by simp
    with False show ?thesis using t [OF lt(2)] t [OF Suc.prems(2)] by simp
  qed
qed

lemma carry_reversed_digits:
  assumes "ns \<noteq> []" "\<forall>n \<in> set ns. 0 < n \<and> n < 2 ^ 31" "k < prod_list ns"
    and "vs = map int (le_digits ns k)"
  shows "carry_reversed (map int ns) (vs[0 := s32 (vs ! 0 + 1)]) = Some (map int (le_digits ns (k + 1)))"
  using assms
proof (induction ns k arbitrary: vs rule: le_digits.induct)
  case (2 n k)
  have "s32 (2 ^ 31) < 0" by code_simp
  then have "s32 (int n + 1) = int n + 1 \<or> s32 (int n + 1) < 0"
    using 2 by (cases "int n + 1 = 2 ^ 31") (auto simp: s32_id in32_def)
  with 2 have "s32 (int k + 1) = int k + 1" "s32 (int n + 1) \<noteq> int k + 1" by (auto simp: s32_id in32_def)
  with 2 show ?case by simp
next
  case (3 n m ns k)
  let ?ds = "le_digits (m # ns) (k div n)"
  have n: "0 < n" "n < 2 ^ 31" using 3 by simp_all
  have k: "k div n < prod_list (m # ns)" using 3(4) by (simp add: less_mult_imp_div_less mult.commute)
  obtain d ds where ds: "?ds = d # ds" by (cases "(m # ns, k div n)" rule: le_digits.cases) auto
  have s: "s32 (int (k mod n) + 1) = int (k mod n + 1)"
    using n mod_less_divisor [OF n(1), of k] by (subst s32_id) (auto simp: in32_def)
  from 3(1) [OF _ _ k refl] 3(3)
  have IH: "carry_reversed (map int (m # ns)) (s32 (int d + 1) # map int ds) = Some (map int (le_digits (m # ns) (k div n + 1)))"
    by (simp add: ds)
  show ?case
  proof (cases "k mod n + 1 = n")
    case True
    then have "(k + 1) mod n = 0" "(k + 1) div n = k div n + 1" using n by (simp_all add: mod_Suc div_Suc)
    with IH True show ?thesis using 3(5) s by (simp add: ds)
  next
    case False
    then have "(k + 1) mod n = k mod n + 1" "(k + 1) div n = k div n" using n by (simp_all add: mod_Suc div_Suc)
    with False show ?thesis using 3(5) s by (simp add: ds)
  qed
qed simp

text \<open>Read from the front the digits are the usual ones, and counting is the order of all vectors.\<close>

fun digits :: "nat list \<Rightarrow> nat \<Rightarrow> nat list" where
  "digits [] k = []"
| "digits (n # ns) k = (k div prod_list ns) # digits ns (k mod prod_list ns)"

lemma digits_snoc:
  "\<forall>m \<in> set (ns @ [n]). 0 < m \<Longrightarrow> ns \<noteq> [] \<Longrightarrow> digits (ns @ [n]) k = digits ns (k div n) @ [k mod n]"
proof (induction ns arbitrary: k)
  case (Cons m ns)
  let ?p = "prod_list ns"
  have head: "k div (?p * n) = k div n div ?p" by (simp add: div_mult2_eq mult.commute)
  have rest: "k mod (?p * n) = n * (k div n mod ?p) + k mod n" by (simp add: mod_mult2_eq mult.commute)
  have "0 < n" using Cons.prems by simp
  then have r: "k mod (?p * n) div n = k div n mod ?p" "k mod (?p * n) mod n = k mod n" by (simp_all add: rest)
  show ?case
  proof (cases "ns = []")
    case True
    then show ?thesis by simp
  next
    case False
    then have "digits (ns @ [n]) (k mod (?p * n)) = digits ns (k mod (?p * n) div n) @ [k mod (?p * n) mod n]"
      using Cons by simp
    with r head show ?thesis by simp
  qed
qed simp

lemma le_digits_rev:
  "\<forall>n \<in> set ns. 0 < n \<Longrightarrow> ns \<noteq> [] \<Longrightarrow> rev (le_digits ns k) = digits (rev ns) k"
proof (induction ns k rule: le_digits.induct)
  case (3 n m ns k)
  have "digits (rev (m # ns) @ [n]) k = digits (rev (m # ns)) (k div n) @ [k mod n]"
    using 3(2) by (intro digits_snoc) auto
  with 3 show ?case by simp
qed simp_all

lemma count_blocks: "map f [0..<m * p] = concat (map (\<lambda>x. map (\<lambda>y. f (x * p + y)) [0..<p]) [0..<m])"
proof (induction m)
  case (Suc m)
  have "map f [m * p..<m * p + p] = map (\<lambda>y. f (m * p + y)) [0..<p]"
    by (intro nth_equalityI) simp_all
  moreover have "[0..<Suc m * p] = [0..<m * p] @ [m * p..<m * p + p]"
    using upt_add_eq_append [of 0 "m * p" p] by (simp add: add.commute)
  ultimately show ?case using Suc by simp
qed simp

lemma digits_vectors:
  "\<forall>n \<in> set ns. 0 < n \<Longrightarrow> map (digits ns) [0..<prod_list ns] = product_lists (map (\<lambda>n. [0..<n]) ns)"
proof (induction ns)
  case (Cons n ns)
  let ?p = "prod_list ns"
  have pos: "0 < ?p" using Cons.prems by (induction ns) auto
  have "map (\<lambda>y. digits (n # ns) (x * ?p + y)) [0..<?p] = map ((#) x) (map (digits ns) [0..<?p])" for x
    using pos by (intro nth_equalityI) simp_all
  then have "map (digits (n # ns)) [0..<n * ?p]
      = concat (map (\<lambda>x. map ((#) x) (map (digits ns) [0..<?p])) [0..<n])"
    by (simp only: count_blocks)
  with Cons show ?case by (simp del: digits.simps(2))
qed simp

text \<open>The states of splits: all vectors of numbers below them, in lexicographic order.\<close>

definition split_states :: "int list \<Rightarrow> int list list" where
  "split_states splits = product_lists (map (\<lambda>n. [0..n - 1]) splits)"

lemma product_lists_map: "product_lists (map (map f) xss) = map (map f) (product_lists xss)"
  by (induction xss) (simp_all add: map_concat comp_def)

lemma split_states_digits:
  assumes "\<forall>n \<in> set splits. 0 < n"
  shows "split_states splits = map (\<lambda>k. map int (digits (map nat splits) k)) [0..<prod_list (map nat splits)]"
proof -
  have up: "[0..n - 1] = map int [0..<nat n]" if "0 < n" for n
    using that by (intro nth_equalityI) simp_all
  have "map (\<lambda>n. [0..n - 1]) splits = map (map int) (map (\<lambda>n. [0..<n]) (map nat splits))"
    using assms up by simp
  moreover have "map (digits (map nat splits)) [0..<prod_list (map nat splits)] = product_lists (map (\<lambda>n. [0..<n]) (map nat splits))"
    using assms by (intro digits_vectors) auto
  ultimately have "split_states splits = map (map int) (map (digits (map nat splits)) [0..<prod_list (map nat splits)])"
    unfolding split_states_def by (simp only: product_lists_map)
  then show ?thesis by (simp add: comp_def)
qed

lemma length_digits [simp]: "length (digits ns k) = length ns"
  by (induction ns arbitrary: k) simp_all

lemma digits_zero: "map int (digits ns 0) = replicate (length ns) 0"
  by (induction ns) simp_all

section \<open>All assumptions of the splits\<close>

lemma carry_next:
  assumes "splits \<noteq> []" "\<forall>n \<in> set splits. 0 < n \<and> n < 2 ^ 31" "k < prod_list (map nat splits)"
    and "state = map int (digits (map nat splits) k)" "l = length splits - 1"
  shows "carry splits l (state[l := s32 (state ! l + 1)]) = Ret (map int (digits (map nat splits) (k + 1)))"
proof -
  let ?ns = "map nat splits" and ?x = "s32 (state ! l + 1)"
  have pos: "\<forall>n \<in> set (rev ?ns). 0 < n" "rev ?ns \<noteq> []" using assms(1,2) by auto
  have rev: "rev (map int (digits ?ns j)) = map int (le_digits (rev ?ns) j)" for j
  proof -
    have "digits ?ns j = rev (le_digits (rev ?ns) j)" using le_digits_rev [OF pos, of j] by simp
    then show ?thesis by (simp only: rev_map rev_rev_ident)
  qed
  have len: "length state = length splits" "0 < length splits" "Suc l = length splits" using assms(1,4,5) by simp_all
  have "rev splits = map int (rev ?ns)" using assms(2) by (simp add: rev_map) (intro map_idI [symmetric], auto)
  moreover have "rev (state[l := ?x]) = (rev state)[0 := ?x]" using len by (simp add: rev_update)
  moreover have "state ! l = rev state ! 0" using len assms(5) by (simp add: rev_nth)
  moreover have "carry_reversed (map int (rev ?ns)) ((rev state)[0 := s32 (rev state ! 0 + 1)])
      = Some (map int (le_digits (rev ?ns) (k + 1)))"
    using assms(2,3) pos(2) rev by (intro carry_reversed_digits) (auto simp: assms(4))
  ultimately have "carry_reversed (rev splits) (rev (state[l := ?x])) = Some (rev (map int (digits ?ns (k + 1))))"
    by (simp only: rev)
  then show ?thesis using carry_carry_reversed [of "state[l := ?x]" splits l] len by simp
qed

lemma first_digit:
  assumes "splits \<noteq> []" "\<forall>n \<in> set splits. 0 < n \<and> n < 2 ^ 31"
  shows "map int (digits (map nat splits) k) ! 0 \<le> s32 (splits ! 0 - 1) \<longleftrightarrow> k < prod_list (map nat splits)"
proof -
  obtain n ns where s: "splits = n # ns" using assms(1) by (cases splits) auto
  let ?p = "prod_list (map nat ns)"
  have n: "0 < n" "n < 2 ^ 31" and "0 \<notin> set (map nat ns)" using assms(2) by (auto simp: s)
  then have "0 < ?p" by (simp add: prod_list_zero_iff flip: neq0_conv)
  have "s32 (n - 1) = n - 1" using n by (simp add: s32_id in32_def)
  then have "map int (digits (map nat splits) k) ! 0 \<le> s32 (splits ! 0 - 1) \<longleftrightarrow> int (k div ?p) \<le> n - 1"
    by (simp add: s)
  also have "\<dots> \<longleftrightarrow> k div ?p < nat n" using n by linarith
  also have "\<dots> \<longleftrightarrow> k < nat n * ?p" using \<open>0 < ?p\<close> by (rule div_less_iff_less_mult)
  finally show ?thesis by (simp add: s)
qed

text \<open>The assumption of a state.\<close>

definition state_lits :: "int list \<Rightarrow> int list \<Rightarrow> int list \<Rightarrow> int list" where
  "state_lits qs splits state = split_lits qs (zip (split_lens splits) state)"

lemma inflate_loop_states:
  assumes s: "splits \<noteq> []" "\<forall>n \<in> set splits. 0 < n \<and> n < 2 ^ 31" and q: "0 \<notin> set qs" and f: "splits_fit qs splits"
    and "holds c as []" "cfg_intsplits c = splits" "k \<le> prod_list (map nat splits)"
  shows "\<exists>d. inflate_loop qs (map int (digits (map nat splits) k)) c = Some (Ret (True, d)) \<and> same_options c d
    \<and> holds d (as @ map (\<lambda>j. state_lits qs splits (map int (digits (map nat splits) j))) [k..<prod_list (map nat splits)]) []"
  using assms(5-)
proof (induction "prod_list (map nat splits) - k" arbitrary: k c as)
  case 0
  then have "k = prod_list (map nat splits)" by simp
  with 0 first_digit [OF s, of k] show ?case by (subst inflate_loop.simps) auto
next
  case (Suc x)
  let ?st = "map int (digits (map nat splits) k)" and ?last = "length splits - 1"
  have k: "k < prod_list (map nat splits)" using Suc.hyps(2) by simp
  from intsplit_state_stored [OF Suc.prems(1) q Suc.prems(2), of ?st] f obtain d
    where d: "intsplit_state_to_assumption qs ?st c = Ret (True, d)" "same_options c d"
      "holds d (as @ [state_lits qs splits ?st]) []" by (auto simp: state_lits_def)
  have sp: "cfg_intsplits d = splits" using same_options_fields [OF d(2)] Suc.prems(2) by simp
  from carry_next [OF s k refl refl]
  have "inflate_loop qs ?st c = inflate_loop qs (map int (digits (map nat splits) (k + 1))) d"
    using d(1) first_digit [OF s, of k] k Suc.prems(2) sp by (subst inflate_loop.simps) (simp add: Let_def)
  moreover have "x = prod_list (map nat splits) - (k + 1)" "k + 1 \<le> prod_list (map nat splits)"
    using Suc.hyps(2) k by simp_all
  note Suc.hyps(1) [OF this(1) d(3) sp this(2)]
  ultimately show ?case using d(2) k by (auto simp: upt_conv_Cons intro: same_options_trans)
qed

lemma inflate_states_lemma:
  assumes "holds c as []" and "qs \<noteq> []" and "0 \<notin> set qs" and "cfg_intsplits c \<noteq> []"
  shows "if splits_fit qs (cfg_intsplits c)
    then \<exists>d. inflate_intsplits qs c = Some (Ret (True, d)) \<and> same_options c d
      \<and> holds d (as @ map (state_lits qs (cfg_intsplits c)) (split_states (cfg_intsplits c))) []
    else inflate_intsplits qs c = Some (Ret (False, c))"
proof -
  let ?splits = "cfg_intsplits c"
  have s: "\<forall>n \<in> set ?splits. 0 < n \<and> n < 2 ^ 31" using assms(1) unfolding holds_def by blast
  have "0 < prod_list (map nat ?splits)" using s by (fastforce simp: prod_list_zero_iff simp flip: neq0_conv)
  have zero: "map int (digits (map nat ?splits) 0) = replicate (length ?splits) 0"
    using digits_zero [of "map nat ?splits"] by simp
  show ?thesis
  proof (cases "splits_fit qs ?splits")
    case True
    have "0 \<le> prod_list (map nat ?splits)" by simp
    from inflate_loop_states [OF assms(4) s assms(3) True assms(1) refl this]
    show ?thesis using assms(2,4) True s
      by (simp add: inflate_intsplits_def zero split_states_digits comp_def)
  next
    case False
    have "length (replicate (length ?splits) (0 :: int)) = length ?splits" by simp
    from intsplit_state_stored [OF assms(1,3) refl this] False
    have "intsplit_state_to_assumption qs (replicate (length ?splits) 0) c = Ret (False, c)" by simp
    moreover have "replicate (length ?splits) 0 ! 0 \<le> s32 (?splits ! 0 - 1)"
      using first_digit [OF assms(4) s, of 0] \<open>0 < prod_list _\<close> unfolding zero by simp
    ultimately show ?thesis using assms(2,4) False by (subst inflate_intsplits_def, subst inflate_loop.simps) simp
  qed
qed

text \<open>
  C31. Integer splits. On a prefix without a 0 \<open>inflate_intsplits\<close> always ends. When every split
  lies in one block of the prefix it adds, after the assumptions already there, one assumption for every
  vector of numbers below the splits, in lexicographic order, each the prefix variables with the
  bits of the numbers as signs. Otherwise it fails and leaves the configuration as it was.
\<close>

theorem inflate_intsplits_states:
  assumes "holds c as []" and "qs \<noteq> []" and "0 \<notin> set qs" and "cfg_intsplits c \<noteq> []"
  shows "if splits_fit qs (cfg_intsplits c)
    then \<exists>d. inflate_intsplits qs c = Some (Ret (True, d)) \<and> same_options c d
      \<and> holds d (as @ map (state_lits qs (cfg_intsplits c)) (split_states (cfg_intsplits c))) []
    else inflate_intsplits qs c = Some (Ret (False, c))"
  by (rule inflate_states_lemma [OF assms])

text \<open>Different numbers of one split have different literals.\<close>

lemma bit_lits_inj:
  assumes "bit_lits qs v = bit_lits qs w" "0 \<notin> set qs"
  shows "i < length qs \<Longrightarrow> bit v i = bit w i"
  using assms
proof (induction qs)
  case (Cons q qs)
  then have "bit v (length qs) = bit w (length qs)" by (auto split: if_splits)
  with Cons show ?case by (cases "i = length qs") auto
qed simp

lemma bits_below:
  assumes "0 \<le> v" "v < 2 ^ cl" "0 \<le> w" "w < 2 ^ cl" "\<And>i. i < cl \<Longrightarrow> bit v i = bit (w :: int) i"
  shows "v = w"
proof -
  have "take_bit cl v = take_bit cl w" using assms(5) by (auto simp: bit_eq_iff bit_take_bit_iff)
  then show ?thesis using assms(1-4) by (simp add: take_bit_int_eq_self)
qed

lemma split_lits_inj:
  assumes "split_lits qs (zip (split_lens splits) vs) = split_lits qs (zip (split_lens splits) ws)"
    and "length vs = length splits" "length ws = length splits" "0 \<notin> set qs" "sum_list (split_lens splits) \<le> length qs"
    and "\<forall>n \<in> set splits. 0 < n \<and> n < 2 ^ 31"
    and "list_all2 (\<lambda>v n. 0 \<le> v \<and> v < n) vs splits" "list_all2 (\<lambda>v n. 0 \<le> v \<and> v < n) ws splits"
  shows "vs = ws"
  using assms
proof (induction splits arbitrary: qs vs ws)
  case (Cons n splits)
  obtain v vs' w ws' where vw: "vs = v # vs'" "ws = w # ws'" using Cons.prems(2,3) by (metis Suc_length_conv)
  let ?cl = "ceil_log2 (word_of_int n)"
  have lens: "split_lens (n # splits) = ?cl # split_lens splits" by (simp add: split_lens_def)
  have cl: "?cl \<le> length qs" "n \<le> 2 ^ ?cl" using Cons.prems(5,6) ceil_log2_int [of n] by (auto simp: lens)
  have eq: "bit_lits (take ?cl qs) v = bit_lits (take ?cl qs) w"
    "split_lits (drop ?cl qs) (zip (split_lens splits) vs') = split_lits (drop ?cl qs) (zip (split_lens splits) ws')"
    using Cons.prems(1) by (simp_all add: vw lens)
  have "0 \<notin> set (take ?cl qs)" using Cons.prems(4) by (meson in_set_takeD)
  then have bits: "bit v i = bit w i" if "i < ?cl" for i using bit_lits_inj [OF eq(1)] cl(1) that by simp
  have "0 \<le> v" "v < 2 ^ ?cl" "0 \<le> w" "w < 2 ^ ?cl" using cl(2) Cons.prems(7,8) by (auto simp: vw)
  then have v: "v = w" using bits by (rule bits_below)
  have "0 \<notin> set (drop ?cl qs)" using Cons.prems(4) by (meson in_set_dropD)
  moreover have "length vs' = length splits" "length ws' = length splits" "\<forall>n \<in> set splits. 0 < n \<and> n < 2 ^ 31"
    "list_all2 (\<lambda>v n. 0 \<le> v \<and> v < n) vs' splits" "list_all2 (\<lambda>v n. 0 \<le> v \<and> v < n) ws' splits"
    using Cons.prems(2,3,6-8) by (simp_all add: vw)
  moreover have "sum_list (split_lens splits) \<le> length (drop ?cl qs)" using Cons.prems(5) by (simp add: lens)
  ultimately have "vs' = ws'" using eq(2) by (intro Cons.IH [of "drop ?cl qs" vs' ws'])
  with v show ?case by (simp add: vw)
qed simp

lemma in_split_states: "vs \<in> set (split_states splits) \<longleftrightarrow> list_all2 (\<lambda>v n. 0 \<le> v \<and> v < n) vs splits"
proof (induction splits arbitrary: vs)
  case (Cons n splits)
  have "vs \<in> set (split_states (n # splits)) \<longleftrightarrow> (\<exists>x xs. vs = x # xs \<and> 0 \<le> x \<and> x < n \<and> xs \<in> set (split_states splits))"
    unfolding split_states_def by auto
  with Cons show ?case by (cases vs) auto
qed (auto simp: split_states_def)

lemma distinct_state_lits:
  assumes "splits_fit qs splits" and "0 \<notin> set qs" and "\<forall>n \<in> set splits. 0 < n \<and> n < 2 ^ 31"
  shows "distinct (map (state_lits qs splits) (split_states splits))"
proof -
  have "distinct (split_states splits)"
    unfolding split_states_def by (intro distinct_product_lists) auto
  moreover have "inj_on (state_lits qs splits) (set (split_states splits))"
  proof (rule inj_onI)
    fix vs ws assume "vs \<in> set (split_states splits)" "ws \<in> set (split_states splits)"
      "state_lits qs splits vs = state_lits qs splits ws"
    then show "vs = ws" using assms split_lits_inj [of qs splits vs ws]
      by (auto simp: in_split_states state_lits_def splits_fit_def dest: list_all2_lengthD)
  qed
  ultimately show ?thesis by (simp add: distinct_map)
qed

lemma length_split_states: "length (split_states splits) = prod_list (map nat splits)"
  by (induction splits) (simp_all add: split_states_def length_concat comp_def sum_list_triv)

text \<open>
  C32. No assumption is generated twice. When \<open>inflate_intsplits\<close> succeeds it has added as many
  assumptions as the product of the splits, and they are pairwise different: \<open>ceil_log2\<close> gives every
  split enough variables for all its numbers.
\<close>

theorem split_assumptions_distinct:
  assumes "holds c as []" and "qs \<noteq> []" and "0 \<notin> set qs" and "cfg_intsplits c \<noteq> []"
    and "inflate_intsplits qs c = Some (Ret (True, d))"
  shows "\<exists>bs. holds d (as @ bs) [] \<and> distinct bs \<and> length bs = prod_list (map nat (cfg_intsplits c))"
proof -
  let ?splits = "cfg_intsplits c"
  from inflate_states_lemma [OF assms(1-4)] assms(5) have fit: "splits_fit qs ?splits"
    and h: "holds d (as @ map (state_lits qs ?splits) (split_states ?splits)) []"
    by (auto split: if_splits)
  have "\<forall>n \<in> set ?splits. 0 < n \<and> n < 2 ^ 31" using assms(1) unfolding holds_def by blast
  from distinct_state_lits [OF fit assms(3) this] h show ?thesis
    by (intro exI [of _ "map (state_lits qs ?splits) (split_states ?splits)"]) (simp add: length_split_states)
qed

end
