(* ===== verification/Quapi_Cli.thy ===== *)
theory Quapi_Cli
  imports Quapi_Files Quapi_Intsplit
begin

text \<open>
  The command line of Quapify: \<open>parse_cli\<close> of \<open>quapify.c\<close> with the parts of the C library it uses,
  \<open>strtol\<close>, \<open>atoi\<close> and \<open>getopt\<close>, which moves the words that are no options behind the options.
  A process that exits is \<open>Exited\<close> with its status; the messages on \<open>stderr\<close> are left out.
\<close>

section \<open>Numbers\<close>

definition isspace :: "char \<Rightarrow> bool" where
  "isspace c \<longleftrightarrow> c = SPC \<or> (9 :: nat) \<le> of_char c \<and> (of_char c :: nat) \<le> 13"

definition isalpha :: "char \<Rightarrow> bool" where
  "isalpha c \<longleftrightarrow> (65 :: nat) \<le> of_char c \<and> (of_char c :: nat) \<le> 90
     \<or> (97 :: nat) \<le> of_char c \<and> (of_char c :: nat) \<le> 122"

definition LONG_MAX :: int where "LONG_MAX = 2 ^ 63 - 1"

definition number_value :: "string \<Rightarrow> int" where
  "number_value ds = fold (\<lambda>d v. v * 10 + int (digit_value d)) ds 0"

text \<open>\<open>strtol\<close> to base 10; \<open>None\<close> when there are no digits, where \<open>endptr\<close> stays at the start.\<close>

definition strtol10 :: "string \<Rightarrow> int option" where
  "strtol10 w =
     (let s = dropWhile isspace w;
          neg = (s \<noteq> [] \<and> hd s = CHR ''-'');
          ds = takeWhile isdigit (if s \<noteq> [] \<and> (hd s = CHR ''-'' \<or> hd s = CHR ''+'') then tl s else s)
      in if ds = [] then None
         else Some (if neg then max (- LONG_MAX - 1) (- number_value ds) else min LONG_MAX (number_value ds)))"

definition atoi :: "string \<Rightarrow> int" where
  "atoi w = (case strtol10 w of None \<Rightarrow> 0 | Some n \<Rightarrow> s32 n)"

section \<open>Options\<close>

definition EXIT_SUCCESS :: int where "EXIT_SUCCESS = 0"
definition EXIT_FAILURE :: int where "EXIT_FAILURE = 1"

text \<open>The options without an argument; \<open>None\<close> is an unknown character.\<close>

definition flag_option :: "char \<Rightarrow> quapify_config \<Rightarrow> quapify_config option" where
  "flag_option ch c =
     (if ch = CHR ''v'' then Some (c\<lparr>option_verbose := True\<rparr>)
      else if ch = CHR ''d'' then Some (c\<lparr>env_debug := True\<rparr>)
      else if ch = CHR ''t'' then Some (c\<lparr>env_trace := True\<rparr>)
      else if ch = CHR ''p'' then Some (c\<lparr>cfg_print_assumptions := True\<rparr>)
      else if ch = CHR ''g'' then Some (c\<lparr>cfg_generate_list := True\<rparr>)
      else if ch = CHR ''r'' then Some (c\<lparr>cfg_strictness := RELAXED_PARSING\<rparr>)
      else if ch = CHR ''s'' then Some (c\<lparr>cfg_strictness := PEDANTIC_PARSING\<rparr>)
      else if ch = CHR ''S'' then Some (c\<lparr>cfg_stringify_result := True\<rparr>)
      else if ch = CHR ''H'' then Some (c\<lparr>cfg_print_header := True\<rparr>)
      else if ch = CHR ''W'' then Some (c\<lparr>cfg_wrap_assumption := True\<rparr>)
      else None)"

text \<open>
  The loop of \<open>-a\<close> over the words, the argument of the option included: what is left, and the
  last number, \<open>None\<close> as long as the variable is not initialised.
\<close>

definition assumption_word :: "string \<Rightarrow> bool" where
  "assumption_word w \<longleftrightarrow> w = [] \<or> \<not> isalpha (hd w) \<and> (hd w \<noteq> CHR ''-'' \<or> tl w \<noteq> [] \<and> isdigit (hd (tl w)))"

fun read_assumptions ::
    "string list \<Rightarrow> int option \<Rightarrow> quapify_config \<Rightarrow> (string list \<times> int option \<times> quapify_config) outcome" where
  "read_assumptions [] l c = Ret ([], l, c)"
| "read_assumptions (w # ws) l c =
     (if \<not> assumption_word w then Ret (w # ws, l, c)
      else
        (case strtol10 w of
           None \<Rightarrow> Exited EXIT_FAILURE
         | Some n \<Rightarrow> bind_outcome (add_to_assumptions (s32 n) c) (read_assumptions ws (Some (s32 n)))))"

text \<open>\<open>case 'a'\<close>, for the words from \<open>optind - 1\<close> on; reading the uninitialised number is undefined.\<close>

definition assumption_option ::
    "string \<Rightarrow> string list \<Rightarrow> quapify_config \<Rightarrow> (string list \<times> quapify_config) outcome" where
  "assumption_option optarg words c =
     (if optarg = ''--'' then Exited EXIT_FAILURE
      else
        bind_outcome (read_assumptions words None c)
          (\<lambda>(rest, l, c1).
             case l of
               None \<Rightarrow> Undefined_Behaviour
             | Some n \<Rightarrow>
                 if n \<noteq> 0 then bind_outcome (add_to_assumptions 0 c1) (\<lambda>c2. Ret (rest, c2)) else Ret (rest, c1)))"

text \<open>
  The characters of an option word; an option that takes an argument takes the rest of the word
  or the next word. The result is the words after it.
\<close>

fun option_word :: "string \<Rightarrow> string \<Rightarrow> string list \<Rightarrow> quapify_config \<Rightarrow> (string list \<times> quapify_config) outcome" where
  "option_word w [] ws c = Ret (ws, c)"
| "option_word w (ch # chs) ws c =
     (case flag_option ch c of
        Some c' \<Rightarrow> option_word w chs ws c'
      | None \<Rightarrow>
          (if ch \<notin> set ''haiI'' then Exited EXIT_SUCCESS
           else if chs = [] \<and> ws = [] then Exited EXIT_SUCCESS
           else
             (let optarg = (if chs = [] then hd ws else chs);
                  rest = (if chs = [] then tl ws else ws)
              in if ch = CHR ''h'' then Exited EXIT_SUCCESS
                 else if ch = CHR ''a'' then assumption_option optarg (if chs = [] then ws else w # ws) c
                 else if ch = CHR ''i'' then
                   bind_outcome (add_intsplit_nesting_level (atoi optarg) c) (\<lambda>c'. Ret (rest, c'))
                 else Ret (rest, c\<lparr>cfg_selected := atoi optarg\<rparr>))))"

lemma read_assumptions_shorter:
  "read_assumptions ws l c = Ret (ws', l', c') \<Longrightarrow> length ws' \<le> length ws"
  by (induction ws l c rule: read_assumptions.induct)
    (auto split: if_splits option.splits simp: bind_outcome_Ret_iff intro: le_SucI)

lemma assumption_option_shorter:
  assumes "assumption_option w words c = Ret (ws', c')"
  shows "length ws' < length words"
proof -
  from assms obtain l c1 where r: "read_assumptions words None c = Ret (ws', Some l, c1)"
    by (auto simp: assumption_option_def bind_outcome_Ret_iff split: if_splits option.splits)
  then obtain x xs where words: "words = x # xs" by (cases words) auto
  from r obtain d n where "read_assumptions xs (Some n) d = Ret (ws', Some l, c1)"
    by (auto simp: words bind_outcome_Ret_iff split: if_splits option.splits)
  then show ?thesis using read_assumptions_shorter by (simp add: words le_imp_less_Suc)
qed

lemma option_word_shorter:
  "option_word w chs ws c = Ret (ws', c') \<Longrightarrow> length ws' \<le> length ws"
proof (induction w chs ws c rule: option_word.induct)
  case (2 w ch chs ws c)
  then show ?case
    by (auto simp: bind_outcome_Ret_iff Let_def split: option.splits if_splits dest!: assumption_option_shorter)
qed simp

text \<open>
  \<open>getopt\<close> over the words; the words \<open>operands\<close> that are no options come before the rest. An
  argument of \<open>-a\<close> that is attached leaves the words as they are, but then reads an uninitialised
  number, so every round takes a word.
\<close>

function option_words ::
    "string list \<Rightarrow> string list \<Rightarrow> quapify_config \<Rightarrow> (string list \<times> quapify_config) outcome" where
  "option_words [] operands c = Ret (operands, c)"
| "option_words (w # ws) operands c =
     (if w = ''--'' then Ret (operands @ ws, c)
      else if w = [] \<or> hd w \<noteq> CHR ''-'' \<or> tl w = [] then option_words ws (operands @ [w]) c
      else
        (case option_word w (tl w) ws c of
           Ret (ws', c') \<Rightarrow> option_words ws' operands c'
         | Exited n \<Rightarrow> Exited n
         | Assert_Failed \<Rightarrow> Assert_Failed
         | Undefined_Behaviour \<Rightarrow> Undefined_Behaviour))"
  by pat_completeness auto
termination
  by (relation "measure (\<lambda>(ws, operands, c). length ws)") (auto dest: option_word_shorter simp: le_imp_less_Suc)

definition start_config :: quapify_config where
  "start_config = \<lparr>cfg_assumptions_count = 0, cfg_max_assumption_size = 0, cfg_assumptions_capacity = 0,
     cfg_assumptions = [], cfg_highest_intsplit = 0, cfg_intsplits_capacity = 0, cfg_intsplits = [],
     cfg_print_assumptions = False, cfg_stringify_result = False, cfg_print_header = False,
     cfg_wrap_assumption = False, cfg_generate_list = False, cfg_selected = -1,
     cfg_strictness = NORMAL_PARSING, cfg_input = None, cfg_solver = None, cfg_solver_argv = [],
     current_assumption_size = 0, option_verbose = False, env_debug = False, env_trace = False\<rparr>"

text \<open>\<open>parse_cli\<close>, on the words after the name of the program.\<close>

definition finish_cli :: "string list \<Rightarrow> quapify_config \<Rightarrow> quapify_config outcome" where
  "finish_cli rest c =
     bind_outcome
       (if cfg_assumptions_count c = 0 \<and> cfg_intsplits c = [] then add_to_assumptions 0 c else Ret c)
       (\<lambda>c1. if \<not> cfg_generate_list c1 \<and> rest = [] then Exited EXIT_FAILURE
          else Ret (c1\<lparr>cfg_solver := (case rest of [] \<Rightarrow> None | w # _ \<Rightarrow> Some w), cfg_solver_argv := tl rest\<rparr>))"

definition parse_cli :: "file_env \<Rightarrow> string list \<Rightarrow> quapify_config outcome" where
  "parse_cli e args =
     (case args of
        [] \<Rightarrow> finish_cli [] start_config
      | input # words \<Rightarrow>
          (if input \<in> {''-h'', ''--help'', ''-?''} then Exited EXIT_SUCCESS
           else if \<not> kissat_file_exists e (Some input) then Exited EXIT_FAILURE
           else
             bind_outcome (option_words words [] (start_config\<lparr>cfg_input := Some input\<rparr>))
               (\<lambda>(rest, c). finish_cli rest c)))"

section \<open>The configurations it gives\<close>

text \<open>Every option keeps the stored assumptions well-formed and closed.\<close>

definition holds_some :: "quapify_config \<Rightarrow> bool" where
  "holds_some c \<longleftrightarrow> (\<exists>as. holds c as [])"

lemma start_config_holds: "holds (start_config\<lparr>cfg_input := i\<rparr>) [] []" "holds start_config [] []"
  by (simp_all add: holds_def start_config_def)

lemma flag_option_holds: "flag_option ch c = Some c' \<Longrightarrow> holds c as cur \<Longrightarrow> holds c' as cur"
  by (auto simp: flag_option_def holds_def split: if_splits)

lemma s32_atoi: "atoi w < 2 ^ 31"
  using in32_s32 [unfolded in32_def] by (simp add: atoi_def split: option.split)

lemma read_assumptions_holds:
  "read_assumptions ws l c = Ret (ws', l', c') \<Longrightarrow> holds c as cur \<Longrightarrow> (l = Some 0 \<longrightarrow> cur = []) \<Longrightarrow>
   \<exists>as' cur'. holds c' as' cur' \<and> (l' = Some 0 \<longrightarrow> cur' = [])"
proof (induction ws l c arbitrary: as cur rule: read_assumptions.induct)
  case (2 w ws l c)
  show ?case
  proof (cases "assumption_word w")
    case True
    with "2.prems"(1) obtain n d where n: "strtol10 w = Some n" "add_to_assumptions (s32 n) c = Ret d"
      "read_assumptions ws (Some (s32 n)) d = Ret (ws', l', c')" by (auto simp: bind_outcome_Ret_iff split: option.splits)
    from add_to_assumptions_holds [OF "2.prems"(2), of "s32 n"] n(2)
    have h: "if s32 n = 0 then holds d (as @ [cur]) [] else holds d as (cur @ [s32 n])" by auto
    show ?thesis
    proof (cases "s32 n = 0")
      case zero: True
      with h "2.IH" [OF _ n(1), of d "as @ [cur]" "[]"] True n(3) show ?thesis by auto
    next
      case False
      with h "2.IH" [OF _ n(1), of d as "cur @ [s32 n]"] True n(3) show ?thesis by auto
    qed
  qed (use 2 in auto)
qed auto

lemma assumption_option_holds:
  assumes "assumption_option w words c = Ret (ws', c')" "holds_some c"
  shows "holds_some c'"
proof -
  from assms(2) obtain as where h: "holds c as []" by (auto simp: holds_some_def)
  from assms(1) obtain n d where r: "read_assumptions words None c = Ret (ws', Some n, d)"
    and c': "if n \<noteq> 0 then add_to_assumptions 0 d = Ret c' else c' = d"
    by (auto simp: assumption_option_def bind_outcome_Ret_iff split: if_splits option.splits)
  from read_assumptions_holds [OF r h] obtain as' cur where d: "holds d as' cur" "n = 0 \<longrightarrow> cur = []" by auto
  show ?thesis
  proof (cases "n = 0")
    case False
    with add_to_assumptions_holds [OF d(1), of 0] c' show ?thesis by (auto simp: holds_some_def)
  qed (use c' d in \<open>auto simp: holds_some_def\<close>)
qed

lemma option_word_holds: "option_word w chs ws c = Ret (ws', c') \<Longrightarrow> holds_some c \<Longrightarrow> holds_some c'"
proof (induction w chs ws c rule: option_word.induct)
  case (2 w ch chs ws c)
  show ?case
  proof (cases "flag_option ch c")
    case (Some d)
    with "2.prems"(2) have "holds_some d" by (auto simp: holds_some_def dest: flag_option_holds)
    with 2 Some show ?thesis by simp
  next
    case None
    from "2.prems"(2) obtain as where h: "holds c as []" by (auto simp: holds_some_def)
    have "add_intsplit_nesting_level (atoi x) c = Ret c' \<Longrightarrow> holds_some c'" for x
    proof -
      assume a: "add_intsplit_nesting_level (atoi x) c = Ret c'"
      obtain d where "add_intsplit_nesting_level (atoi x) c = Ret d" "holds d as []"
        using add_intsplit_holds [OF h s32_atoi [of x]] by (elim exE conjE) (rule that)
      with a show "holds_some c'" by (auto simp: holds_some_def)
    qed
    moreover have "holds_some (c\<lparr>cfg_selected := n\<rparr>)" for n
      using h by (auto simp: holds_some_def holds_def)
    ultimately show ?thesis using "2.prems" None assumption_option_holds
      by (auto simp: Let_def bind_outcome_Ret_iff split: if_splits)
  qed
qed simp

lemma option_words_holds: "option_words ws ops c = Ret (rest, c') \<Longrightarrow> holds_some c \<Longrightarrow> holds_some c'"
proof (induction ws ops c rule: option_words.induct)
  case (2 w ws ops c)
  then show ?case by (auto split: if_splits outcome.splits dest: option_word_holds)
qed simp

lemma finish_cli_holds:
  assumes "finish_cli rest c = Ret c'" "holds_some c"
  shows "holds_some c' \<and> cfg_assumptions c' @ cfg_intsplits c' \<noteq> []"
proof -
  from assms(2) obtain as where h: "holds c as []" by (auto simp: holds_some_def)
  obtain d where d: "(if cfg_assumptions_count c = 0 \<and> cfg_intsplits c = [] then add_to_assumptions 0 c else Ret c) = Ret d"
    "c' = d\<lparr>cfg_solver := (case rest of [] \<Rightarrow> None | w # _ \<Rightarrow> Some w), cfg_solver_argv := tl rest\<rparr>"
    using assms(1) by (auto simp: finish_cli_def bind_outcome_Ret_iff split: if_splits)
  have "\<exists>bs. holds d bs [] \<and> (bs \<noteq> [] \<or> cfg_intsplits d \<noteq> [])"
  proof (cases "cfg_assumptions_count c = 0 \<and> cfg_intsplits c = []")
    case True
    with d(1) add_to_assumptions_holds [OF h, of 0] show ?thesis by auto
  next
    case False
    with d(1) h show ?thesis by (auto simp: holds_def)
  qed
  then obtain bs where "holds d bs []" "bs \<noteq> [] \<or> cfg_intsplits d \<noteq> []" by blast
  then show ?thesis using d(2) by (auto simp: holds_some_def holds_def)
qed

text \<open>
  C33. Every command line. A configuration that \<open>parse_cli\<close> gives is well-formed: its arrays fit into
  their memory, its assumptions are all closed by a 0, its counters are the number and the largest
  length of the assumptions, its splits are positive, and there is an assumption or a split.
\<close>

theorem parse_cli_config:
  assumes "parse_cli e args = Ret c"
  shows "(\<exists>as. holds c as []) \<and> cfg_assumptions c @ cfg_intsplits c \<noteq> []"
proof (cases args)
  case Nil
  with assms finish_cli_holds [of "[]" start_config] start_config_holds show ?thesis
    by (auto simp: parse_cli_def holds_some_def)
next
  case (Cons input words)
  with assms obtain rest d where "option_words words [] (start_config\<lparr>cfg_input := Some input\<rparr>) = Ret (rest, d)"
    "finish_cli rest d = Ret c" by (auto simp: parse_cli_def bind_outcome_Ret_iff split: if_splits)
  with option_words_holds finish_cli_holds start_config_holds show ?thesis unfolding holds_some_def by blast
qed

section \<open>Reading a command line back\<close>

lemma digit_isdigit: "n < 10 \<Longrightarrow> isdigit (digit n) \<and> digit_value (digit n) = n"
  by (simp add: isdigit_def digit_value_def digit_def)

lemma show_nat_number: "list_all isdigit (show_nat n) \<and> show_nat n \<noteq> [] \<and> number_value (show_nat n) = int n"
proof (induction n rule: show_nat.induct)
  case (1 n)
  show ?case
  proof (cases "n < 10")
    case True
    then show ?thesis using digit_isdigit [OF True] by (simp add: show_nat_digit number_value_def)
  next
    case False
    have "n mod 10 < 10" by simp
    moreover have "int (n div 10) * 10 + int n mod 10 = int n" by (simp add: zdiv_int)
    ultimately show ?thesis using 1 False digit_isdigit [of "n mod 10"]
      by (simp add: show_nat_step number_value_def of_nat_mod)
  qed
qed

lemma digit_char: "isdigit c \<Longrightarrow> \<not> isspace c \<and> \<not> isalpha c \<and> c \<noteq> CHR ''-'' \<and> c \<noteq> CHR ''+''"
  by (auto simp: isdigit_def isspace_def isalpha_def)

lemma takeWhile_all: "list_all P xs \<Longrightarrow> takeWhile P xs = xs"
  by (induction xs) auto

lemma strtol10_show_int:
  assumes "\<bar>n\<bar> < 2 ^ 63"
  shows "strtol10 (show_int n) = Some n" and "assumption_word (show_int n)"
proof -
  let ?s = "show_nat (nat \<bar>n\<bar>)"
  obtain d ds where s: "?s = d # ds" "isdigit d" "list_all isdigit ds" "number_value (d # ds) = \<bar>n\<bar>"
    using show_nat_number [of "nat \<bar>n\<bar>"] by (cases ?s) auto
  have ds: "takeWhile isdigit (d # ds) = d # ds" using s by (intro takeWhile_all) simp
  have m: "\<not> isspace (CHR ''-'')" "\<not> isalpha (CHR ''-'')" by (simp_all add: isspace_def isalpha_def)
  show "strtol10 (show_int n) = Some n"
  proof (cases "n < 0")
    case True
    then have "show_int n = CHR ''-'' # d # ds" using s(1) by (simp add: show_int_def)
    with True ds m assms s(4) show ?thesis by (simp add: strtol10_def Let_def s(1) LONG_MAX_def)
  next
    case False
    then have "show_int n = d # ds" using s(1) by (simp add: show_int_def)
    with False ds assms s(4) digit_char [OF s(2)] show ?thesis by (simp add: strtol10_def Let_def s(1) LONG_MAX_def)
  qed
  show "assumption_word (show_int n)"
  proof (cases "n < 0")
    case True
    then have "show_int n = CHR ''-'' # d # ds" using s(1) by (simp add: show_int_def)
    with m s(2) show ?thesis by (simp add: assumption_word_def)
  next
    case False
    then have "show_int n = d # ds" using s(1) by (simp add: show_int_def)
    with digit_char [OF s(2)] show ?thesis by (simp add: assumption_word_def)
  qed
qed

text \<open>The options for assumptions and splits, as a user writes them.\<close>

definition cli_words :: "int list list \<Rightarrow> int list \<Rightarrow> string list \<Rightarrow> string list" where
  "cli_words as splits rest = concat (map (\<lambda>a. ''-a'' # map show_int a) as)
     @ concat (map (\<lambda>n. [''-i'', show_int n]) splits) @ ''--'' # rest"

definition same_cli :: "quapify_config \<Rightarrow> quapify_config \<Rightarrow> bool" where
  "same_cli c d \<longleftrightarrow> cfg_input d = cfg_input c \<and> cfg_selected d = cfg_selected c \<and> cfg_strictness d = cfg_strictness c
     \<and> cfg_generate_list d = cfg_generate_list c"

lemma option_words_start:
  "\<exists>w ws. cli_words as splits rest = w # ws \<and> \<not> assumption_word w"
proof -
  have o: "\<not> assumption_word ''-a''" "\<not> assumption_word ''-i''" "\<not> assumption_word ''--''"
    by (simp_all add: assumption_word_def isdigit_def)
  show ?thesis by (cases as; cases splits) (auto simp: cli_words_def o)
qed

lemma read_assumptions_words:
  assumes "\<forall>l \<in> set ls. in32 l \<and> l \<noteq> 0" "holds c as cur" "\<not> assumption_word w"
  shows "\<exists>d. read_assumptions (map show_int ls @ w # ws) l0 c = Ret (w # ws, if ls = [] then l0 else Some (last ls), d)
    \<and> same_options c d \<and> holds d as (cur @ ls)"
  using assms
proof (induction ls arbitrary: c cur l0)
  case (Cons l ls)
  have l: "in32 l" "\<bar>l\<bar> < 2 ^ 63" "l \<noteq> 0" "s32 l = l" using Cons.prems(1) by (auto simp: in32_def s32_id)
  from add_to_assumptions_holds [OF Cons.prems(2), of l] l(3) obtain d
    where d: "add_to_assumptions l c = Ret d" "same_options c d" "holds d as (cur @ [l])" by auto
  from Cons.IH [OF _ d(3) Cons.prems(3), of "Some l"] Cons.prems(1) obtain e
    where "read_assumptions (map show_int ls @ w # ws) (Some l) d = Ret (w # ws, if ls = [] then Some l else Some (last ls), e)"
      "same_options d e" "holds e as (cur @ l # ls)" by auto
  with d l(4) strtol10_show_int [OF l(2)] show ?case by (auto intro: same_options_trans)
qed simp

lemma option_words_assumption:
  assumes "\<forall>l \<in> set a. in32 l \<and> l \<noteq> 0" "a \<noteq> []" "holds c as []" "\<not> assumption_word w"
  shows "\<exists>d. option_words (''-a'' # map show_int a @ w # ws) ops c = option_words (w # ws) ops d
    \<and> same_options c d \<and> holds d (as @ [a]) []"
proof -
  from read_assumptions_words [OF assms(1,3,4), of ws None] assms(2) obtain d
    where d: "read_assumptions (map show_int a @ w # ws) None c = Ret (w # ws, Some (last a), d)"
      "same_options c d" "holds d as a" by auto
  from add_to_assumptions_holds [OF d(3), of 0] obtain e
    where e: "add_to_assumptions 0 d = Ret e" "same_options d e" "holds e (as @ [a]) []" by auto
  have hd: "assumption_word (hd (map show_int a @ w # ws))"
    using assms(1,2) strtol10_show_int(2) [of "hd a"] by (cases a) (auto simp: in32_def)
  then have "hd (map show_int a @ w # ws) \<noteq> ''--''" by (auto simp: assumption_word_def isdigit_def)
  moreover have "last a \<noteq> 0" using assms(1,2) by simp
  ultimately have "option_word ''-a'' ''a'' (map show_int a @ w # ws) c = Ret (w # ws, e)"
    using d(1) e(1) by (simp add: flag_option_def Let_def assumption_option_def)
  then have "option_words (''-a'' # map show_int a @ w # ws) ops c = option_words (w # ws) ops e" by simp
  with d e show ?thesis by (auto intro: same_options_trans)
qed

lemma option_words_split:
  assumes "0 < n" "n < 2 ^ 31" "holds c as []"
  shows "\<exists>d. option_words (''-i'' # show_int n # ws) ops c = option_words ws ops d
    \<and> same_cli c d \<and> holds d as [] \<and> cfg_intsplits d = cfg_intsplits c @ [n]"
proof -
  have at: "atoi (show_int n) = n" using assms strtol10_show_int(1) [of n] by (simp add: atoi_def s32_id in32_def)
  from add_intsplit_holds [OF assms(3,2)] assms(1) obtain d
    where d: "add_intsplit_nesting_level n c = Ret d" "holds d as []" "cfg_intsplits d = cfg_intsplits c @ [n]" by auto
  have "same_cli c d" using d(1) assms(1)
    by (auto simp: add_intsplit_nesting_level_def Let_def bind_outcome_Ret_iff same_cli_def split: if_splits)
  moreover have "option_word ''-i'' ''i'' (show_int n # ws) c = Ret (ws, d)"
    using d(1) at by (simp add: flag_option_def Let_def)
  then have "option_words (''-i'' # show_int n # ws) ops c = option_words ws ops d" by simp
  ultimately show ?thesis using d by blast
qed

lemma same_cli_trans: "same_cli c d \<Longrightarrow> same_cli d e \<Longrightarrow> same_cli c e"
  by (simp add: same_cli_def)

lemma same_options_cli: "same_options c d \<Longrightarrow> same_cli c d"
  using same_options_fields [of c d] by (simp add: same_cli_def)

lemma option_words_splits:
  assumes "\<forall>n \<in> set splits. 0 < n \<and> n < 2 ^ 31" "holds c as []"
  shows "\<exists>d. option_words (concat (map (\<lambda>n. [''-i'', show_int n]) splits) @ ''--'' # rest) [] c = Ret (rest, d)
    \<and> same_cli c d \<and> holds d as [] \<and> cfg_intsplits d = cfg_intsplits c @ splits"
  using assms
proof (induction splits arbitrary: c)
  case Nil
  then show ?case by (simp add: same_cli_def)
next
  case (Cons n splits)
  let ?ws = "concat (map (\<lambda>n. [''-i'', show_int n]) splits) @ ''--'' # rest"
  from option_words_split [OF _ _ Cons.prems(2), of n ?ws "[]"] Cons.prems(1) obtain d
    where d: "option_words (''-i'' # show_int n # ?ws) [] c = option_words ?ws [] d"
      "same_cli c d" "holds d as []" "cfg_intsplits d = cfg_intsplits c @ [n]" by auto
  from Cons.IH [OF _ d(3)] Cons.prems(1) obtain e
    where "option_words ?ws [] d = Ret (rest, e)" "same_cli d e" "holds e as []"
      "cfg_intsplits e = cfg_intsplits d @ splits" by auto
  with d show ?case by (auto intro: same_cli_trans)
qed

lemma option_words_cli_words:
  assumes "\<forall>a \<in> set as. a \<noteq> [] \<and> (\<forall>l \<in> set a. in32 l \<and> l \<noteq> 0)" "\<forall>n \<in> set splits. 0 < n \<and> n < 2 ^ 31"
    and "holds c bs []"
  shows "\<exists>d. option_words (cli_words as splits rest) [] c = Ret (rest, d)
    \<and> same_cli c d \<and> holds d (bs @ as) [] \<and> cfg_intsplits d = cfg_intsplits c @ splits"
  using assms
proof (induction as arbitrary: c bs)
  case Nil
  with option_words_splits [OF Nil.prems(2,3), of rest] show ?case by (simp add: cli_words_def)
next
  case (Cons a as)
  obtain w ws where w: "cli_words as splits rest = w # ws" "\<not> assumption_word w" using option_words_start by blast
  then have eq: "cli_words (a # as) splits rest = ''-a'' # map show_int a @ w # ws" by (simp add: cli_words_def)
  from Cons.prems(1) have a: "\<forall>l \<in> set a. in32 l \<and> l \<noteq> 0" "a \<noteq> []" by simp_all
  from option_words_assumption [OF a Cons.prems(3) w(2), of ws "[]"] obtain d
    where d: "option_words (cli_words (a # as) splits rest) [] c = option_words (cli_words as splits rest) [] d"
      "same_options c d" "holds d (bs @ [a]) []" unfolding eq w(1) by blast
  from Cons.IH [OF _ Cons.prems(2) d(3)] Cons.prems(1) obtain e
    where "option_words (cli_words as splits rest) [] d = Ret (rest, e)" "same_cli d e" "holds e (bs @ a # as) []"
      "cfg_intsplits e = cfg_intsplits d @ splits" by auto
  with d same_options_fields [OF d(2)] show ?case by (auto intro: same_cli_trans same_options_cli)
qed

lemma holds_solver [simp]: "holds (c\<lparr>cfg_solver := x, cfg_solver_argv := y\<rparr>) as cur = holds c as cur"
  by (simp add: holds_def)

lemma parse_cli_words:
  assumes "kissat_file_exists e (Some input)" and "input \<notin> {''-h'', ''--help'', ''-?''}"
    and "\<forall>a \<in> set as. a \<noteq> [] \<and> (\<forall>l \<in> set a. in32 l \<and> l \<noteq> 0)" and "\<forall>n \<in> set splits. 0 < n \<and> n < 2 ^ 31"
  shows "\<exists>c. parse_cli e (input # cli_words as splits (solver # args)) = Ret c
    \<and> holds c (if as = [] \<and> splits = [] then [[]] else as) [] \<and> cfg_intsplits c = splits
    \<and> cfg_input c = Some input \<and> cfg_solver c = Some solver \<and> cfg_solver_argv c = args
    \<and> cfg_strictness c = NORMAL_PARSING \<and> cfg_selected c = -1 \<and> \<not> cfg_generate_list c"
proof -
  let ?s = "start_config\<lparr>cfg_input := Some input\<rparr>"
  from option_words_cli_words [OF assms(3,4) start_config_holds(1) [of "Some input"], of "solver # args"] obtain d
    where d: "option_words (cli_words as splits (solver # args)) [] ?s = Ret (solver # args, d)"
      "same_cli ?s d" "holds d as []" "cfg_intsplits d = cfg_intsplits ?s @ splits" by auto
  have f: "cfg_input d = Some input" "cfg_selected d = -1" "cfg_strictness d = NORMAL_PARSING" "\<not> cfg_generate_list d"
    "cfg_intsplits d = splits" using d(2,4) by (simp_all add: same_cli_def start_config_def)
  have n: "cfg_assumptions_count d = length as" using d(3) by (simp add: holds_def)
  have cli: "parse_cli e (input # cli_words as splits (solver # args)) = finish_cli (solver # args) d"
    using assms(1,2) d(1) by (simp add: parse_cli_def)
  show ?thesis
  proof (cases "as = [] \<and> splits = []")
    case True
    from add_to_assumptions_holds [OF d(3), of 0] True obtain g
      where g: "add_to_assumptions 0 d = Ret g" "same_options d g" "holds g [[]] []" by auto
    with True n f same_options_fields [OF g(2)]
    show ?thesis unfolding cli by (simp add: finish_cli_def)
  next
    case False
    with n f d(3) show ?thesis unfolding cli by (auto simp: finish_cli_def)
  qed
qed

text \<open>
  C34. The command line read back. For every list of assumptions and splits in range, the command line
  that spells them with \<open>-a\<close> and \<open>-i\<close> and then the solver after \<open>--\<close> gives a configuration that stores
  exactly these assumptions (the empty one when there is nothing to do) and splits, and the
  solver with its arguments.
\<close>

theorem parse_cli_reads_back:
  assumes "kissat_file_exists e (Some input)" and "input \<notin> {''-h'', ''--help'', ''-?''}"
    and "\<forall>a \<in> set as. a \<noteq> [] \<and> (\<forall>l \<in> set a. in32 l \<and> l \<noteq> 0)" and "\<forall>n \<in> set splits. 0 < n \<and> n < 2 ^ 31"
  shows "\<exists>c. parse_cli e (input # cli_words as splits (solver # args)) = Ret c
    \<and> holds c (if as = [] \<and> splits = [] then [[]] else as) [] \<and> cfg_intsplits c = splits
    \<and> cfg_input c = Some input \<and> cfg_solver c = Some solver \<and> cfg_solver_argv c = args
    \<and> cfg_strictness c = NORMAL_PARSING \<and> cfg_selected c = -1 \<and> \<not> cfg_generate_list c"
  by (rule parse_cli_words [OF assms])

end
