(* ===== verification/Quapi_Parse_Text.thy ===== *)
theory Quapi_Parse_Text
  imports Quapi_Parse
begin

text \<open>
  The parser reads the text of a formula back: the round trip between \<open>formula_text\<close>,
  which is what the runtime gives a solver, and the events of \<open>parse_dimacs\<close>.
\<close>

section \<open>Numbers\<close>

lemma isdigit_digit [simp]: "n < 10 \<Longrightarrow> isdigit (digit n)"
  by (simp add: isdigit_def digit_def)

lemma digit_value_digit [simp]: "n < 10 \<Longrightarrow> digit_value (digit n) = n"
  by (simp add: digit_value_def digit_def)

lemma parse_number_append:
  "parse_number limit acc cs = Some (m, []) \<Longrightarrow> parse_number limit acc (cs @ ds) = parse_number limit m ds"
  by (induction limit acc cs rule: parse_number.induct) (auto split: if_splits)

definition stops :: "string \<Rightarrow> bool" where
  "stops cs \<longleftrightarrow> cs = [] \<or> \<not> isdigit (hd cs)"

lemma parse_number_stops: "stops cs \<Longrightarrow> parse_number limit n cs = Some (n, cs)"
  by (cases cs) (auto simp: stops_def)

lemma show_nat_digits:
  "n \<le> limit \<Longrightarrow> \<exists>c cs. show_nat n = c # cs \<and> isdigit c \<and> (c = CHR ''0'' \<longrightarrow> n = 0)
     \<and> parse_number limit (digit_value c) cs = Some (n, [])"
proof (induction n rule: show_nat.induct)
  case (1 n)
  show ?case
  proof (cases "n < 10")
    case True
    have "digit n = CHR ''0'' \<longrightarrow> n = 0"
    proof
      assume "digit n = CHR ''0''"
      then have "digit_value (digit n) = digit_value (digit 0)" by (simp only: digit_0)
      then show "n = 0" using True by (simp only: digit_value_digit)
    qed
    with True show ?thesis by (simp add: show_nat_digit)
  next
    case False
    have "n div 10 \<le> limit" using 1(2) by (meson div_le_dividend le_trans)
    with 1(1) False obtain c cs where c: "show_nat (n div 10) = c # cs" "isdigit c"
      "c = CHR ''0'' \<longrightarrow> n div 10 = 0" "parse_number limit (digit_value c) cs = Some (n div 10, [])" by auto
    have n: "n div 10 * 10 + n mod 10 = n" by simp
    then have "n div 10 * 10 \<le> limit - n mod 10" using 1(2) by linarith
    moreover have "n div 10 \<le> limit div 10" using 1(2) by (rule div_le_mono)
    ultimately have "parse_number limit (n div 10) [digit (n mod 10)] = Some (n, [])"
      using n by simp
    then have "parse_number limit (digit_value c) (cs @ [digit (n mod 10)]) = Some (n, [])"
      using parse_number_append [OF c(4), of "[digit (n mod 10)]"] by (simp only:)
    moreover have "show_nat n = c # cs @ [digit (n mod 10)]" using c(1) False by (simp add: show_nat_step)
    moreover have "c \<noteq> CHR ''0''" using c(3) False by auto
    ultimately show ?thesis using c(2) by blast
  qed
qed

lemma parse_show_nat:
  assumes "n \<le> limit"
  obtains c cs where "show_nat n = c # cs" "isdigit c" "c = CHR ''0'' \<longrightarrow> n = 0"
    "\<And>rest. stops rest \<Longrightarrow> parse_number limit (digit_value c) (cs @ rest) = Some (n, rest)"
proof -
  from show_nat_digits [OF assms] obtain c cs where c: "show_nat n = c # cs" "isdigit c"
    "c = CHR ''0'' \<longrightarrow> n = 0" "parse_number limit (digit_value c) cs = Some (n, [])" by blast
  show ?thesis
    by (rule that [OF c(1-3)]) (simp add: parse_number_append [OF c(4)] parse_number_stops)
qed

lemma stops_simps [simp]: "stops []" "stops (SPC # cs)" "stops (NL # cs)"
  by (simp_all add: stops_def isdigit_def)

lemma digit_chars:
  "isdigit c \<Longrightarrow> c \<noteq> NL \<and> c \<noteq> CR \<and> c \<noteq> CHR ''c'' \<and> c \<noteq> CHR ''-'' \<and> c \<noteq> CHR ''e'' \<and> c \<noteq> CHR ''a'' \<and> \<not> blank c"
  by (auto simp: isdigit_def blank_def)

section \<open>Literals\<close>

text \<open>A literal followed by a space, and a zero at the end of a line.\<close>

definition in_range :: "strictness \<Rightarrow> nat \<Rightarrow> int \<Rightarrow> bool" where
  "in_range strict variables l \<longleftrightarrow> \<bar>l\<bar> < 2 ^ 31 \<and> (strict = RELAXED_PARSING \<or> \<bar>l\<bar> \<le> int variables)"

lemma parse_body_Cons:
  "parse_token strict vs cl b c cs ln = Inr (b', cs', ln') \<Longrightarrow>
   parse_body strict vs cl b (c # cs) ln = parse_body strict vs cl b' cs' ln'"
  by (subst parse_body.simps) simp

lemma parse_body_literal:
  assumes l: "in_range strict vs l" "l \<noteq> 0"
  shows "parse_body strict vs cl b (show_int l @ SPC # rest) ln = parse_body strict vs cl (take_literal b l) rest ln"
proof -
  let ?n = "nat \<bar>l\<bar>"
  have "?n \<le> MAX_VARS" using l by (auto simp: in_range_def MAX_VARS_def nat_le_iff)
  from parse_show_nat [OF this] obtain c cs where c: "show_nat ?n = c # cs" "isdigit c" "c = CHR ''0'' \<longrightarrow> ?n = 0"
    "\<And>rest. stops rest \<Longrightarrow> parse_number MAX_VARS (digit_value c) (cs @ rest) = Some (?n, rest)" by blast
  have c0: "c \<noteq> CHR ''0''" using c(3) l(2) by auto
  have lit: "parse_literal strict vs cl b s c (cs @ SPC # rest) ln = Inr (take_literal b (s * int ?n), rest, ln)" for s
    using l c(4) [of "SPC # rest"]
    by (auto simp: parse_literal_def bind_sum_def after_literal_def blank_def in_range_def)
  note dc = digit_chars [OF c(2)]
  show ?thesis
  proof (cases "l < 0")
    case True
    then have s: "show_int l = CHR ''-'' # c # cs" using c(1) by (simp add: show_int_def)
    have "parse_token strict vs cl b (CHR ''-'') (c # cs @ SPC # rest) ln = Inr (take_literal b l, rest, ln)"
      using lit [of "-1"] dc c(2) c0 True by (simp add: parse_token_def blank_def)
    from parse_body_Cons [OF this] s show ?thesis by simp
  next
    case False
    then have s: "show_int l = c # cs" using c(1) by (simp add: show_int_def)
    have "parse_token strict vs cl b c (cs @ SPC # rest) ln = Inr (take_literal b l, rest, ln)"
      using lit [of 1] dc c(2) False by (simp add: parse_token_def)
    from parse_body_Cons [OF this] s show ?thesis by simp
  qed
qed

lemma parse_body_zero:
  assumes "strict = RELAXED_PARSING \<or> parsed b \<noteq> cl"
  shows "parse_body strict vs cl b (CHR ''0'' # NL # rest) ln = parse_body strict vs cl (take_literal b 0) rest (ln + 1)"
proof -
  have z: "isdigit (CHR ''0'')" "digit_value (CHR ''0'') = 0" by (simp_all add: isdigit_def digit_value_def)
  have n: "parse_number MAX_VARS 0 (NL # rest) = Some (0, NL # rest)" by (rule parse_number_stops) simp
  have "parse_literal strict vs cl b 1 (CHR ''0'') (NL # rest) ln = Inr (take_literal b 0, rest, ln + 1)"
    using assms z n by (auto simp: parse_literal_def bind_sum_def after_literal_def)
  then have "parse_token strict vs cl b (CHR ''0'') (NL # rest) ln = Inr (take_literal b 0, rest, ln + 1)"
    using z digit_chars [OF z(1)] by (simp add: parse_token_def)
  from parse_body_Cons [OF this] show ?thesis .
qed

section \<open>Clauses\<close>

definition clause_events :: "int list \<Rightarrow> parse_event list" where
  "clause_events c = map Add_Lit c @ [Add_Lit 0]"

definition no_block :: "parse_state \<Rightarrow> bool" where
  "no_block b \<longleftrightarrow> \<not> block_exists b \<and> \<not> block_forall b"

lemma parse_body_literals:
  assumes "no_block b" "\<forall>l \<in> set c. in_range strict vs l \<and> l \<noteq> 0"
  shows "parse_body strict vs cl b (concat (map (\<lambda>l. show_int l @ '' '') c) @ rest) ln =
    parse_body strict vs cl
      (b\<lparr>last_lit := (if c = [] then last_lit b else last c), events := events b @ map Add_Lit c\<rparr>) rest ln"
  using assms
proof (induction c arbitrary: b)
  case (Cons l c)
  let ?b = "b\<lparr>last_lit := l, events := events b @ [Add_Lit l]\<rparr>"
  have "take_literal b l = ?b" using Cons.prems by (simp add: take_literal_def no_block_def)
  then have "parse_body strict vs cl b (concat (map (\<lambda>l. show_int l @ '' '') (l # c)) @ rest) ln
      = parse_body strict vs cl ?b (concat (map (\<lambda>l. show_int l @ '' '') c) @ rest) ln"
    using parse_body_literal [of strict vs l] Cons.prems by simp
  also have "\<dots> = parse_body strict vs cl
      (?b\<lparr>last_lit := (if c = [] then last_lit ?b else last c), events := events ?b @ map Add_Lit c\<rparr>) rest ln"
    using Cons.prems by (intro Cons.IH) (auto simp: no_block_def)
  finally show ?case by simp
qed simp

lemma parse_body_clause:
  assumes "no_block b" "\<forall>l \<in> set c. in_range strict vs l \<and> l \<noteq> 0"
    and "strict = RELAXED_PARSING \<or> parsed b \<noteq> cl"
  shows "parse_body strict vs cl b (clause_text c @ rest) ln =
    parse_body strict vs cl
      (b\<lparr>parsed := parsed b + 1, last_lit := 0, events := events b @ clause_events c\<rparr>) rest (ln + 1)"
proof -
  let ?b = "b\<lparr>last_lit := (if c = [] then last_lit b else last c), events := events b @ map Add_Lit c\<rparr>"
  have "parse_body strict vs cl b (clause_text c @ rest) ln
      = parse_body strict vs cl ?b (CHR ''0'' # NL # rest) ln"
    using parse_body_literals [OF assms(1,2), of cl "CHR ''0'' # NL # rest" ln] by (simp add: clause_text_def)
  also have "\<dots> = parse_body strict vs cl (take_literal ?b 0) rest (ln + 1)"
    using assms(3) by (intro parse_body_zero) simp
  also have "take_literal ?b 0 = b\<lparr>parsed := parsed b + 1, last_lit := 0, events := events b @ clause_events c\<rparr>"
    using assms(1) by (simp add: take_literal_def no_block_def clause_events_def)
  finally show ?thesis .
qed

lemma parse_body_clauses:
  assumes "no_block b" "\<forall>c \<in> set cs. \<forall>l \<in> set c. in_range strict vs l \<and> l \<noteq> 0"
    and "strict = RELAXED_PARSING \<or> parsed b + length cs \<le> cl" and "last_lit b = 0"
  shows "parse_body strict vs cl b (concat (map clause_text cs) @ rest) ln =
    parse_body strict vs cl
      (b\<lparr>parsed := parsed b + length cs, events := events b @ concat (map clause_events cs)\<rparr>) rest (ln + length cs)"
  using assms
proof (induction cs arbitrary: b ln)
  case (Cons c cs)
  let ?b = "b\<lparr>parsed := parsed b + 1, last_lit := 0, events := events b @ clause_events c\<rparr>"
  have "parse_body strict vs cl b (concat (map clause_text (c # cs)) @ rest) ln
      = parse_body strict vs cl ?b (concat (map clause_text cs) @ rest) (ln + 1)"
    using parse_body_clause [of b c strict vs cl "concat (map clause_text cs) @ rest" ln] Cons.prems by auto
  also have "\<dots> = parse_body strict vs cl
      (?b\<lparr>parsed := parsed ?b + length cs, events := events ?b @ concat (map clause_events cs)\<rparr>)
      rest (ln + 1 + length cs)"
    using Cons.prems by (intro Cons.IH) (auto simp: no_block_def)
  finally show ?case using Cons.prems(4) by (cases b) simp
qed simp

section \<open>The prefix\<close>

lemma parse_body_quantifiers:
  assumes "\<forall>q \<in> set qs. in_range strict vs q \<and> q \<noteq> 0 \<and> (0 < q) = ex"
    and "block_exists b = ex" "block_forall b = (\<not> ex)"
  shows "parse_body strict vs cl b (concat (map (\<lambda>q. show_int \<bar>q\<bar> @ '' '') qs) @ rest) ln =
    parse_body strict vs cl
      (b\<lparr>last_lit := (if qs = [] then last_lit b else \<bar>last qs\<bar>), events := events b @ map Add_Quantifier qs\<rparr>) rest ln"
  using assms
proof (induction qs arbitrary: b)
  case (Cons q qs)
  let ?b = "b\<lparr>last_lit := \<bar>q\<bar>, events := events b @ [Add_Quantifier q]\<rparr>"
  have "take_literal b \<bar>q\<bar> = ?b" using Cons.prems by (cases ex) (auto simp: take_literal_def)
  moreover have "in_range strict vs \<bar>q\<bar>" "\<bar>q\<bar> \<noteq> 0" using Cons.prems(1) by (auto simp: in_range_def)
  ultimately have "parse_body strict vs cl b (concat (map (\<lambda>q. show_int \<bar>q\<bar> @ '' '') (q # qs)) @ rest) ln
      = parse_body strict vs cl ?b (concat (map (\<lambda>q. show_int \<bar>q\<bar> @ '' '') qs) @ rest) ln"
    using parse_body_literal [of strict vs "\<bar>q\<bar>"] by simp
  also have "\<dots> = parse_body strict vs cl
      (?b\<lparr>last_lit := (if qs = [] then last_lit ?b else \<bar>last qs\<bar>), events := events ?b @ map Add_Quantifier qs\<rparr>) rest ln"
    using Cons.prems by (intro Cons.IH) auto
  finally show ?case by simp
qed simp

lemma block_text_shift:
  "block_text b = (if 0 < hd b then CHR ''e'' else CHR ''a'') # SPC # concat (map (\<lambda>x. show_int \<bar>x\<bar> @ '' '') b) @ ''0'' @ [NL]"
proof -
  have "concat (map (\<lambda>x. '' '' @ show_int \<bar>x\<bar>) b) @ '' '' @ t = '' '' @ concat (map (\<lambda>x. show_int \<bar>x\<bar> @ '' '') b) @ t" for t
    by (induction b) auto
  from this [of "''0'' @ [NL]"] show ?thesis by (simp add: block_text_def block_end_def)
qed

lemma last_lit_same: "last_lit b = 0 \<Longrightarrow> b\<lparr>last_lit := 0, events := e\<rparr> = b\<lparr>events := e\<rparr>"
  by (cases b) simp

lemma close_block:
  "no_block b \<Longrightarrow> take_literal (b\<lparr>block_exists := ex, block_forall := \<not> ex, last_lit := l, events := e\<rparr>) 0
     = b\<lparr>last_lit := 0, events := e\<rparr>"
  by (cases b) (simp add: take_literal_def no_block_def Let_def)

text \<open>A block up to its closing zero, and the whole block.\<close>

lemma parse_body_enter:
  assumes b: "no_block b" and ex: "ex = (0 < hd qs)"
  shows "parse_body strict vs cl b (block_text qs @ rest) ln =
    parse_body strict vs cl (b\<lparr>block_exists := ex, block_forall := \<not> ex\<rparr>)
      (concat (map (\<lambda>x. show_int \<bar>x\<bar> @ '' '') qs) @ CHR ''0'' # NL # rest) ln"
proof -
  let ?ch = "if ex then CHR ''e'' else CHR ''a''"
  let ?nums = "concat (map (\<lambda>x. show_int \<bar>x\<bar> @ '' '') qs)"
  have bl: "b\<lparr>block_exists := True\<rparr> = b\<lparr>block_exists := True, block_forall := False\<rparr>"
    "b\<lparr>block_forall := True\<rparr> = b\<lparr>block_exists := False, block_forall := True\<rparr>"
    using b by (cases b, simp add: no_block_def)+
  have "parse_token strict vs cl b ?ch (SPC # ?nums @ CHR ''0'' # NL # rest) ln
      = Inr (b\<lparr>block_exists := ex, block_forall := \<not> ex\<rparr>, ?nums @ CHR ''0'' # NL # rest, ln)"
    using b bl by (cases ex) (simp_all add: parse_token_def blank_def no_block_def line_read_def)
  from parse_body_Cons [OF this] show ?thesis by (simp add: block_text_shift ex)
qed

lemma parse_body_open_block:
  assumes qs: "\<forall>q \<in> set qs. in_range strict vs q \<and> q \<noteq> 0 \<and> (0 < q) = ex" "qs \<noteq> []" and b: "no_block b"
  shows "parse_body strict vs cl b (block_text qs @ rest) ln =
    parse_body strict vs cl (b\<lparr>block_exists := ex, block_forall := \<not> ex, last_lit := \<bar>last qs\<bar>,
      events := events b @ map Add_Quantifier qs\<rparr>) (CHR ''0'' # NL # rest) ln"
proof -
  have "ex = (0 < hd qs)" using qs by (cases qs) auto
  from parse_body_enter [OF b this] show ?thesis
    using parse_body_quantifiers [OF qs(1), of "b\<lparr>block_exists := ex, block_forall := \<not> ex\<rparr>" cl "CHR ''0'' # NL # rest" ln]
      qs(2) by simp
qed

lemma parse_body_block:
  assumes qs: "\<forall>q \<in> set qs. in_range strict vs q \<and> q \<noteq> 0 \<and> (0 < q) = ex" "qs \<noteq> []"
    and b: "no_block b" and cl: "strict = RELAXED_PARSING \<or> parsed b \<noteq> cl"
  shows "parse_body strict vs cl b (block_text qs @ rest) ln =
    parse_body strict vs cl (b\<lparr>last_lit := 0, events := events b @ map Add_Quantifier qs\<rparr>) rest (ln + 1)"
  using parse_body_open_block [OF qs b] parse_body_zero cl close_block [OF b] by simp

text \<open>The blocks of a prefix have one sign each, and together they are the prefix.\<close>

definition one_sign :: "int list \<Rightarrow> bool" where
  "one_sign blk \<longleftrightarrow> blk \<noteq> [] \<and> (\<forall>q \<in> set blk. (0 < q) = (0 < hd blk))"

lemma one_signI: "blk \<noteq> [] \<Longrightarrow> (\<And>q. q \<in> set blk \<Longrightarrow> (0 < q) = (0 < hd blk)) \<Longrightarrow> one_sign blk"
  unfolding one_sign_def by blast

lemma one_signD: "one_sign blk \<Longrightarrow> q \<in> set blk \<Longrightarrow> (0 < q) = (0 < hd blk)"
  unfolding one_sign_def by blast

lemma one_sign_nonempty: "one_sign blk \<Longrightarrow> blk \<noteq> []"
  unfolding one_sign_def by blast

lemma quantifier_blocks_sign: "list_all one_sign (quantifier_blocks qs)"
proof (induction qs rule: quantifier_blocks.induct)
  case (2 q qs)
  let ?tw = "takeWhile (\<lambda>x. (0 < x) = (0 < q)) qs"
  have "one_sign (q # ?tw)"
  proof (rule one_signI)
    show "(0 < x) = (0 < hd (q # ?tw))" if "x \<in> set (q # ?tw)" for x
    proof (cases "x = q")
      case False
      with that have "x \<in> set ?tw" by simp
      then have "(0 < x) = (0 < q)" by (rule set_takeWhileD [THEN conjunct2])
      then show ?thesis by (simp only: list.sel(1))
    qed simp
  qed simp
  with 2 show ?case by simp
qed simp

lemma concat_quantifier_blocks: "concat (quantifier_blocks qs) = qs"
  by (induction qs rule: quantifier_blocks.induct) auto

lemma parse_body_blocks:
  assumes "list_all one_sign blks" "\<forall>q \<in> set (concat blks). in_range strict vs q \<and> q \<noteq> 0"
    and "no_block b" "last_lit b = 0" "strict = RELAXED_PARSING \<or> blks = [] \<or> parsed b \<noteq> cl"
  shows "parse_body strict vs cl b (concat (map block_text blks) @ rest) ln =
    parse_body strict vs cl (b\<lparr>events := events b @ map Add_Quantifier (concat blks)\<rparr>) rest (ln + length blks)"
  using assms
proof (induction blks arbitrary: b ln)
  case (Cons blk blks)
  let ?b = "b\<lparr>events := events b @ map Add_Quantifier blk\<rparr>"
  have cl: "strict = RELAXED_PARSING \<or> parsed b \<noteq> cl" using Cons.prems(5) by simp
  have os: "one_sign blk" using Cons.prems(1) by simp
  have rg: "\<forall>q \<in> set blk. in_range strict vs q \<and> q \<noteq> 0" using Cons.prems(2) by simp
  have "\<forall>q \<in> set blk. in_range strict vs q \<and> q \<noteq> 0 \<and> (0 < q) = (0 < hd blk)"
    using rg one_signD [OF os] by blast
  note step = parse_body_block [OF this one_sign_nonempty [OF os] Cons.prems(3) cl, of "concat (map block_text blks) @ rest" ln]
  have "parse_body strict vs cl b (concat (map block_text (blk # blks)) @ rest) ln
      = parse_body strict vs cl ?b (concat (map block_text blks) @ rest) (ln + 1)"
    using step unfolding last_lit_same [OF Cons.prems(4)] by simp
  also have "\<dots> = parse_body strict vs cl (?b\<lparr>events := events ?b @ map Add_Quantifier (concat blks)\<rparr>)
      rest (ln + 1 + length blks)"
    using Cons.prems(2-4) cl Cons.prems(1) by (intro Cons.IH) (auto simp: no_block_def)
  finally show ?case by simp
qed simp

section \<open>The whole text\<close>

lemma parse_header_text:
  assumes v: "0 \<le> v" "v < 2 ^ 31" and c: "0 \<le> c" "c < 2 ^ 31"
  shows "header_line strict ('' cnf '' @ show_int v @ '' '' @ show_int c @ NL # rest) ln
    = Inr (nat v, nat c, rest, ln + 1)"
proof -
  have "nat v \<le> MAX_VARS" "nat c \<le> UINT64_MAX" using v c by (auto simp: MAX_VARS_def UINT64_MAX_def nat_le_iff)
  obtain d ds where d: "show_nat (nat v) = d # ds" "isdigit d"
    "\<And>rest. stops rest \<Longrightarrow> parse_number MAX_VARS (digit_value d) (ds @ rest) = Some (nat v, rest)"
    using parse_show_nat [OF \<open>nat v \<le> MAX_VARS\<close>] by blast
  obtain e es where e: "show_nat (nat c) = e # es" "isdigit e"
    "\<And>rest. stops rest \<Longrightarrow> parse_number UINT64_MAX (digit_value e) (es @ rest) = Some (nat c, rest)"
    using parse_show_nat [OF \<open>nat c \<le> UINT64_MAX\<close>] by blast
  have s: "show_int v = d # ds" "show_int c = e # es" using v c d(1) e(1) by (simp_all add: show_int_def)
  have b: "\<not> blank d" "\<not> blank e" "\<not> blank (CHR ''c'')" "\<not> blank NL"
    using d(2) e(2) digit_chars by (auto simp: blank_def)
  have sk: "skip_blanks strict (x # xs) = x # xs" if "\<not> blank x" for x xs
    using that by (simp add: skip_blanks_def)
  have hv: "header_variables (d # ds @ SPC # e # es @ NL # rest) ln = Inr (nat v, e # es @ NL # rest)"
    using d(2) d(3) [of "SPC # e # es @ NL # rest"] by (simp add: header_variables_def)
  have hc: "header_clauses strict (e # es @ NL # rest) ln = Inr (nat c, rest, ln + 1)"
    using e(2) e(3) [of "NL # rest"] sk [OF b(4)] by (simp add: header_clauses_def)
  show ?thesis
    using hv hc by (simp add: header_line_def bind_sum_def expect_char_def s sk b)
qed

lemma header_of_formula_text:
  assumes "0 \<le> literals h" "literals h < 2 ^ 31" "0 \<le> clauses h" "clauses h < 2 ^ 31"
  shows "bind_sum (header_lines strict True (formula_text h qs cs) 1) (\<lambda>(cs1, ln1). header_line strict cs1 ln1)
    = Inr (nat (literals h), nat (clauses h), prefix_text qs @ concat (map clause_text cs), 2)"
proof -
  have ft: "formula_text h qs cs = CHR ''p'' # '' cnf '' @ show_int (literals h) @ '' '' @ show_int (clauses h)
      @ NL # prefix_text qs @ concat (map clause_text cs)"
    by (simp add: formula_text_def header_text_def)
  have hl: "header_lines strict True (CHR ''p'' # x) 1 = Inr (x, 1)" for x
    by (subst header_lines.simps) simp
  show ?thesis
    unfolding ft hl using parse_header_text [OF assms, of strict _ 1] by (simp add: bind_sum_def)
qed

lemma parse_formula_text:
  assumes h: "0 \<le> literals h" "literals h < 2 ^ 31" "clauses h = int (length cs)" "length cs < 2 ^ 31"
    and qs: "lits_ok qs" "\<forall>q \<in> set qs. \<bar>q\<bar> \<le> literals h"
    and cs: "\<forall>c \<in> set cs. lits_ok c \<and> (\<forall>l \<in> set c. \<bar>l\<bar> \<le> literals h)"
    and ne: "strict = RELAXED_PARSING \<or> qs = [] \<or> cs \<noteq> []"
  shows "parse_dimacs strict (formula_text h qs cs) =
    \<lparr>pr_error = None, pr_lineno = 2 + length (quantifier_blocks qs) + length cs,
     pr_max_var = Some (nat (literals h)),
     pr_events = map Add_Quantifier qs @ concat (map clause_events cs)\<rparr>"
proof -
  let ?blks = "quantifier_blocks qs" and ?vs = "nat (literals h)"
  let ?txt = "concat (map block_text ?blks) @ concat (map clause_text cs)"
  have cl: "nat (clauses h) = length cs" "clauses h < 2 ^ 31" "0 \<le> clauses h" using h by auto
  have hd: "bind_sum (header_lines strict True (formula_text h qs cs) 1) (\<lambda>(cs1, ln1). header_line strict cs1 ln1)
      = Inr (?vs, length cs, ?txt, 2)"
    using header_of_formula_text [OF h(1,2) cl(3,2)] cl(1) by (simp add: prefix_text_def)
  have rg: "in_range strict ?vs l" if "lit_ok l" "\<bar>l\<bar> \<le> literals h" for l
    using that h(1) by (auto simp: in_range_def lit_ok_def)
  have q: "\<forall>q \<in> set (concat ?blks). in_range strict ?vs q \<and> q \<noteq> 0"
    using qs rg by (simp only: concat_quantifier_blocks) (auto simp: lits_ok_def)
  have c: "\<forall>c \<in> set cs. \<forall>l \<in> set c. in_range strict ?vs l \<and> l \<noteq> 0"
    using cs rg by (auto simp: lits_ok_def)
  have "?blks = [] \<longleftrightarrow> qs = []" by (cases qs) simp_all
  then have ne': "strict = RELAXED_PARSING \<or> ?blks = [] \<or> parsed start_state \<noteq> length cs"
    using ne by (auto simp: start_state_def)
  let ?b1 = "start_state\<lparr>events := map Add_Quantifier qs\<rparr>"
  let ?b2 = "?b1\<lparr>parsed := length cs, events := map Add_Quantifier qs @ concat (map clause_events cs)\<rparr>"
  have "parse_body strict ?vs (length cs) start_state ?txt 2
      = parse_body strict ?vs (length cs) ?b1 (concat (map clause_text cs)) (2 + length ?blks)"
    using parse_body_blocks [OF quantifier_blocks_sign q _ _ ne', of "concat (map clause_text cs)" 2]
    by (simp add: start_state_def no_block_def concat_quantifier_blocks)
  also have "\<dots> = parse_body strict ?vs (length cs) ?b2 [] (2 + length ?blks + length cs)"
    using parse_body_clauses [OF _ c, of ?b1 "length cs" "[]" "2 + length ?blks"]
    by (simp add: start_state_def no_block_def)
  also have "\<dots> = (None, 2 + length ?blks + length cs, ?b2)"
    by (simp add: parse_body.simps [of _ _ _ _ "[]"] parse_end_def start_state_def)
  finally show ?thesis using hd by (simp add: parse_dimacs_def)
qed

section \<open>What the events say\<close>

text \<open>The quantifiers and the clauses among the events of a parser.\<close>

fun event_quantifiers :: "parse_event list \<Rightarrow> int list" where
  "event_quantifiers [] = []"
| "event_quantifiers (Add_Quantifier q # es) = q # event_quantifiers es"
| "event_quantifiers (Add_Lit l # es) = event_quantifiers es"

fun event_clauses :: "int list \<Rightarrow> parse_event list \<Rightarrow> int list list" where
  "event_clauses c [] = []"
| "event_clauses c (Add_Quantifier q # es) = event_clauses c es"
| "event_clauses c (Add_Lit l # es) = (if l = 0 then c # event_clauses [] es else event_clauses (c @ [l]) es)"

lemma event_clauses_quantifiers [simp]: "event_clauses c (map Add_Quantifier qs @ es) = event_clauses c es"
  by (induction qs) simp_all

lemma event_clauses_clause: "0 \<notin> set ls \<Longrightarrow> event_clauses c (clause_events ls @ es) = (c @ ls) # event_clauses [] es"
  by (induction ls arbitrary: c) (auto simp: clause_events_def)

lemma event_clauses_clauses:
  "\<forall>c \<in> set cs. 0 \<notin> set c \<Longrightarrow> event_clauses [] (concat (map clause_events cs)) = cs"
  by (induction cs) (auto simp: event_clauses_clause)

lemma event_quantifiers_append: "event_quantifiers (es @ fs) = event_quantifiers es @ event_quantifiers fs"
  by (induction es rule: event_quantifiers.induct) simp_all

lemma event_quantifiers_map [simp]: "event_quantifiers (map Add_Quantifier qs) = qs"
  by (induction qs) simp_all

lemma event_quantifiers_lits: "event_quantifiers (map Add_Lit ls) = []"
  by (induction ls) simp_all

lemma event_quantifiers_clauses: "event_quantifiers (concat (map clause_events cs)) = []"
  by (induction cs) (simp_all add: clause_events_def event_quantifiers_append event_quantifiers_lits)

text \<open>All clauses a solver is given stay in the announced range and number.\<close>

lemma length_solver_clauses:
  "int (length cs + length as) \<le> clauses h \<Longrightarrow> clauses h = int (length (solver_clauses h qs cs as))"
  by (simp add: solver_clauses_def units_def)

lemma solver_clauses_lits:
  assumes "clauses_ok cs" "lits_ok as" "lits_ok qs" "1 \<le> literals h"
    and "\<forall>l \<in> set (concat cs) \<union> set as \<union> set qs. \<bar>l\<bar> \<le> literals h"
  shows "\<forall>c \<in> set (solver_clauses h qs cs as). lits_ok c \<and> (\<forall>l \<in> set c. \<bar>l\<bar> \<le> literals h)"
proof -
  have "lits_ok (filler_clause h qs) \<and> (\<forall>l \<in> set (filler_clause h qs). \<bar>l\<bar> \<le> literals h)"
    using assms(3-5) by (cases qs) (auto simp: filler_clause_def lit_ok_def)
  moreover have "\<forall>c \<in> set cs. lits_ok c \<and> (\<forall>l \<in> set c. \<bar>l\<bar> \<le> literals h)"
    using assms(1,5) by (auto simp: clauses_ok_def)
  moreover have "\<forall>c \<in> set (units as). lits_ok c \<and> (\<forall>l \<in> set c. \<bar>l\<bar> \<le> literals h)"
    using assms(2,5) by (auto simp: units_def lits_ok_def)
  ultimately show ?thesis by (auto simp: solver_clauses_def)
qed

text \<open>A parser that gets the text of a solver has its quantifiers and clauses.\<close>

lemma parse_solver_text:
  assumes cs: "clauses_ok cs" and as: "lits_ok as" and qs: "lits_ok qs"
    and h: "1 \<le> literals h" "literals h < 2 ^ 31" "clauses h < 2 ^ 31" "int (length cs + length as) \<le> clauses h"
    and range: "\<forall>l \<in> set (concat cs) \<union> set as \<union> set qs. \<bar>l\<bar> \<le> literals h" and some: "0 < clauses h"
  shows "\<exists>r. parse_dimacs strict (formula_text h qs (solver_clauses h qs cs as)) = r \<and> pr_error r = None
    \<and> event_quantifiers (pr_events r) = qs \<and> event_clauses [] (pr_events r) = solver_clauses h qs cs as"
proof -
  let ?all = "solver_clauses h qs cs as"
  note ok = solver_clauses_lits [OF cs as qs h(1) range]
  have len: "clauses h = int (length ?all)" by (rule length_solver_clauses [OF h(4)])
  have "0 \<le> literals h" "length ?all < 2 ^ 31" "?all \<noteq> []" using h some len by auto
  with ok h qs range len
  have "parse_dimacs strict (formula_text h qs ?all) =
    \<lparr>pr_error = None, pr_lineno = 2 + length (quantifier_blocks qs) + length ?all,
     pr_max_var = Some (nat (literals h)),
     pr_events = map Add_Quantifier qs @ concat (map clause_events ?all)\<rparr>"
    by (intro parse_formula_text) auto
  moreover have "\<forall>c \<in> set ?all. 0 \<notin> set c" using ok by (auto simp: lits_ok_def)
  ultimately show ?thesis
    by (simp add: event_clauses_clauses event_quantifiers_append event_quantifiers_clauses)
qed

end
