(* ===== verification/Quapi_Quapify.thy ===== *)
theory Quapi_Quapify
  imports Quapi_Cli Quapi_Client Quapi_Parse_Text
begin

text \<open>
  The tool Quapify (\<open>quapify.c\<close>) around the library: the two passes of the parser over the formula,
  the first counting and the second feeding the solver, and the loop that assumes and solves.
  \<open>main\<close> is \<open>quapify_main\<close>. The operating system is \<open>quapify_env\<close>; for the entry \<open>p\<close> of the stored
  assumptions, \<open>qe_io p\<close> is what the library receives during the call made for it: the reply to a
  request to fork, the results of \<open>poll\<close>, and the text of the two clock readings around a solve.
  Messages on \<open>stderr\<close> are left out.
\<close>

section \<open>Runs that may not return\<close>

fun bind_run :: "'a outcome option \<Rightarrow> ('a \<Rightarrow> 'b outcome option) \<Rightarrow> 'b outcome option" where
  "bind_run None f = None"
| "bind_run (Some (Ret x)) f = f x"
| "bind_run (Some (Exited n)) f = Some (Exited n)"
| "bind_run (Some Assert_Failed) f = Some Assert_Failed"
| "bind_run (Some Undefined_Behaviour) f = Some Undefined_Behaviour"

lemma bind_run_Ret_iff: "bind_run m f = Some (Ret y) \<longleftrightarrow> (\<exists>x. m = Some (Ret x) \<and> f x = Some (Ret y))"
  by (cases m; cases "the m") auto

section \<open>What the parser calls\<close>

record 'u quapify_globals =
  q_solver :: "'u quapi_solver option"
  q_varcount :: int
  q_clausecount :: int
  q_quantifiers :: "int list"
  q_quantifiers_capacity :: nat

definition start_globals :: "'u quapify_globals" where
  "start_globals = \<lparr>q_solver = None, q_varcount = 0, q_clausecount = 0, q_quantifiers = [],
     q_quantifiers_capacity = 0\<rparr>"

definition add_quantifier :: "int \<Rightarrow> 'u quapify_globals \<Rightarrow> 'u quapify_globals outcome" where
  "add_quantifier lit g =
     (case q_solver g of
        None \<Rightarrow>
          bind_outcome (push 8 (q_quantifiers g) (q_quantifiers_capacity g) lit)
            (\<lambda>(xs, cap). Ret (g\<lparr>q_quantifiers := xs, q_quantifiers_capacity := cap\<rparr>))
      | Some s \<Rightarrow> bind_outcome (quapi_quantify lit s) (\<lambda>(r, s'). Ret (g\<lparr>q_solver := Some s'\<rparr>)))"

definition add_lit :: "int \<Rightarrow> 'u quapify_globals \<Rightarrow> 'u quapify_globals outcome" where
  "add_lit lit g =
     (case q_solver g of
        None \<Rightarrow>
          Ret (if lit = 0 then g\<lparr>q_clausecount := q_clausecount g + 1\<rparr>
               else if q_varcount g < \<bar>lit\<bar> then g\<lparr>q_varcount := \<bar>lit\<bar>\<rparr> else g)
      | Some s \<Rightarrow> bind_outcome (quapi_add lit s) (\<lambda>(r, s'). Ret (g\<lparr>q_solver := Some s'\<rparr>)))"

fun parser_calls :: "parse_event list \<Rightarrow> 'u quapify_globals \<Rightarrow> 'u quapify_globals outcome" where
  "parser_calls [] g = Ret g"
| "parser_calls (Add_Quantifier q # es) g = bind_outcome (add_quantifier q g) (parser_calls es)"
| "parser_calls (Add_Lit l # es) g = bind_outcome (add_lit l g) (parser_calls es)"

text \<open>
  One pass over the file; \<open>stdin\<close> is what is left of the standard input. The file is not
  closed.
\<close>

definition run_kissat_parser ::
    "file_env \<Rightarrow> string \<Rightarrow> quapify_config \<Rightarrow> 'u quapify_globals \<Rightarrow> (bool \<times> 'u quapify_globals) outcome" where
  "run_kissat_parser e stdin c g =
     (case cfg_input c of
        None \<Rightarrow> Undefined_Behaviour
      | Some input \<Rightarrow>
          bind_outcome
            (if input = ''-'' then Ret (Some (kissat_read_already_open_file stdin ''/dev/stdin''))
             else kissat_open_to_read_file e input)
            (\<lambda>fo. case fo of
               None \<Rightarrow> Ret (False, g)
             | Some f \<Rightarrow>
                 (let r = kissat_parse_dimacs (cfg_strictness c) (snd (the (kf_file f))) in
                  bind_outcome (parser_calls (pr_events r) g) (\<lambda>g'. Ret (pr_error r = None, g')))))"

section \<open>Printing\<close>

fun print_assumption :: "bool \<Rightarrow> int list \<Rightarrow> (string \<times> int list) outcome" where
  "print_assumption first [] = Undefined_Behaviour"
| "print_assumption first (a # as) =
     (if a = 0 then Ret ([], as)
      else bind_outcome (print_assumption False as)
             (\<lambda>(txt, rest). Ret ((if first then [] else '' '') @ show_int a @ txt, rest)))"

lemma print_assumption_shorter: "print_assumption first as = Ret (t, rest) \<Longrightarrow> length rest < length as"
  by (induction first as arbitrary: t rest rule: print_assumption.induct)
    (auto split: if_splits simp: bind_outcome_Ret_iff intro: less_SucI)

function print_assumptions :: "int list \<Rightarrow> string outcome" where
  "print_assumptions as =
     (if as = [] then Ret []
      else
        (case print_assumption True as of
           Ret (txt, rest) \<Rightarrow> bind_outcome (print_assumptions rest) (\<lambda>more. Ret (txt @ NL # more))
         | Exited n \<Rightarrow> Exited n
         | Assert_Failed \<Rightarrow> Assert_Failed
         | Undefined_Behaviour \<Rightarrow> Undefined_Behaviour))"
  by pat_completeness auto
termination
  by (relation "measure length") (auto dest: print_assumption_shorter)

declare print_assumptions.simps [simp del]

definition result_text :: "quapify_config \<Rightarrow> int \<Rightarrow> string" where
  "result_text c result =
     (if cfg_stringify_result c then
        (if result = 10 then ''SAT'' else if result = 20 then ''UNSAT'' else ''UNKNOWN'')
      else show_int result)"

text \<open>A row of the table, for the assumption that starts at \<open>start\<close>.\<close>

definition result_row :: "quapify_config \<Rightarrow> string \<Rightarrow> int \<Rightarrow> int \<Rightarrow> int list \<Rightarrow> string outcome" where
  "result_row c clock result assumption_id start =
     (let wrap = (if cfg_wrap_assumption c then [CHR 0x22] else []) in
      bind_outcome (if cfg_print_assumptions c then print_assumption True start else Ret ([], []))
        (\<lambda>(txt, rest). Ret (clock @ '' '' @ result_text c result @ '' '' @ wrap @ show_int assumption_id @ '' ''
           @ txt @ wrap @ [NL])))"

section \<open>The loop over the assumptions\<close>

type_synonym call_io = "byte list \<times> poll_result list \<times> string"

definition selected :: "quapify_config \<Rightarrow> int \<Rightarrow> bool" where
  "selected c assumption_id \<longleftrightarrow> cfg_selected c = -1 \<or> 0 \<le> cfg_selected c \<and> assumption_id = cfg_selected c"

text \<open>Whether the loop reached its end, what it printed, and the solver.\<close>

fun solve_loop ::
    "quapify_config \<Rightarrow> int \<Rightarrow> bool \<Rightarrow> (nat \<Rightarrow> call_io) \<Rightarrow> nat \<Rightarrow> int list \<Rightarrow> int list \<Rightarrow> int \<Rightarrow> 'u quapi_solver \<Rightarrow>
     (bool \<times> string \<times> 'u quapi_solver) outcome option" where
  "solve_loop c varcount allow io p start [] assumption_id s = Some (Ret (True, [], s))"
| "solve_loop c varcount allow io p start (a # as) assumption_id s =
     (let (reply, script, clock) = io p in
      if a \<noteq> 0 then
        (if selected c assumption_id then
           (if varcount < \<bar>a\<bar> then Some (Ret (False, [], s))
            else
              bind_run (Some (quapi_assume reply a s))
                (\<lambda>(ok, s'). if \<not> ok then Some (Ret (False, [], s'))
                   else solve_loop c varcount allow io (p + 1) start as assumption_id s'))
         else solve_loop c varcount allow io (p + 1) start as assumption_id s)
      else
        (if selected c assumption_id then
           bind_run (quapi_solve allow reply script s)
             (\<lambda>(result, s').
                bind_run (Some (result_row c clock result assumption_id start))
                  (\<lambda>row. bind_run (solve_loop c varcount allow io (p + 1) as as (s32 (assumption_id + 1)) s')
                     (\<lambda>(ok, out, s''). Some (Ret (ok, row @ out, s'')))))
         else solve_loop c varcount allow io (p + 1) as as (s32 (assumption_id + 1)) s))"

section \<open>The program\<close>

record quapify_env =
  qe_files :: file_env
  qe_stdin :: string
  qe_init :: init_env
  qe_allow :: bool
  qe_io :: "nat \<Rightarrow> call_io"

text \<open>The exit status of \<open>main\<close>, its output, and the solver it leaves behind.\<close>

type_synonym main_result = "int \<times> string \<times> unit quapi_solver option"

definition table_header :: string where
  "table_header = ''SolveTime[ns] SolveTime[s] Result Assumption'' @ [NL]"

text \<open>Giving the formula and the assumptions to a solver.\<close>

definition solve_formula ::
    "quapify_env \<Rightarrow> quapify_config \<Rightarrow> unit quapify_globals \<Rightarrow> unit quapi_solver \<Rightarrow> main_result outcome option" where
  "solve_formula e c g s =
     bind_run (Some (run_kissat_parser (qe_files e) [] c (g\<lparr>q_solver := Some s\<rparr>)))
       (\<lambda>(ok, g').
          if \<not> ok then Some (Ret (EXIT_FAILURE, [], q_solver g'))
          else
            bind_run (solve_loop c (q_varcount g') (qe_allow e) (qe_io e) 0 (cfg_assumptions c) (cfg_assumptions c) 0
                (the (q_solver g')))
              (\<lambda>(ok, out, s'). Some (Ret (if ok then EXIT_SUCCESS else EXIT_FAILURE,
                 (if cfg_print_header c then table_header else []) @ out, Some s'))))"

text \<open>The splits of the command line, once the prefix is known.\<close>

definition split_assumptions :: "int list \<Rightarrow> quapify_config \<Rightarrow> (bool \<times> quapify_config) outcome option" where
  "split_assumptions quantifiers c =
     (if cfg_intsplits c \<noteq> [] then
        (if quantifiers \<noteq> [] then inflate_intsplits quantifiers c else Some (Ret (False, c)))
      else Some (Ret (True, c)))"

definition quapify_main :: "quapify_env \<Rightarrow> string list \<Rightarrow> main_result outcome option" where
  "quapify_main e args =
     bind_run (Some (parse_cli (qe_files e) args))
       (\<lambda>c0. bind_run (Some (run_kissat_parser (qe_files e) (qe_stdin e) c0 start_globals))
          (\<lambda>(ok, g). if \<not> ok then Some (Ret (EXIT_FAILURE, [], None))
             else
               bind_run
                 (split_assumptions (q_quantifiers g) c0)
                 (\<lambda>(ok, c). if \<not> ok then Some (Ret (EXIT_FAILURE, [], None))
                    else if cfg_generate_list c then
                      bind_run (Some (print_assumptions (cfg_assumptions c))) (\<lambda>txt. Some (Ret (EXIT_SUCCESS, txt, None)))
                    else
                      bind_run (Some (quapi_init (qe_init e) (cfg_solver c) (Some (c_array (cfg_solver_argv c))) None
                          (s32 (q_varcount g)) (s32 (q_clausecount g)) (s32 (int (cfg_max_assumption_size c))) None None ()))
                        (\<lambda>so. case so of
                           None \<Rightarrow> Some (Ret (EXIT_FAILURE, [], None))
                         | Some s \<Rightarrow> solve_formula e c g s))))"

section \<open>The first pass\<close>

fun event_lits :: "parse_event list \<Rightarrow> int list" where
  "event_lits [] = []"
| "event_lits (Add_Quantifier q # es) = event_lits es"
| "event_lits (Add_Lit l # es) = l # event_lits es"

lemma parser_calls_append:
  fixes g :: "'u quapify_globals"
  shows "parser_calls (es @ fs) g = bind_outcome (parser_calls es g) (parser_calls fs)"
proof (induction es arbitrary: g)
  case (Cons e es)
  have "bind_outcome m (\<lambda>g. bind_outcome (parser_calls es g) (parser_calls fs))
      = bind_outcome (bind_outcome m (parser_calls es)) (parser_calls fs)" for m :: "'u quapify_globals outcome"
    by (cases m) simp_all
  moreover have "parser_calls (es @ fs) = (\<lambda>g :: 'u quapify_globals. bind_outcome (parser_calls es g) (parser_calls fs))"
    by (rule ext) (rule Cons)
  ultimately show ?case by (cases e) simp_all
qed simp

lemma first_pass_counts:
  assumes "q_solver g = None" "length (q_quantifiers g) \<le> q_quantifiers_capacity g"
    and "0 \<le> q_varcount g"
  shows "\<exists>g'. parser_calls es g = Ret g' \<and> q_solver g' = None
    \<and> length (q_quantifiers g') \<le> q_quantifiers_capacity g'
    \<and> q_quantifiers g' = q_quantifiers g @ event_quantifiers es
    \<and> q_varcount g' = fold (\<lambda>l v. max v \<bar>l\<bar>) (event_lits es) (q_varcount g)
    \<and> q_clausecount g' = q_clausecount g + int (length (filter (\<lambda>l. l = 0) (event_lits es)))"
  using assms
proof (induction es arbitrary: g)
  case (Cons e es)
  show ?case
  proof (cases e)
    case (Add_Quantifier q)
    from push_fits [OF _ Cons.prems(2), of 8 q] obtain k
      where k: "push 8 (q_quantifiers g) (q_quantifiers_capacity g) q = Ret (q_quantifiers g @ [q], k)"
        "Suc (length (q_quantifiers g)) \<le> k" by auto
    let ?g = "g\<lparr>q_quantifiers := q_quantifiers g @ [q], q_quantifiers_capacity := k\<rparr>"
    have "add_quantifier q g = Ret ?g" using k Cons.prems(1) by (simp add: add_quantifier_def)
    with Cons.IH [of ?g] Cons.prems k Add_Quantifier show ?thesis by simp
  next
    case (Add_Lit l)
    let ?g = "if l = 0 then g\<lparr>q_clausecount := q_clausecount g + 1\<rparr> else g\<lparr>q_varcount := max (q_varcount g) \<bar>l\<bar>\<rparr>"
    have "add_lit l g = Ret ?g" using Cons.prems by (cases g) (auto simp: add_lit_def max_def)
    with Cons.IH [of ?g] Cons.prems Add_Lit show ?thesis by (cases "l = 0") (simp_all add: add.assoc)
  qed
qed simp

section \<open>The second pass\<close>

fun event_call :: "parse_event \<Rightarrow> 'u client_call" where
  "event_call (Add_Quantifier q) = Quantify q"
| "event_call (Add_Lit l) = Add l"

lemma pass_quantifiers:
  assumes "describes s F" "sv_state s = QUAPI_INPUT" "lits_ok qs"
    and "int (length (fs_asked F) + length qs) < 2 ^ 31" "q_solver g = Some s"
  shows "\<exists>s'. parser_calls (map Add_Quantifier qs) g = Ret (g\<lparr>q_solver := Some s'\<rparr>)
    \<and> session s F (map Quantify qs) s' (F\<lparr>fs_asked := fs_asked F @ qs\<rparr>)"
  using assms
proof (induction qs arbitrary: s F g)
  case Nil
  then have "g\<lparr>q_solver := Some s\<rparr> = g" by (cases g) simp
  then show ?case by (intro exI [of _ s]) (simp add: session_start)
next
  case (Cons q qs)
  from Cons.prems(3,4) have q: "lit_ok q" "q \<noteq> 0" "int (length (fs_asked F)) < 2 ^ 31 - 1" by auto
  from quapi_quantify_describes [OF Cons.prems(1,2) q] obtain s1
    where s1: "quapi_quantify q s = Ret ((), s1)" "describes s1 (fs_quantify q F)" "sv_state s1 = QUAPI_INPUT" by blast
  have "session s F [Quantify q] s1 (fs_quantify q F)"
    using session_single [of "Quantify q" s F s1] s1(1) Cons.prems(2) q by simp
  moreover have "int (length (fs_asked (fs_quantify q F)) + length qs) < 2 ^ 31"
    using Cons.prems(4) by (simp add: fs_quantify_def)
  with Cons.IH [OF s1(2,3) _ this, of "g\<lparr>q_solver := Some s1\<rparr>"] Cons.prems(3) obtain s'
    where "parser_calls (map Add_Quantifier qs) (g\<lparr>q_solver := Some s1\<rparr>) = Ret (g\<lparr>q_solver := Some s'\<rparr>)"
      "session s1 (fs_quantify q F) (map Quantify qs) s' (F\<lparr>fs_asked := fs_asked F @ q # qs\<rparr>)"
    by (auto simp: fs_quantify_def)
  ultimately show ?case
    using s1(1) Cons.prems(5) session_append by (fastforce simp: add_quantifier_def)
qed

lemma pass_lits:
  assumes "describes s F" "fs_assumptions F = None"
    and "int (fs_count F + length (filter (\<lambda>l. l = 0) ls)) < 2 ^ 31 - 1" "q_solver g = Some s"
  shows "\<exists>s'. parser_calls (map Add_Lit ls) g = Ret (g\<lparr>q_solver := Some s'\<rparr>)
    \<and> session s F (map Add ls) s' (fold fs_add ls F)"
  using assms
proof (induction ls arbitrary: s F g)
  case Nil
  then have "g\<lparr>q_solver := Some s\<rparr> = g" by (cases g) simp
  then show ?case by (intro exI [of _ s]) (simp add: session_start)
next
  case (Cons l ls)
  have "int (fs_count F) < 2 ^ 31 - 1" using Cons.prems(3) by simp
  from quapi_add_describes [OF Cons.prems(1,2) this, of l] obtain s1
    where s1: "quapi_add l s = Ret ((), s1)" "describes s1 (fs_add l F)" by blast
  have "session s F [Add l] s1 (fs_add l F)"
    using session_single [of "Add l" s F s1] s1(1) Cons.prems(2) \<open>int (fs_count F) < 2 ^ 31 - 1\<close> by simp
  moreover have "fs_assumptions (fs_add l F) = None"
    "int (fs_count (fs_add l F) + length (filter (\<lambda>l. l = 0) ls)) < 2 ^ 31 - 1"
    using Cons.prems(2,3) by (simp_all add: fs_add_def fs_count_def split: if_splits)
  with Cons.IH [OF s1(2) this, of "g\<lparr>q_solver := Some s1\<rparr>"] obtain s'
    where "parser_calls (map Add_Lit ls) (g\<lparr>q_solver := Some s1\<rparr>) = Ret (g\<lparr>q_solver := Some s'\<rparr>)"
      "session s1 (fs_add l F) (map Add ls) s' (fold fs_add ls (fs_add l F))" by auto
  ultimately show ?case
    using s1(1) Cons.prems(4) session_append by (fastforce simp: add_lit_def)
qed

text \<open>The events of a formula: its quantifiers first, then its clauses.\<close>

definition formula_events :: "int list \<Rightarrow> int list list \<Rightarrow> parse_event list" where
  "formula_events qs cs = map Add_Quantifier qs @ map Add_Lit (concat (map (\<lambda>c. c @ [0]) cs))"

lemma formula_events_clause_events: "formula_events qs cs = map Add_Quantifier qs @ concat (map clause_events cs)"
  by (induction cs) (simp_all add: formula_events_def clause_events_def)

lemma zeros_of_clauses:
  "\<forall>c \<in> set cs. lits_ok c \<Longrightarrow> length (filter (\<lambda>l. l = 0) (concat (map (\<lambda>c. c @ [0]) cs))) = length cs"
proof (induction cs)
  case (Cons c cs)
  moreover have "filter (\<lambda>l. l = 0) c = []" using Cons.prems by (auto simp: lits_ok_def filter_empty_conv)
  ultimately show ?case by simp
qed simp

lemma add_clause:
  "0 \<notin> set ls \<Longrightarrow> fold fs_add ls F = F\<lparr>fs_clause := fs_clause F @ ls\<rparr>"
  by (induction ls arbitrary: F) (auto simp: fs_add_def)

lemma add_clauses:
  "\<forall>c \<in> set cs. lits_ok c \<Longrightarrow> fs_clause F = [] \<Longrightarrow>
   fold fs_add (concat (map (\<lambda>c. c @ [0]) cs)) F = F\<lparr>fs_clauses := fs_clauses F @ cs\<rparr>"
proof (induction cs arbitrary: F)
  case (Cons c cs)
  have "0 \<notin> set c" using Cons.prems(1) by (auto simp: lits_ok_def)
  from add_clause [OF this, of F] Cons.prems(2)
  have "fold fs_add (c @ [0]) F = F\<lparr>fs_clauses := fs_clauses F @ [c]\<rparr>" by (simp add: fs_add_def)
  with Cons.IH [of "F\<lparr>fs_clauses := fs_clauses F @ [c]\<rparr>"] Cons.prems show ?case by simp
qed simp

text \<open>The calls of the second pass are a session that describes the formula.\<close>

lemma second_pass_session:
  assumes "describes s start_formula" "sv_state s = QUAPI_INPUT" "q_solver g = Some s"
    and "lits_ok qs" "\<forall>c \<in> set cs. lits_ok c" "length qs < 2 ^ 31" "length cs < 2 ^ 31 - 1"
  shows "\<exists>s'. parser_calls (formula_events qs cs) g = Ret (g\<lparr>q_solver := Some s'\<rparr>)
    \<and> session s start_formula (map event_call (formula_events qs cs)) s' (start_formula\<lparr>fs_asked := qs, fs_clauses := cs\<rparr>)"
proof -
  have "int (length (fs_asked start_formula) + length qs) < 2 ^ 31" using assms(6) by (simp add: start_formula_def)
  from pass_quantifiers [OF assms(1,2,4) this assms(3)] obtain s1
    where s1: "parser_calls (map Add_Quantifier qs) g = Ret (g\<lparr>q_solver := Some s1\<rparr>)"
      "session s start_formula (map Quantify qs) s1 (start_formula\<lparr>fs_asked := qs\<rparr>)"
    by (auto simp: start_formula_def)
  let ?F = "start_formula\<lparr>fs_asked := qs\<rparr>" and ?ls = "concat (map (\<lambda>c. c @ [0]) cs)"
  from session_describes [OF s1(2) assms(1)] have d: "describes s1 ?F" by blast
  have F: "fs_assumptions ?F = None" "fs_clause ?F = []" "fs_clauses ?F = []"
    "int (fs_count ?F + length (filter (\<lambda>l. l = 0) ?ls)) < 2 ^ 31 - 1"
    using zeros_of_clauses [OF assms(5)] assms(7) by (simp_all add: start_formula_def fs_count_def)
  from pass_lits [OF d F(1,4), of "g\<lparr>q_solver := Some s1\<rparr>"] obtain s'
    where s': "parser_calls (map Add_Lit ?ls) (g\<lparr>q_solver := Some s1\<rparr>) = Ret (g\<lparr>q_solver := Some s'\<rparr>)"
      "session s1 ?F (map Add ?ls) s' (fold fs_add ?ls ?F)" by auto
  have "map event_call (formula_events qs cs) = map Quantify qs @ map Add ?ls" by (simp add: formula_events_def)
  moreover have "fold fs_add ?ls ?F = start_formula\<lparr>fs_asked := qs, fs_clauses := cs\<rparr>"
    using add_clauses [OF assms(5) F(2)] F(3) by simp
  ultimately show ?thesis
    using s1 s' session_append [OF s'(2) s1(2)] by (intro exI [of _ s']) (simp add: formula_events_def parser_calls_append comp_def)
qed

section \<open>The loop as a session\<close>

text \<open>The calls the loop makes for the stored entries from \<open>p\<close> on, when every assumption is selected.\<close>

fun loop_calls :: "bool \<Rightarrow> (nat \<Rightarrow> call_io) \<Rightarrow> nat \<Rightarrow> int list \<Rightarrow> unit client_call list" where
  "loop_calls allow io p [] = []"
| "loop_calls allow io p (a # as) =
     (if a = 0 then Solve allow (fst (io p)) (fst (snd (io p))) else Assume (fst (io p)) a)
       # loop_calls allow io (p + 1) as"

lemma loop_calls_append:
  "loop_calls allow io p (as @ bs) = loop_calls allow io p as @ loop_calls allow io (p + length as) bs"
  by (induction as arbitrary: p) simp_all

text \<open>An assumption that is taken was allowed: there was room for it, and its fork was reported.\<close>

lemma taken_assumption:
  assumes d: "describes s F" and a: "a \<noteq> 0" and c: "fs_clause F = []"
    and r: "quapi_assume reply a s = Ret (True, s')"
  shows "may_call (Assume reply a) s F"
proof -
  have st: "sv_state s \<in> {QUAPI_INPUT_LITERALS, QUAPI_INPUT_ASSUMPTIONS}"
    and room: "written_clauses s < s32 (clauses (sv_header s) + prefixdepth (sv_header s))"
    using r a by (auto simp: quapi_assume_def split: if_splits)
  have "answered reply s F"
  proof (cases "fs_assumptions F = None")
    case True
    then have "sv_state s = QUAPI_INPUT_LITERALS" using d st by (auto simp: describes_def phase_ok_def)
    moreover from r a st room obtain s1 where "make_solvable reply s = Ret (True, s1)"
      by (auto simp: quapi_assume_def bind_outcome_Ret_iff split: if_splits)
    ultimately obtain st' t p bs where w: "write_main (MFork (waits s)) None (s\<lparr>sv_state := QUAPI_INPUT_ASSUMPTIONS\<rparr>) = Ret (st', t)"
      and p: "await_fork_report (sv_messages t @ reply) = Ret (Some p, bs)"
      by (auto simp: make_solvable_def bind_outcome_Ret_iff waits_def split: if_splits option.splits)
    from w have "sv_messages t = sv_messages s" by (auto simp: write_main_def bind_outcome_Ret_iff)
    with p show ?thesis by (auto simp: answered_def reports_def)
  qed (auto simp: answered_def)
  with st room a c show ?thesis by auto
qed

text \<open>The formula apart from forks and assumptions.\<close>

definition same_formula :: "formula_state \<Rightarrow> formula_state \<Rightarrow> bool" where
  "same_formula F G \<longleftrightarrow> fs_asked G = fs_asked F \<and> fs_clause G = fs_clause F
     \<and> batch_clauses (fs_batches G) @ fs_clauses G = batch_clauses (fs_batches F) @ fs_clauses F"

lemma same_formula_refl [simp, intro]: "same_formula F F"
  by (simp add: same_formula_def)

lemma same_formula_trans: "same_formula F G \<Longrightarrow> same_formula G H \<Longrightarrow> same_formula F H"
  by (simp add: same_formula_def)

lemma same_formula_count: "same_formula F G \<Longrightarrow> fs_count G = fs_count F"
  using length_append unfolding same_formula_def fs_count_def by metis

lemma same_formula_steps:
  "same_formula F (fs_assume w a F)" "same_formula F (fs_solve w F)" "fs_units (fs_assume w a F) = fs_units F @ [a]"
  "fs_assumptions (fs_assume w a F) \<noteq> None" "fs_assumptions (fs_solve w F) = None"
  by (auto simp: same_formula_def fs_assume_def fs_solve_def fs_fork_def fs_units_def batch_clauses_def)

definition takes_all :: "quapify_config \<Rightarrow> bool" where
  "takes_all c \<longleftrightarrow> cfg_selected c = -1"

lemma loop_assumes:
  fixes s :: "unit quapi_solver"
  assumes "solve_loop c vc allow io p start (ls @ xs) k s = Some (Ret (True, out, s'))"
    and "takes_all c" "0 \<notin> set ls" "describes s F" "fs_clause F = []"
  shows "\<exists>s1 F1. session s F (loop_calls allow io p ls) s1 F1 \<and> same_formula F F1
    \<and> fs_units F1 = fs_units F @ ls \<and> (ls \<noteq> [] \<longrightarrow> fs_assumptions F1 \<noteq> None)
    \<and> solve_loop c vc allow io (p + length ls) start xs k s1 = Some (Ret (True, out, s'))"
  using assms
proof (induction ls arbitrary: p s F)
  case Nil
  then show ?case by (auto intro: session_start)
next
  case (Cons l ls)
  obtain reply script clock where io: "io p = (reply, script, clock)" by (cases "io p")
  from Cons.prems(1-3) io obtain s1 where s1: "quapi_assume reply l s = Ret (True, s1)"
    "solve_loop c vc allow io (p + 1) start (ls @ xs) k s1 = Some (Ret (True, out, s'))"
    by (auto simp: selected_def takes_all_def bind_run_Ret_iff Let_def split: if_splits)
  have l: "l \<noteq> 0" using Cons.prems(3) by auto
  note may = taken_assumption [OF Cons.prems(4) l Cons.prems(5) s1(1)]
  let ?F = "fs_assume (waits s) l F"
  have call: "call (Assume reply l) s = Some (Ret s1)" using s1(1) by simp
  from session_single [OF may call] have one: "session s F [Assume reply l] s1 ?F" by simp
  from call_describes [OF Cons.prems(4) may call] have d: "describes s1 ?F" by simp
  have "fs_clause ?F = []" using Cons.prems(5) same_formula_steps(1) [of F] by (simp add: same_formula_def)
  from Cons.IH [OF s1(2) Cons.prems(2) _ d this] Cons.prems(3) obtain s2 F2
    where r: "session s1 ?F (loop_calls allow io (p + 1) ls) s2 F2" "same_formula ?F F2"
      "fs_units F2 = fs_units ?F @ ls" "ls \<noteq> [] \<longrightarrow> fs_assumptions F2 \<noteq> None"
      "solve_loop c vc allow io (p + 1 + length ls) start xs k s2 = Some (Ret (True, out, s'))" by auto
  have none: "ls = [] \<Longrightarrow> fs_assumptions F2 \<noteq> None"
    using r(1) same_formula_steps(4) by (auto elim: session_NilE)
  from session_append [OF r(1) one] l io
  have "session s F (loop_calls allow io p (l # ls)) s2 F2" by simp
  moreover have "same_formula F F2" using r(2) same_formula_steps(1) by (rule same_formula_trans [rotated])
  moreover have "fs_units F2 = fs_units F @ l # ls" using r(3) same_formula_steps(3) by simp
  ultimately show ?case using r(4,5) none by (intro exI [of _ s2] exI [of _ F2]) auto
qed

text \<open>Enough of an assumption for a solve, with the prefix of the formula and the depth \<open>d\<close>.\<close>

definition enough :: "bool \<Rightarrow> int \<Rightarrow> formula_state \<Rightarrow> int list \<Rightarrow> bool" where
  "enough allow d F a \<longleftrightarrow> a \<noteq> [] \<and> 0 \<notin> set a \<and> (universal_depth d (fs_asked F) \<le> int (length a) \<or> allow)
     \<and> int (fs_count F + length a) < 2 ^ 31"

lemma enough_same: "same_formula F G \<Longrightarrow> enough allow d G a = enough allow d F a"
  using same_formula_count [of F G] by (simp add: enough_def same_formula_def)

lemma loop_solve_one:
  fixes s :: "unit quapi_solver"
  assumes run: "solve_loop c vc allow io p start (a @ 0 # xs) k s = Some (Ret (True, out, s'))"
    and c: "takes_all c" and d: "describes s F" "fs_clause F = []" "fs_assumptions F = None"
    and e: "enough allow (prefixdepth (sv_header s)) F a"
  shows "\<exists>s1 F1 s2 F2 out'. session s F (loop_calls allow io p a) s1 F1 \<and> same_formula F F1 \<and> fs_units F1 = a
    \<and> session s F (loop_calls allow io p (a @ [0])) s2 F2 \<and> same_formula F F2 \<and> fs_assumptions F2 = None
    \<and> solve_loop c vc allow io (p + length a + 1) xs xs (s32 (k + 1)) s2 = Some (Ret (True, out', s'))"
proof -
  have e': "0 \<notin> set a" "a \<noteq> []" using e by (auto simp: enough_def)
  from loop_assumes [OF run c e'(1) d(1,2)] obtain s1 F1
    where s1: "session s F (loop_calls allow io p a) s1 F1" "same_formula F F1" "fs_units F1 = a"
      "fs_assumptions F1 \<noteq> None" "solve_loop c vc allow io (p + length a) start (0 # xs) k s1 = Some (Ret (True, out, s'))"
    using d(3) e'(2) by (auto simp: fs_units_def)
  from session_describes [OF s1(1) d(1)] have d1: "describes s1 F1" "config s1 = config s" by auto
  obtain reply script clock where io: "io (p + length a) = (reply, script, clock)" by (cases "io (p + length a)")
  from s1(5) c io obtain r s2 row out' where s2: "quapi_solve allow reply script s1 = Some (Ret (r, s2))"
    "solve_loop c vc allow io (p + length a + 1) xs xs (s32 (k + 1)) s2 = Some (Ret (True, out', s'))"
    by (auto simp: selected_def takes_all_def bind_run_Ret_iff Let_def split: if_splits)
  let ?c = "Solve allow reply script :: unit client_call" and ?F2 = "fs_solve (waits s1) F1"
  have "may_call ?c s1 F1"
    using e s1(2-4) d(2) d1(2) same_formula_count [OF s1(2)]
    by (auto simp: enough_def same_formula_def answered_def)
  moreover have "call ?c s1 = Some (Ret s2)" using s2(1) by simp
  ultimately have "session s1 F1 [?c] s2 ?F2" using session_single by fastforce
  from session_append [OF this s1(1)] io
  have "session s F (loop_calls allow io p (a @ [0])) s2 ?F2" by (simp add: loop_calls_append)
  moreover have "same_formula F ?F2" using s1(2) same_formula_steps(2) by (rule same_formula_trans)
  ultimately show ?thesis using s1 s2(2) same_formula_steps(5) by blast
qed

lemma loop_session:
  fixes s :: "unit quapi_solver"
  assumes "solve_loop c vc allow io p start (stored as) k s = Some (Ret (True, out, s'))"
    and "takes_all c" "describes s F" "fs_clause F = []" "fs_assumptions F = None"
    and "\<forall>a \<in> set as. enough allow (prefixdepth (sv_header s)) F a"
  shows "\<exists>F'. session s F (loop_calls allow io p (stored as)) s' F' \<and> same_formula F F'
    \<and> (\<forall>as1 a as2. as = as1 @ a # as2 \<longrightarrow> (\<exists>s1 F1. session s F (loop_calls allow io p (stored as1 @ a)) s1 F1
         \<and> same_formula F F1 \<and> fs_units F1 = a))"
  using assms
proof (induction as arbitrary: p start k s F out)
  case Nil
  then show ?case by (auto intro: session_start)
next
  case (Cons a as)
  have "enough allow (prefixdepth (sv_header s)) F a" using Cons.prems(6) by simp
  from loop_solve_one [OF _ Cons.prems(2-5) this, of vc io p start "stored as" k out s'] Cons.prems(1)
  obtain s1 F1 s2 F2 out' where one: "session s F (loop_calls allow io p a) s1 F1" "same_formula F F1" "fs_units F1 = a"
    and two: "session s F (loop_calls allow io p (a @ [0])) s2 F2" "same_formula F F2" "fs_assumptions F2 = None"
    and run: "solve_loop c vc allow io (p + length a + 1) (stored as) (stored as) (s32 (k + 1)) s2 = Some (Ret (True, out', s'))"
    by auto
  from session_describes [OF two(1) Cons.prems(3)] have d2: "describes s2 F2" "config s2 = config s" by auto
  have cl: "fs_clause F2 = []" using two(2) Cons.prems(4) by (simp add: same_formula_def)
  have "\<forall>a \<in> set as. enough allow (prefixdepth (sv_header s2)) F2 a"
    using Cons.prems(6) d2(2) enough_same [OF two(2)] by simp
  from Cons.IH [OF run Cons.prems(2) d2(1) cl two(3) this] obtain F'
    where F': "session s2 F2 (loop_calls allow io (p + length a + 1) (stored as)) s' F'" "same_formula F2 F'"
      and each: "\<And>as1 b as2. as = as1 @ b # as2 \<Longrightarrow> \<exists>s1 F1. session s2 F2
        (loop_calls allow io (p + length a + 1) (stored as1 @ b)) s1 F1 \<and> same_formula F2 F1 \<and> fs_units F1 = b" by blast
  have calls: "loop_calls allow io p (a @ [0]) @ loop_calls allow io (p + length a + 1) xs = loop_calls allow io p (a @ 0 # xs)" for xs
    using loop_calls_append [of allow io p "a @ [0]" xs] by simp
  have "\<exists>s1 F1. session s F (loop_calls allow io p (stored as1 @ b)) s1 F1 \<and> same_formula F F1 \<and> fs_units F1 = b"
    if "a # as = as1 @ b # as2" for as1 b as2
  proof (cases as1)
    case Nil
    with that one show ?thesis by auto
  next
    case (Cons a' as1')
    with that have "a' = a" "as = as1' @ b # as2" by simp_all
    from each [OF this(2)] obtain s3 F3 where s3: "session s2 F2 (loop_calls allow io (p + length a + 1) (stored as1' @ b)) s3 F3"
      "same_formula F2 F3" "fs_units F3 = b" by blast
    from session_append [OF s3(1) two(1)]
    have "session s F (loop_calls allow io p (a @ 0 # stored as1' @ b)) s3 F3" unfolding calls .
    then have "session s F (loop_calls allow io p (stored as1 @ b)) s3 F3" by (simp add: Cons \<open>a' = a\<close>)
    with s3(2,3) same_formula_trans [OF two(2)] show ?thesis by blast
  qed
  moreover from session_append [OF F'(1) two(1)] have "session s F (loop_calls allow io p (stored (a # as))) s' F'"
    unfolding calls by simp
  ultimately show ?case using same_formula_trans [OF two(2) F'(2)] by blast
qed

section \<open>The whole program\<close>

lemma event_quantifiers_formula: "event_quantifiers (formula_events qs cs) = qs"
proof -
  have "event_quantifiers (map Add_Lit ls) = []" for ls by (induction ls) simp_all
  then show ?thesis unfolding formula_events_def by (induction qs) simp_all
qed

lemma event_lits_formula: "event_lits (formula_events qs cs) = concat (map (\<lambda>c. c @ [0]) cs)"
proof -
  have "event_lits (map Add_Lit ls) = ls" for ls by (induction ls) simp_all
  then show ?thesis unfolding formula_events_def by (induction qs) simp_all
qed

text \<open>The largest variable of the clauses, which is what the first pass counts.\<close>

definition largest_var :: "int list list \<Rightarrow> int" where
  "largest_var cs = fold (\<lambda>l v. max v \<bar>l\<bar>) (concat (map (\<lambda>c. c @ [0]) cs)) 0"

lemma largest_var_range:
  assumes "\<forall>c \<in> set cs. lits_ok c"
  shows "0 \<le> largest_var cs \<and> largest_var cs < 2 ^ 31"
proof -
  have fold: "0 \<le> v \<and> v < 2 ^ 31 \<Longrightarrow> 0 \<le> fold (\<lambda>l v. max v \<bar>l\<bar>) ls v \<and> fold (\<lambda>l v. max v \<bar>l\<bar>) ls v < 2 ^ 31"
    if "\<forall>l \<in> set ls. lit_ok l" for ls v
    using that
  proof (induction ls arbitrary: v)
    case (Cons l ls)
    then have "0 \<le> max v \<bar>l\<bar> \<and> max v \<bar>l\<bar> < 2 ^ 31" by (auto simp: lit_ok_def)
    with Cons show ?case by simp
  qed simp
  have "\<forall>l \<in> set (concat (map (\<lambda>c. c @ [0]) cs)). lit_ok l" using assms by (auto simp: lits_ok_def lit_ok_def)
  from fold [OF this, of 0] show ?thesis by (simp add: largest_var_def)
qed

text \<open>A formula file: it opens, parses, and has its quantifiers before its clauses.\<close>

definition formula_file :: "file_env \<Rightarrow> quapify_config \<Rightarrow> int list \<Rightarrow> int list list \<Rightarrow> bool" where
  "formula_file e c qs cs \<longleftrightarrow>
     (\<exists>input t. cfg_input c = Some input \<and> input \<noteq> ''-'' \<and> file_text e input = Some t
        \<and> pr_error (kissat_parse_dimacs (cfg_strictness c) t) = None
        \<and> pr_events (kissat_parse_dimacs (cfg_strictness c) t) = formula_events qs cs)
     \<and> lits_ok qs \<and> (\<forall>c \<in> set cs. lits_ok c) \<and> length qs < 2 ^ 31 \<and> length cs < 2 ^ 31 - 1"

lemma run_parser_formula_file:
  assumes "formula_file e c qs cs"
  shows "run_kissat_parser e stdin c g = bind_outcome (parser_calls (formula_events qs cs) g) (\<lambda>g'. Ret (True, g'))"
proof -
  from assms obtain input t where i: "cfg_input c = Some input" "input \<noteq> ''-''" "file_text e input = Some t"
    "pr_error (kissat_parse_dimacs (cfg_strictness c) t) = None"
    "pr_events (kissat_parse_dimacs (cfg_strictness c) t) = formula_events qs cs" by (auto simp: formula_file_def)
  from open_file_text [of e input] i(3) obtain f st
    where "kissat_open_to_read_file e input = Ret (Some f)" "kf_file f = Some (st, t)" by auto
  with i show ?thesis by (simp add: run_kissat_parser_def Let_def)
qed

lemma first_pass_formula_file:
  assumes "formula_file e c qs cs"
  shows "\<exists>g. run_kissat_parser e stdin c (start_globals :: 'u quapify_globals) = Ret (True, g) \<and> q_solver g = None
    \<and> q_quantifiers g = qs \<and> q_varcount g = largest_var cs \<and> q_clausecount g = int (length cs)"
proof -
  have cs: "\<forall>c \<in> set cs. lits_ok c" using assms by (simp add: formula_file_def)
  have "q_solver (start_globals :: 'u quapify_globals) = None" "0 \<le> q_varcount (start_globals :: 'u quapify_globals)"
    "length (q_quantifiers (start_globals :: 'u quapify_globals)) \<le> q_quantifiers_capacity (start_globals :: 'u quapify_globals)"
    by (simp_all add: start_globals_def)
  from first_pass_counts [OF this(1,3,2), of "formula_events qs cs"] show ?thesis
    using zeros_of_clauses [OF cs]
    by (auto simp: run_parser_formula_file [OF assms] event_quantifiers_formula event_lits_formula
        start_globals_def largest_var_def)
qed

text \<open>Every assumption the program makes: the ones of the command line, then the ones of the splits.\<close>

definition all_assumptions :: "int list \<Rightarrow> int list list \<Rightarrow> int list \<Rightarrow> int list list" where
  "all_assumptions qs as splits = as @ (if splits = [] then [] else map (state_lits qs splits) (split_states splits))"

text \<open>The splits after the first pass.\<close>

lemma inflated:
  assumes "holds c as []" "0 \<notin> set qs"
    and "split_assumptions qs c = Some (Ret (True, d))"
  shows "same_options c d \<and> holds d (all_assumptions qs as (cfg_intsplits c)) []"
proof (cases "cfg_intsplits c = []")
  case True
  with assms show ?thesis by (auto simp: all_assumptions_def split_assumptions_def)
next
  case False
  with assms(3) have "qs \<noteq> []" "inflate_intsplits qs c = Some (Ret (True, d))"
    by (auto simp: split_assumptions_def split: if_splits)
  with inflate_states_lemma [OF assms(1) _ assms(2) False] False show ?thesis
    by (auto simp: all_assumptions_def split: if_splits)
qed

lemma max_size_below:
  assumes "\<forall>a \<in> set as. length a < n" "0 < n"
  shows "fold max (map length as) 0 < n"
proof -
  have "m < n \<Longrightarrow> fold max (map length as) m < n" for m using assms(1) by (induction as arbitrary: m) auto
  then show ?thesis using assms(2) by simp
qed

lemma quapify_run_session:
  assumes cli: "parse_cli (qe_files e) args = Ret c" "holds c as []" "cfg_selected c = -1" "\<not> cfg_generate_list c"
    and formula: "formula_file (qe_files e) c qs cs"
    and init: "cfg_solver c = Some path" "env_environ (qe_init e) = c_array environ"
      "quapi_read_msg_from_fd (env_reply (qe_init e)) = Ret (Some (Some (MStarted v)), rest)"
    and asked: "asked = all_assumptions qs as (cfg_intsplits c)" "maxass = int (fold max (map length asked) 0)"
      "starts (qe_init e) maxass None None"
    and F: "F = start_formula\<lparr>fs_asked := qs, fs_clauses := cs\<rparr>" "\<forall>a \<in> set asked. enough (qe_allow e) maxass F a"
    and run: "quapify_main e args = Some (Ret (EXIT_SUCCESS, out, so))"
  shows "\<exists>s s' F'. so = Some s' \<and> quapi_init (qe_init e) (Some path) (Some (c_array (cfg_solver_argv c))) None
        (largest_var cs) (int (length cs)) maxass None None () = Ret (Some s)
    \<and> describes s start_formula
    \<and> sv_header s = started_header (qe_init e) (largest_var cs) (int (length cs)) maxass
    \<and> session s start_formula
        (map event_call (formula_events qs cs) @ loop_calls (qe_allow e) (qe_io e) 0 (stored asked)) s' F'
    \<and> (\<forall>as1 a as2. asked = as1 @ a # as2 \<longrightarrow>
        (\<exists>s1 F1. session s start_formula
            (map event_call (formula_events qs cs) @ loop_calls (qe_allow e) (qe_io e) 0 (stored as1 @ a)) s1 F1
          \<and> same_formula F F1 \<and> fs_units F1 = a))"
proof -
  obtain g :: "unit quapify_globals" where g: "run_kissat_parser (qe_files e) (qe_stdin e) c start_globals = Ret (True, g)"
    "q_solver g = None" "q_quantifiers g = qs" "q_varcount g = largest_var cs" "q_clausecount g = int (length cs)"
    using first_pass_formula_file [OF formula] by blast
  have lits: "lits_ok qs" "\<forall>c \<in> set cs. lits_ok c" "length qs < 2 ^ 31" "length cs < 2 ^ 31 - 1"
    using formula by (simp_all add: formula_file_def)
  have "0 \<notin> set qs" using lits(1) by (auto simp: lits_ok_def)
  from run obtain d where
    "split_assumptions qs c = Some (Ret (True, d))"
    and main: "(if cfg_generate_list d then
        bind_run (Some (print_assumptions (cfg_assumptions d))) (\<lambda>txt. Some (Ret (EXIT_SUCCESS, txt, None)))
      else
        bind_run (Some (quapi_init (qe_init e) (cfg_solver d) (Some (c_array (cfg_solver_argv d))) None
            (s32 (largest_var cs)) (s32 (int (length cs))) (s32 (int (cfg_max_assumption_size d))) None None ()))
          (\<lambda>so. case so of None \<Rightarrow> Some (Ret (EXIT_FAILURE, [], None)) | Some s \<Rightarrow> solve_formula e d g s))
      = Some (Ret (EXIT_SUCCESS, out, so))"
    using cli(1) g by (auto simp: quapify_main_def bind_run_Ret_iff EXIT_SUCCESS_def EXIT_FAILURE_def split: if_splits)
  from inflated [OF cli(2) \<open>0 \<notin> set qs\<close> this(1)] have d: "same_options c d" "holds d asked []" using asked(1) by auto
  note opts = same_options_fields [OF d(1)]
  have max: "int (cfg_max_assumption_size d) = maxass" "cfg_assumptions d = stored asked"
    using d(2) asked(2) by (auto simp: holds_def)
  have count: "fs_count F = length cs" by (simp add: F(1) fs_count_def start_formula_def)
  have "\<forall>a \<in> set asked. length a < 2 ^ 31" using F(2) by (auto simp: enough_def count)
  from max_size_below [OF this] have "maxass < 2 ^ 31" "0 \<le> maxass" unfolding asked(2) by auto
  then have in32: "in32 (largest_var cs)" "in32 (int (length cs))" "in32 maxass"
    using largest_var_range [OF lits(2)] lits(4) by (auto simp: in32_def)
  from quapi_init_describes [OF asked(3) in32 init(2,3), of path "cfg_solver_argv c" "()"]
  obtain s :: "unit quapi_solver" where s: "quapi_init (qe_init e) (Some path) (Some (c_array (cfg_solver_argv c))) None
      (largest_var cs) (int (length cs)) maxass None None () = Ret (Some s)" "describes s start_formula"
      "sv_header s = started_header (qe_init e) (largest_var cs) (int (length cs)) maxass" "sv_state s = QUAPI_INPUT"
    by (elim exE conjE) (rule that)
  with main opts init(1) cli(4) max(1) in32 have solve: "solve_formula e d g s = Some (Ret (EXIT_SUCCESS, out, so))"
    by (simp add: s32_id)
  from second_pass_session [OF s(2,4) _ lits, of "g\<lparr>q_solver := Some s\<rparr>"] obtain t
    where t: "parser_calls (formula_events qs cs) (g\<lparr>q_solver := Some s\<rparr>) = Ret (g\<lparr>q_solver := Some t\<rparr>)"
      "session s start_formula (map event_call (formula_events qs cs)) t F" by (auto simp: F(1))
  have "formula_file (qe_files e) d qs cs" using formula opts by (simp add: formula_file_def)
  from run_parser_formula_file [OF this, of "[]" "g\<lparr>q_solver := Some s\<rparr>"] t(1)
  have pass: "run_kissat_parser (qe_files e) [] d (g\<lparr>q_solver := Some s\<rparr>) = Ret (True, g\<lparr>q_solver := Some t\<rparr>)" by simp
  from solve obtain out' s' where loop: "solve_loop d (largest_var cs) (qe_allow e) (qe_io e) 0 (stored asked) (stored asked) 0 t
      = Some (Ret (True, out', s'))" "so = Some s'"
    by (auto simp: solve_formula_def pass g(4) max(2) bind_run_Ret_iff EXIT_SUCCESS_def EXIT_FAILURE_def split: if_splits)
  from session_describes [OF t(2) s(2)] have dt: "describes t F" "prefixdepth (sv_header t) = maxass"
    using s(3) by (auto simp: started_header_def)
  have "takes_all d" using opts cli(3) by (simp add: takes_all_def)
  moreover have "fs_clause F = []" "fs_assumptions F = None" by (simp_all add: F(1) start_formula_def)
  moreover have "\<forall>a \<in> set asked. enough (qe_allow e) (prefixdepth (sv_header t)) F a" using F(2) dt(2) by simp
  ultimately obtain F' where F': "session t F (loop_calls (qe_allow e) (qe_io e) 0 (stored asked)) s' F'"
    and each: "\<And>as1 a as2. asked = as1 @ a # as2 \<Longrightarrow> \<exists>s1 F1.
      session t F (loop_calls (qe_allow e) (qe_io e) 0 (stored as1 @ a)) s1 F1 \<and> same_formula F F1 \<and> fs_units F1 = a"
    using loop_session [OF loop(1) _ dt(1)] by blast
  note join = session_append [OF _ t(2)]
  have "\<exists>s1 F1. session s start_formula
      (map event_call (formula_events qs cs) @ loop_calls (qe_allow e) (qe_io e) 0 (stored as1 @ a)) s1 F1
      \<and> same_formula F F1 \<and> fs_units F1 = a" if a: "asked = as1 @ a # as2" for as1 a as2
  proof -
    from each [OF a] obtain s1 F1 where "session t F (loop_calls (qe_allow e) (qe_io e) 0 (stored as1 @ a)) s1 F1"
      "same_formula F F1" "fs_units F1 = a" by (elim exE conjE) (rule that)
    with join show ?thesis by (intro exI conjI)
  qed
  with s(1-3) loop(2) join [OF F'] show ?thesis by (intro exI [of _ s] exI [of _ s'] exI [of _ F'] conjI) simp_all
qed

text \<open>
  C35. What Quapify does. When the program ends with success on a file of a formula, with every
  assumption selected and each \<open>enough\<close> for a solve (not empty, and as long as the universal
  variables at the front of the prefix ask for unless the environment allows less), all its calls of the library are one legal session: on the solver that
  \<open>quapi_init\<close> gave for the largest variable, the number of clauses and the largest assumption
  it describes the quantifiers and clauses of the file, and then for each assumption of the command line
  and of the splits, in order, assumes its literals and solves. At every solve the library has
  exactly the formula of the file and that assumption, so that by \<open>solver_reads_formula\<close> this is
  what the solver reads.
\<close>

theorem quapify_session:
  assumes cli: "parse_cli (qe_files e) args = Ret c" "holds c as []" "cfg_selected c = -1" "\<not> cfg_generate_list c"
    and formula: "formula_file (qe_files e) c qs cs"
    and init: "cfg_solver c = Some path" "env_environ (qe_init e) = c_array environ"
      "quapi_read_msg_from_fd (env_reply (qe_init e)) = Ret (Some (Some (MStarted v)), rest)"
    and asked: "asked = all_assumptions qs as (cfg_intsplits c)" "maxass = int (fold max (map length asked) 0)"
      "starts (qe_init e) maxass None None"
    and F: "F = start_formula\<lparr>fs_asked := qs, fs_clauses := cs\<rparr>" "\<forall>a \<in> set asked. enough (qe_allow e) maxass F a"
    and run: "quapify_main e args = Some (Ret (EXIT_SUCCESS, out, so))"
  shows "\<exists>s s' F'. so = Some s' \<and> quapi_init (qe_init e) (Some path) (Some (c_array (cfg_solver_argv c))) None
        (largest_var cs) (int (length cs)) maxass None None () = Ret (Some s)
    \<and> describes s start_formula
    \<and> sv_header s = started_header (qe_init e) (largest_var cs) (int (length cs)) maxass
    \<and> session s start_formula
        (map event_call (formula_events qs cs) @ loop_calls (qe_allow e) (qe_io e) 0 (stored asked)) s' F'
    \<and> (\<forall>as1 a as2. asked = as1 @ a # as2 \<longrightarrow>
        (\<exists>s1 F1. session s start_formula
            (map event_call (formula_events qs cs) @ loop_calls (qe_allow e) (qe_io e) 0 (stored as1 @ a)) s1 F1
          \<and> same_formula F F1 \<and> fs_units F1 = a))"
  by (rule quapify_run_session [OF assms])

section \<open>Listing the assumptions\<close>

text \<open>An assumption as it is printed: its literals with spaces between them.\<close>

definition assumption_text :: "int list \<Rightarrow> string" where
  "assumption_text a = (case a of [] \<Rightarrow> [] | l # ls \<Rightarrow> show_int l @ concat (map (\<lambda>l. '' '' @ show_int l) ls))"

lemma print_assumption_rest:
  "0 \<notin> set ls \<Longrightarrow> print_assumption False (ls @ 0 # xs) = Ret (concat (map (\<lambda>l. '' '' @ show_int l) ls), xs)"
  by (induction ls) auto

lemma print_assumption_text:
  "0 \<notin> set a \<Longrightarrow> print_assumption True (a @ 0 # xs) = Ret (assumption_text a, xs)"
  by (cases a) (auto simp: assumption_text_def print_assumption_rest)

lemma print_assumptions_stored:
  "\<forall>a \<in> set as. 0 \<notin> set a \<Longrightarrow>
   print_assumptions (stored as) = Ret (concat (map (\<lambda>a. assumption_text a @ [NL]) as))"
proof (induction as)
  case (Cons a as)
  then show ?case by (subst print_assumptions.simps) (simp add: print_assumption_text)
qed (simp add: print_assumptions.simps)

definition splits_possible :: "int list \<Rightarrow> int list \<Rightarrow> bool" where
  "splits_possible qs splits \<longleftrightarrow> splits = [] \<or> qs \<noteq> [] \<and> splits_fit qs splits"

lemma inflate_possible:
  assumes "holds c as []" "0 \<notin> set qs"
  shows "if splits_possible qs (cfg_intsplits c)
    then \<exists>d. split_assumptions qs c = Some (Ret (True, d)) else split_assumptions qs c = Some (Ret (False, c))"
proof (cases "cfg_intsplits c = [] \<or> qs = []")
  case False
  with inflate_states_lemma [OF assms(1) _ assms(2)] show ?thesis by (auto simp: splits_possible_def split_assumptions_def split: if_splits)
qed (auto simp: splits_possible_def split_assumptions_def)

text \<open>
  C36. Listing. With \<open>-g\<close> the program always ends on a formula file: it prints every assumption of the
  command line and of the splits on a line of its own, in order, when the splits fit the
  prefix of the formula, and otherwise fails and prints nothing. No solver is started.
\<close>

theorem quapify_lists:
  assumes "parse_cli (qe_files e) args = Ret c" and "holds c as []" and "cfg_generate_list c"
    and "formula_file (qe_files e) c qs cs"
  shows "quapify_main e args = Some (Ret
    (if splits_possible qs (cfg_intsplits c)
     then (EXIT_SUCCESS, concat (map (\<lambda>a. assumption_text a @ [NL]) (all_assumptions qs as (cfg_intsplits c))), None)
     else (EXIT_FAILURE, [], None)))"
proof -
  obtain g :: "unit quapify_globals" where g: "run_kissat_parser (qe_files e) (qe_stdin e) c start_globals = Ret (True, g)"
    "q_quantifiers g = qs" using first_pass_formula_file [OF assms(4)] by blast
  have q: "0 \<notin> set qs" using assms(4) by (auto simp: formula_file_def lits_ok_def)
  show ?thesis
  proof (cases "splits_possible qs (cfg_intsplits c)")
    case True
    with inflate_possible [OF assms(2) q] obtain d where d: "split_assumptions qs c = Some (Ret (True, d))" by auto
    from inflated [OF assms(2) q d] have h: "same_options c d" "holds d (all_assumptions qs as (cfg_intsplits c)) []" by auto
    have "cfg_assumptions d = stored (all_assumptions qs as (cfg_intsplits c))"
      "\<forall>a \<in> set (all_assumptions qs as (cfg_intsplits c)). 0 \<notin> set a" using h(2) by (simp_all add: holds_def)
    with print_assumptions_stored same_options_fields [OF h(1)] True assms(1,3) g d show ?thesis
      by (simp add: quapify_main_def)
  next
    case False
    with inflate_possible [OF assms(2) q] have "split_assumptions qs c = Some (Ret (False, c))" by auto
    with False assms(1) g show ?thesis by (simp add: quapify_main_def)
  qed
qed

end
