(* ===== verification/Quapi_Quapify_System.thy ===== *)
theory Quapi_Quapify_System
  imports Quapi_Quapify
begin

text \<open>
  The tool, the library and the runtime together: what the solver reads when Quapify solves one of its
  assumptions.
\<close>

section \<open>The formula the library has\<close>

text \<open>The described formula after \<open>n\<close> solves: the first fork took the clauses, the later ones none.\<close>

definition solved :: "bool \<Rightarrow> int list \<Rightarrow> int list list \<Rightarrow> nat \<Rightarrow> formula_state \<Rightarrow> bool" where
  "solved w qs cs n F \<longleftrightarrow> fs_asked F = qs \<and> fs_clause F = [] \<and> fs_assumptions F = None
     \<and> fs_clauses F = (if n = 0 then cs else [])
     \<and> fs_batches F = (if n = 0 then [] else (cs, w) # replicate (n - 1) ([], w))"

lemma solved_fork:
  "solved w qs cs n F \<Longrightarrow> fs_batches (fs_fork w F) = (cs, w) # replicate n ([], w) \<and> fs_clauses (fs_fork w F) = []
    \<and> fs_asked (fs_fork w F) = qs \<and> fs_clause (fs_fork w F) = []"
  by (cases n) (simp_all add: solved_def fs_fork_def replicate_append_same)

lemma fold_assumes:
  "0 \<notin> set a \<Longrightarrow> a \<noteq> [] \<Longrightarrow>
    fold (fs_call w) (loop_calls allow io p a) F = (fs_fork w F)\<lparr>fs_assumptions := Some (fs_units F @ a)\<rparr>"
proof (induction a arbitrary: p F)
  case (Cons l a)
  have "fs_fork w (fs_assume w l F) = fs_assume w l F" "fs_units (fs_assume w l F) = fs_units F @ [l]"
    by (simp_all add: fs_assume_def fs_fork_def fs_units_def)
  with Cons show ?case by (cases "a = []") (simp_all add: fs_assume_def)
qed simp

lemma solved_step:
  assumes "solved w qs cs n F" "0 \<notin> set a" "a \<noteq> []"
  shows "solved w qs cs (n + 1) (fold (fs_call w) (loop_calls allow io p (a @ [0])) F)"
  using solved_fork [OF assms(1)] fold_assumes [OF assms(2,3)]
  by (simp add: loop_calls_append solved_def fs_solve_def fs_fork_def)

lemma solved_stored:
  assumes "solved w qs cs n F" "\<forall>a \<in> set as. 0 \<notin> set a \<and> a \<noteq> []"
  shows "solved w qs cs (n + length as) (fold (fs_call w) (loop_calls allow io p (stored as)) F)"
  using assms
proof (induction as arbitrary: n p F)
  case (Cons a as)
  from solved_step [OF Cons.prems(1), of a allow io p] Cons.prems(2)
  have "solved w qs cs (n + 1) (fold (fs_call w) (loop_calls allow io p (a @ [0])) F)" by simp
  from Cons.IH [OF this, of "p + length (a @ [0])"] Cons.prems(2) show ?case
    using loop_calls_append [of allow io p "a @ [0]" "stored as"] by simp
qed simp

lemma fold_input:
  assumes "\<forall>c \<in> set cs. lits_ok c"
  shows "fold (fs_call w) (map event_call (formula_events qs cs) :: 'u client_call list) start_formula
    = start_formula\<lparr>fs_asked := qs, fs_clauses := cs\<rparr>"
proof -
  let ?F = "start_formula\<lparr>fs_asked := qs\<rparr>"
  have "fold (fs_call w) (map Quantify qs :: 'u client_call list) F = F\<lparr>fs_asked := fs_asked F @ qs\<rparr>" for F
    by (induction qs arbitrary: F) (simp_all add: fs_quantify_def)
  then have "fold (fs_call w) (map Quantify qs :: 'u client_call list) start_formula = ?F" by (simp add: start_formula_def)
  moreover have "fold (fs_call w) (map Add ls :: 'u client_call list) F = fold fs_add ls F" for ls F
    by (induction ls arbitrary: F) simp_all
  moreover have "fs_clause ?F = []" "fs_clauses ?F = []" by (simp_all add: start_formula_def)
  ultimately show ?thesis using add_clauses [OF assms, of ?F] by (simp add: formula_events_def comp_def)
qed

lemma solved_start: "solved w qs cs 0 (start_formula\<lparr>fs_asked := qs, fs_clauses := cs\<rparr>)"
  by (simp add: solved_def start_formula_def)

text \<open>The formula at the solve of the assumption \<open>a\<close> after those of \<open>as1\<close>.\<close>

lemma formula_at_solve:
  assumes "\<forall>c \<in> set cs. lits_ok c" "\<forall>b \<in> set as1. 0 \<notin> set b \<and> b \<noteq> []" "0 \<notin> set a" "a \<noteq> []"
    and "F = fold (fs_call w) (map event_call (formula_events qs cs) @ loop_calls allow io 0 (stored as1 @ a)) start_formula"
  shows "fs_batches F = (cs, w) # replicate (length as1) ([], w) \<and> fs_clauses F = [] \<and> fs_clause F = []
    \<and> fs_asked F = qs \<and> fs_assumptions F = Some a"
proof -
  from solved_stored [OF solved_start assms(2), of w qs cs allow io 0] obtain G
    where G: "solved w qs cs (length as1) G"
      "G = fold (fs_call w) (loop_calls allow io 0 (stored as1)) (start_formula\<lparr>fs_asked := qs, fs_clauses := cs\<rparr>)" by simp
  then have "F = fold (fs_call w) (loop_calls allow io (length (stored as1)) a) G"
    using assms(5) by (simp add: loop_calls_append fold_input [OF assms(1)])
  moreover have "fs_units G = []" using G(1) by (simp add: solved_def fs_units_def)
  ultimately show ?thesis using fold_assumes [OF assms(3,4)] solved_fork [OF G(1)] by simp
qed

section \<open>What the solver reads\<close>

text \<open>The solve of the assumption \<open>a\<close>, and the text that its child owes the solver.\<close>

lemma quapify_run_delivers:
  assumes cli: "parse_cli (qe_files e) args = Ret c" "holds c as []" "cfg_selected c = -1" "\<not> cfg_generate_list c"
    and formula: "formula_file (qe_files e) c qs cs"
    and init: "cfg_solver c = Some path" "env_environ (qe_init e) = c_array environ"
      "quapi_read_msg_from_fd (env_reply (qe_init e)) = Ret (Some (Some (MStarted v)), rest)"
    and asked: "asked = all_assumptions qs as (cfg_intsplits c)" "maxass = int (fold max (map length asked) 0)"
      "starts (qe_init e) maxass None None"
    and F: "F = start_formula\<lparr>fs_asked := qs, fs_clauses := cs\<rparr>" "\<forall>a \<in> set asked. enough (qe_allow e) maxass F a"
    and run: "quapify_main e args = Some (Ret (EXIT_SUCCESS, out, so))"
    and a: "asked = as1 @ a # as2" "lits_ok a" and clauses: "clauses_ok cs" "qs \<noteq> [] \<longrightarrow> cs \<noteq> []"
    and forks: "parents fs" "length fs = length as1"
    and h: "h = started_header (qe_init e) (largest_var cs) (int (length cs)) maxass"
    and t: "t = formula_text h (given_prefix maxass qs) (solver_clauses h (given_prefix maxass qs) cs a)"
  shows "\<exists>s s1 F1 s2 rt. quapi_init (qe_init e) (Some path) (Some (c_array (cfg_solver_argv c))) None
        (largest_var cs) (int (length cs)) maxass None None () = Ret (Some s)
    \<and> session s start_formula
        (map event_call (formula_events qs cs) @ loop_calls (qe_allow e) (qe_io e) 0 (stored as1 @ a)) s1 F1
    \<and> (\<forall>script. quapi_solve (qe_allow e) reply script s1 =
         map_option (\<lambda>res. bind_outcome res finish_solve) (s_run S_POLL (solve_data s2) script))
    \<and> child_runtime (fo_pipe (write_pipe_stream s2)) fs
        (since s1 F1 (fo_pipe (solverchild_write_pipe_stream s2))) = Ret rt
    \<and> delivers h rt t"
proof -
  let ?calls = "map event_call (formula_events qs cs) @ loop_calls (qe_allow e) (qe_io e) 0 (stored as1 @ a)"
  from quapify_run_session [OF cli formula init asked F run] a(1) obtain s s1 F1
    where s: "quapi_init (qe_init e) (Some path) (Some (c_array (cfg_solver_argv c))) None
        (largest_var cs) (int (length cs)) maxass None None () = Ret (Some s)"
      "describes s start_formula" "sv_header s = h" and s1: "session s start_formula ?calls s1 F1"
    unfolding h by blast
  from session_describes [OF s1 s(2)] s(3) have d: "describes s1 F1" "sv_header s1 = h" "prefixdepth h = maxass"
    by (auto simp: h started_header_def)
  have cs: "lits_ok qs" "\<forall>c \<in> set cs. lits_ok c" using formula by (simp_all add: formula_file_def)
  have en: "enough (qe_allow e) maxass F b" if "b \<in> set asked" for b using F(2) that by blast
  then have ok: "\<forall>b \<in> set as1. 0 \<notin> set b \<and> b \<noteq> []" "0 \<notin> set a" "a \<noteq> []" using a(1) by (auto simp: enough_def)
  from formula_at_solve [OF cs(2) ok session_formula [OF s1 s(2)]]
  have F1: "fs_batches F1 = (cs, waits s) # replicate (length as1) ([], waits s)" "fs_clauses F1 = []" "fs_clause F1 = []"
    "fs_asked F1 = qs" "fs_assumptions F1 = Some a" "fs_units F1 = a" by (simp_all add: fs_units_def)
  have b: "batch_clauses (fs_batches F1) = cs" by (simp add: F1(1) batch_clauses_def)
  have "int (length cs + length a) < 2 ^ 31" "universal_depth maxass qs \<le> int (length a) \<or> qe_allow e"
    using en [of a] a(1) by (auto simp: enough_def F(1) fs_count_def start_formula_def)
  then have solv: "solvable F1" and u: "universal_depth (prefixdepth (sv_header s1)) (fs_asked F1) \<le> int (length (fs_units F1)) \<or> qe_allow e"
    using F1 b d(2,3) cs(1) a(2) clauses by (auto simp: solvable_def fs_fork_def fs_count_def)
  have r: "fs_assumptions F1 = None \<Longrightarrow> reports (sv_messages s1 @ reply) 0 []" by (simp add: F1(5))
  have "length fs + 1 = length (fs_batches (fs_fork (waits s1) F1))" using F1 forks(2) by (simp add: fs_fork_def)
  from quapi_solve_delivers [OF d(1) solv r u forks(1) this] obtain s2 rt where s2: "\<forall>script. quapi_solve (qe_allow e) reply script s1 =
         map_option (\<lambda>res. bind_outcome res finish_solve) (s_run S_POLL (solve_data s2) script)"
    "child_runtime (fo_pipe (write_pipe_stream s2)) fs (since s1 F1 (fo_pipe (solverchild_write_pipe_stream s2))) = Ret rt"
    "delivers (sv_header s1) rt (solver_input F1 (prefixdepth (sv_header s1)) (sv_header s1))"
    by blast
  have "solver_input F1 (prefixdepth (sv_header s1)) (sv_header s1) = t"
    using F1 b d(2,3) by (simp add: solver_input_def t)
  with s2(3) d(2) have "delivers h rt t" by simp
  with s(1) s1 s2(1,2) show ?thesis by (intro exI conjI)
qed

text \<open>
  C40. From the command line to the solver. When Quapify ends with success as in C35, then for each
  assumption \<open>a\<close> of the command line and of the splits the solve the program orders after assuming \<open>a\<close>
  makes the child that the runtime forks for it deliver to the solver, for reads of any sizes, exactly the QDIMACS text of
  the file's prefix, the file's clauses, the literals of \<open>a\<close> as unit clauses and the fillers, and
  then the end of the file. Nothing of the other assumptions is in it.
\<close>

theorem quapify_solver_reads:
  assumes cli: "parse_cli (qe_files e) args = Ret c" "holds c as []" "cfg_selected c = -1" "\<not> cfg_generate_list c"
    and formula: "formula_file (qe_files e) c qs cs"
    and init: "cfg_solver c = Some path" "env_environ (qe_init e) = c_array environ"
      "quapi_read_msg_from_fd (env_reply (qe_init e)) = Ret (Some (Some (MStarted v)), rest)"
    and asked: "asked = all_assumptions qs as (cfg_intsplits c)" "maxass = int (fold max (map length asked) 0)"
      "starts (qe_init e) maxass None None"
    and F: "F = start_formula\<lparr>fs_asked := qs, fs_clauses := cs\<rparr>" "\<forall>a \<in> set asked. enough (qe_allow e) maxass F a"
    and run: "quapify_main e args = Some (Ret (EXIT_SUCCESS, out, so))"
    and a: "asked = as1 @ a # as2" "lits_ok a" and clauses: "clauses_ok cs" "qs \<noteq> [] \<longrightarrow> cs \<noteq> []"
    and forks: "parents fs" "length fs = length as1"
    and h: "h = started_header (qe_init e) (largest_var cs) (int (length cs)) maxass"
    and t: "t = formula_text h (given_prefix maxass qs) (solver_clauses h (given_prefix maxass qs) cs a)"
    and ns: "\<forall>n \<in> set ns. 0 < n" "length t < length ns"
  shows "\<exists>s s1 F1 s2 rt. quapi_init (qe_init e) (Some path) (Some (c_array (cfg_solver_argv c))) None
        (largest_var cs) (int (length cs)) maxass None None () = Ret (Some s)
    \<and> session s start_formula
        (map event_call (formula_events qs cs) @ loop_calls (qe_allow e) (qe_io e) 0 (stored as1 @ a)) s1 F1
    \<and> (\<forall>script. quapi_solve (qe_allow e) reply script s1 =
         map_option (\<lambda>res. bind_outcome res finish_solve) (s_run S_POLL (solve_data s2) script))
    \<and> child_runtime (fo_pipe (write_pipe_stream s2)) fs
        (since s1 F1 (fo_pipe (solverchild_write_pipe_stream s2))) = Ret rt
    \<and> read_all (runtime_rd trace) ns rt = Some (t, True)"
proof -
  from quapify_run_delivers [OF cli formula init asked F run a clauses forks h t, of reply] obtain s s1 F1 s2 rt where
    r: "quapi_init (qe_init e) (Some path) (Some (c_array (cfg_solver_argv c))) None
        (largest_var cs) (int (length cs)) maxass None None () = Ret (Some s)"
      "session s start_formula
        (map event_call (formula_events qs cs) @ loop_calls (qe_allow e) (qe_io e) 0 (stored as1 @ a)) s1 F1"
      "\<forall>script. quapi_solve (qe_allow e) reply script s1 =
         map_option (\<lambda>res. bind_outcome res finish_solve) (s_run S_POLL (solve_data s2) script)"
      "child_runtime (fo_pipe (write_pipe_stream s2)) fs
        (since s1 F1 (fo_pipe (solverchild_write_pipe_stream s2))) = Ret rt"
    and "delivers h rt t" by blast
  from runtime.read_all_text [OF this(5) ns(1), of trace] ns(2) have "read_all (runtime_rd trace) ns rt = Some (t, True)"
    by auto
  with r show ?thesis by (intro exI conjI)
qed

end
