(* ===== verification/Quapi_Quapify_Deviations.thy ===== *)
theory Quapi_Quapify_Deviations
  imports Quapi_Quapify_System
begin

text \<open>
  Formulas the parser accepts and Quapify does not handle: quantifiers after a clause, and
  quantified variables beyond the variables of the clauses.
\<close>

lemma header_then:
  assumes "0 \<le> literals h" "literals h < 2 ^ 31" "0 \<le> clauses h" "clauses h < 2 ^ 31"
  shows "bind_sum (header_lines strict True (header_text h @ rest) 1) (\<lambda>(cs1, ln1). header_line strict cs1 ln1)
    = Inr (nat (literals h), nat (clauses h), rest, 2)"
proof -
  have ft: "header_text h @ rest = CHR ''p'' # '' cnf '' @ show_int (literals h) @ '' '' @ show_int (clauses h) @ NL # rest"
    by (simp add: header_text_def)
  have hl: "header_lines strict True (CHR ''p'' # x) 1 = Inr (x, 1)" for x
    by (subst header_lines.simps) simp
  show ?thesis
    unfolding ft hl using parse_header_text [OF assms, of strict rest 1] by (simp add: bind_sum_def)
qed

section \<open>Quantifiers after a clause\<close>

lemma parse_late_block:
  assumes h: "0 \<le> literals h" "literals h < 2 ^ 31" "clauses h = int (length cs1 + length cs2)" "clauses h < 2 ^ 31"
    and cs: "\<forall>c \<in> set (cs1 @ cs2). lits_ok c \<and> (\<forall>l \<in> set c. \<bar>l\<bar> \<le> literals h)"
    and blk: "one_sign blk" "lits_ok blk" "\<forall>q \<in> set blk. \<bar>q\<bar> \<le> literals h" and ne: "cs2 \<noteq> []"
    and t: "t = header_text h @ concat (map clause_text cs1) @ block_text blk @ concat (map clause_text cs2)"
  shows "pr_error (kissat_parse_dimacs strict t) = None"
    and "pr_events (kissat_parse_dimacs strict t) =
      concat (map clause_events cs1) @ map Add_Quantifier blk @ concat (map clause_events cs2)"
proof -
  let ?vs = "nat (literals h)" and ?cl = "nat (clauses h)"
  let ?t2 = "concat (map clause_text cs2)"
  have cl: "?cl = length cs1 + length cs2" "0 \<le> clauses h" using h(3) by simp_all
  have rg: "in_range strict ?vs l" if "lit_ok l" "\<bar>l\<bar> \<le> literals h" for l
    using that h(1) by (auto simp: in_range_def lit_ok_def)
  have c: "\<forall>c \<in> set cs1. \<forall>l \<in> set c. in_range strict ?vs l \<and> l \<noteq> 0" "\<forall>c \<in> set cs2. \<forall>l \<in> set c. in_range strict ?vs l \<and> l \<noteq> 0"
    using cs rg by (auto simp: lits_ok_def)
  have q: "\<forall>q \<in> set blk. in_range strict ?vs q \<and> q \<noteq> 0 \<and> (0 < q) = (0 < hd blk)"
    using blk rg one_signD [OF blk(1)] by (auto simp: lits_ok_def)
  let ?b1 = "start_state\<lparr>parsed := length cs1, events := concat (map clause_events cs1)\<rparr>"
  let ?b2 = "?b1\<lparr>events := events ?b1 @ map Add_Quantifier blk\<rparr>"
  let ?b3 = "?b2\<lparr>parsed := ?cl, events := events ?b2 @ concat (map clause_events cs2)\<rparr>"
  have "parse_body strict ?vs ?cl start_state (concat (map clause_text cs1) @ block_text blk @ ?t2) 2
      = parse_body strict ?vs ?cl ?b1 (block_text blk @ ?t2) (2 + length cs1)"
    using parse_body_clauses [OF _ c(1), of start_state ?cl "block_text blk @ ?t2" 2] cl
    by (simp add: start_state_def no_block_def)
  also have "\<dots> = parse_body strict ?vs ?cl ?b2 ?t2 (2 + length cs1 + 1)"
    using parse_body_block [OF q one_sign_nonempty [OF blk(1)], of ?b1 ?cl ?t2 "2 + length cs1"] cl ne
    by (simp add: start_state_def no_block_def)
  also have "\<dots> = parse_body strict ?vs ?cl ?b3 [] (2 + length cs1 + 1 + length cs2)"
    using parse_body_clauses [OF _ c(2), of ?b2 ?cl "[]" "2 + length cs1 + 1"] cl
    by (simp add: start_state_def no_block_def)
  also have "\<dots> = (None, 2 + length cs1 + 1 + length cs2, ?b3)"
    by (simp add: parse_body.simps [of _ _ _ _ "[]"] parse_end_def start_state_def)
  finally have body: "parse_body strict ?vs ?cl start_state (concat (map clause_text cs1) @ block_text blk @ ?t2) 2
      = (None, 2 + length cs1 + 1 + length cs2, ?b3)" .
  show "pr_error (kissat_parse_dimacs strict t) = None"
    "pr_events (kissat_parse_dimacs strict t) = concat (map clause_events cs1) @ map Add_Quantifier blk @ concat (map clause_events cs2)"
    using body header_then [OF h(1,2) cl(2) h(4)] by (simp_all add: t kissat_parse_dimacs_def parse_dimacs_def)
qed

text \<open>
  C37. Quantifiers after a clause. The parser accepts a file with a quantifier block after a
  clause, without an error in any strictness, but the second pass of Quapify then fails an
  assertion of \<open>quapi_quantify\<close>, which stops the program.
\<close>

theorem late_quantifiers_abort:
  assumes h: "0 \<le> literals h" "literals h < 2 ^ 31" "clauses h = int (length cs1 + length cs2)" "clauses h < 2 ^ 31 - 1"
    and cs: "\<forall>c \<in> set (cs1 @ cs2). lits_ok c \<and> (\<forall>l \<in> set c. \<bar>l\<bar> \<le> literals h)"
    and blk: "one_sign blk" "lits_ok blk" "\<forall>q \<in> set blk. \<bar>q\<bar> \<le> literals h" and ne: "cs1 \<noteq> []" "cs2 \<noteq> []"
    and t: "t = header_text h @ concat (map clause_text cs1) @ block_text blk @ concat (map clause_text cs2)"
    and s: "describes s start_formula" "sv_state s = QUAPI_INPUT" "q_solver g = Some s"
  shows "pr_error (kissat_parse_dimacs strict t) = None
    \<and> parser_calls (pr_events (kissat_parse_dimacs strict t)) g = Assert_Failed"
proof -
  have "clauses h < 2 ^ 31" using h(4) by simp
  note parse = parse_late_block [OF h(1-3) this cs blk ne(2) t, of strict]
  have "\<forall>c \<in> set cs1. lits_ok c" "length cs1 < 2 ^ 31 - 1" using cs h(3,4) by auto
  from second_pass_session [OF s, of "[]" cs1] this obtain s'
    where s': "parser_calls (formula_events [] cs1) g = Ret (g\<lparr>q_solver := Some s'\<rparr>)"
      "session s start_formula (map event_call (formula_events [] cs1)) s' (start_formula\<lparr>fs_asked := [], fs_clauses := cs1\<rparr>)"
    by auto
  from session_describes [OF s'(2) s(1)] ne(1) have "sv_state s' \<noteq> QUAPI_INPUT"
    by (auto simp: describes_def phase_ok_def)
  then have "quapi_quantify q s' = Assert_Failed" for q by (simp add: quapi_quantify_def)
  moreover obtain q qs where "blk = q # qs" using one_sign_nonempty [OF blk(1)] by (cases blk) auto
  ultimately have "parser_calls (map Add_Quantifier blk @ es) (g\<lparr>q_solver := Some s'\<rparr>) = Assert_Failed" for es
    by (simp add: add_quantifier_def)
  with s'(1) parse show ?thesis
    by (simp add: parser_calls_append formula_events_clause_events flip: append_assoc)
qed

section \<open>Variables of the prefix\<close>

lemma parse_body_large:
  assumes "strict \<noteq> RELAXED_PARSING" "lit_ok q" "0 < q" "int vs < q"
  shows "fst (parse_body strict vs cl b (show_int q @ SPC # rest) ln)
    = Some (''maximum variable index exceeded '' @ TRY_RELAXED_PARSING)"
proof -
  let ?n = "nat q"
  have "?n \<le> MAX_VARS" "vs < ?n" using assms by (auto simp: lit_ok_def MAX_VARS_def nat_le_iff zless_nat_eq_int_zless)
  from parse_show_nat [OF this(1)] obtain c cs where c: "show_nat ?n = c # cs" "isdigit c"
    "\<And>rest. stops rest \<Longrightarrow> parse_number MAX_VARS (digit_value c) (cs @ rest) = Some (?n, rest)" by blast
  have s: "show_int q = c # cs" using c(1) assms(3) by (simp add: show_int_def)
  have "parse_literal strict vs cl b 1 c (cs @ SPC # rest) ln
      = Inl (''maximum variable index exceeded '' @ TRY_RELAXED_PARSING, ln)"
    using assms(1) \<open>vs < ?n\<close> c(3) [of "SPC # rest"]
    by (simp add: parse_literal_def bind_sum_def after_literal_def blank_def)
  then have "parse_token strict vs cl b c (cs @ SPC # rest) ln
      = Inl (''maximum variable index exceeded '' @ TRY_RELAXED_PARSING, ln)"
    using digit_chars [OF c(2)] c(2) by (simp add: parse_token_def)
  then show ?thesis unfolding s by (subst parse_body.simps) simp
qed

text \<open>A parser that is told fewer variables than the prefix has rejects the text at the first such variable.\<close>

lemma large_quantifier_rejected:
  assumes strict: "strict \<noteq> RELAXED_PARSING" and q: "q \<in> set qs" "literals h < \<bar>q\<bar>" and qs: "lits_ok qs"
    and h: "0 \<le> literals h" "0 < clauses h" "clauses h < 2 ^ 31"
  shows "pr_error (kissat_parse_dimacs strict (formula_text h qs cs)) =
    Some (''maximum variable index exceeded '' @ TRY_RELAXED_PARSING)"
proof -
  let ?vs = "nat (literals h)" and ?cl = "nat (clauses h)" and ?rg = "in_range strict (nat (literals h))"
  have ok: "x \<in> set qs \<Longrightarrow> lit_ok x \<and> x \<noteq> 0" for x using qs by (auto simp: lits_ok_def)
  have lit: "literals h < 2 ^ 31" using ok [OF q(1)] q(2) by (auto simp: lit_ok_def)
  have "\<exists>blk \<in> set (quantifier_blocks qs). \<exists>x \<in> set blk. \<not> ?rg x"
  proof -
    have "q \<in> set (concat (quantifier_blocks qs))" using q(1) by (simp only: concat_quantifier_blocks)
    then obtain blk where "blk \<in> set (quantifier_blocks qs)" "q \<in> set blk" by auto
    moreover have "\<not> ?rg q" using q(2) strict h(1) by (simp add: in_range_def)
    ultimately show ?thesis by blast
  qed
  from split_list_first_prop [OF this] obtain blks blk blks' where blks: "quantifier_blocks qs = blks @ blk # blks'"
    "\<exists>x \<in> set blk. \<not> ?rg x" "\<forall>b \<in> set blks. \<forall>x \<in> set b. ?rg x" by blast
  from split_list_first_prop [OF blks(2)] obtain xs x ys where xs: "blk = xs @ x # ys" "\<not> ?rg x" "\<forall>y \<in> set xs. ?rg y" by blast
  have all: "set (concat (blks @ blk # blks')) = set qs" using concat_quantifier_blocks [of qs] by (simp only: blks(1))
  have os: "list_all one_sign blks" "one_sign blk" using quantifier_blocks_sign [of qs] by (simp_all add: blks(1))
  let ?rest = "concat (map block_text blks') @ concat (map clause_text cs)"
  let ?b1 = "start_state\<lparr>events := map Add_Quantifier (concat blks)\<rparr>"
  let ?ex = "0 < hd blk" and ?ln = "2 + length blks"
  let ?b2 = "?b1\<lparr>block_exists := ?ex, block_forall := \<not> ?ex\<rparr>"
  let ?tail = "concat (map (\<lambda>x. show_int \<bar>x\<bar> @ '' '') ys) @ CHR ''0'' # NL # ?rest"
  have sub: "set (concat blks) \<subseteq> set qs" "set blk \<subseteq> set qs" unfolding all [symmetric] by auto
  have "?rg y \<and> y \<noteq> 0" if "y \<in> set (concat blks)" for y
    using blks(3) ok [OF subsetD [OF sub(1) that]] that by auto
  then have "parse_body strict ?vs ?cl start_state (prefix_text qs @ concat (map clause_text cs)) 2
      = parse_body strict ?vs ?cl ?b1 (block_text blk @ ?rest) ?ln"
    using parse_body_blocks [OF os(1), of strict ?vs start_state ?cl "block_text blk @ ?rest" 2] h(2)
    by (simp add: prefix_text_def blks(1) start_state_def no_block_def)
  also have "\<dots> = parse_body strict ?vs ?cl ?b2 (concat (map (\<lambda>x. show_int \<bar>x\<bar> @ '' '') xs) @ show_int \<bar>x\<bar> @ SPC # ?tail) ?ln"
    using parse_body_enter [of ?b1 ?ex blk strict ?vs ?cl ?rest ?ln] by (simp add: start_state_def no_block_def xs(1))
  finally have body: "parse_body strict ?vs ?cl start_state (prefix_text qs @ concat (map clause_text cs)) 2
      = parse_body strict ?vs ?cl ?b2 (concat (map (\<lambda>x. show_int \<bar>x\<bar> @ '' '') xs) @ show_int \<bar>x\<bar> @ SPC # ?tail) ?ln" .
  have "fst (parse_body strict ?vs ?cl ?b2 (concat (map (\<lambda>x. show_int \<bar>x\<bar> @ '' '') xs) @ show_int \<bar>x\<bar> @ SPC # ?tail) ?ln)
      = Some (''maximum variable index exceeded '' @ TRY_RELAXED_PARSING)"
  proof -
    have "\<forall>y \<in> set xs. ?rg y \<and> y \<noteq> 0 \<and> (0 < y) = ?ex"
      using xs ok sub(2) one_signD [OF os(2)] by auto
    note enter = parse_body_quantifiers [OF this, of ?b2 ?cl "show_int \<bar>x\<bar> @ SPC # ?tail" ?ln]
    have "x \<in> set qs" using sub(2) xs(1) by auto
    from ok [OF this] have l: "lit_ok \<bar>x\<bar>" "0 < \<bar>x\<bar>" "\<bar>x\<bar> < 2 ^ 31" by (auto simp: lit_ok_def)
    with xs(2) h(1) have "int ?vs < \<bar>x\<bar>" by (auto simp: in_range_def)
    note this = l(1,2) this
    from parse_body_large [OF strict this, of ?cl] enter show ?thesis by simp
  qed
  then have "fst (parse_body strict ?vs ?cl start_state (prefix_text qs @ concat (map clause_text cs)) 2)
      = Some (''maximum variable index exceeded '' @ TRY_RELAXED_PARSING)" by (simp only: body)
  with header_of_formula_text [of h strict qs cs] h lit show ?thesis
    by (auto simp: kissat_parse_dimacs_def parse_dimacs_def split: prod.splits)
qed

lemma given_prefix_abs: "q \<in> set qs \<Longrightarrow> \<exists>q' \<in> set (given_prefix d qs). \<bar>q'\<bar> = \<bar>q\<bar>"
proof -
  assume "q \<in> set qs"
  then obtain i where i: "i < length qs" "qs ! i = q" by (auto simp: in_set_conv_nth)
  let ?q = "if int i < d \<and> qs ! i < 0 then - (qs ! i) else qs ! i"
  have "?q \<in> set (given_prefix d qs)" using i(1) by (auto simp: given_prefix_def)
  moreover have "\<bar>?q\<bar> = \<bar>q\<bar>" using i(2) by simp
  ultimately show ?thesis by blast
qed

lemma largest_var_below:
  assumes "\<forall>l \<in> set (concat cs). \<bar>l\<bar> < n" "0 < n"
  shows "largest_var cs < n"
proof -
  have "fold (\<lambda>l v. max v \<bar>l\<bar>) ls m < n" if "\<forall>l \<in> set ls. \<bar>l\<bar> < n" "m < n" for ls and m :: int
    using that by (induction ls arbitrary: m) auto
  then show ?thesis using assms by (auto simp: largest_var_def)
qed

text \<open>
  C38. Variables of the prefix. The first pass does not count the variables that are only
  quantified. When a quantified variable is larger than all variables of the clauses, the program
  (with the other hypotheses of C40) collects that variable but counts fewer, and announces the
  smaller number to the library. The text the solver then reads in a solve quantifies a variable beyond
  the number in its header, and a strict parser, the tool's own among them, rejects it.
\<close>

theorem prefix_variables_not_counted:
  assumes cli: "parse_cli (qe_files e) args = Ret c" "holds c as []" "cfg_selected c = -1" "\<not> cfg_generate_list c"
    and formula: "formula_file (qe_files e) c qs cs"
    and init: "cfg_solver c = Some path" "env_environ (qe_init e) = c_array environ"
      "quapi_read_msg_from_fd (env_reply (qe_init e)) = Ret (Some (Some (MStarted v)), rest)"
    and asked: "asked = all_assumptions qs as (cfg_intsplits c)" "maxass = int (fold max (map length asked) 0)"
      "starts (qe_init e) maxass None None"
    and F: "F = start_formula\<lparr>fs_asked := qs, fs_clauses := cs\<rparr>" "\<forall>a \<in> set asked. enough (qe_allow e) maxass F a"
    and run: "quapify_main e args = Some (Ret (EXIT_SUCCESS, out, so))"
    and a: "asked = as1 @ a # as2" "lits_ok a" and clauses: "clauses_ok cs" "cs \<noteq> []"
    and forks: "parents fs" "length fs = length as1"
    and q: "q \<in> set qs" "\<forall>l \<in> set (concat cs). \<bar>l\<bar> < \<bar>q\<bar>" and strict: "strict \<noteq> RELAXED_PARSING"
  shows "\<exists>g s s1 F1 s2 rt t.
      run_kissat_parser (qe_files e) (qe_stdin e) c (start_globals :: unit quapify_globals) = Ret (True, g)
    \<and> q \<in> set (q_quantifiers g) \<and> q_varcount g < \<bar>q\<bar>
    \<and> quapi_init (qe_init e) (Some path) (Some (c_array (cfg_solver_argv c))) None
        (q_varcount g) (q_clausecount g) maxass None None () = Ret (Some s)
    \<and> session s start_formula
        (map event_call (formula_events qs cs) @ loop_calls (qe_allow e) (qe_io e) 0 (stored as1 @ a)) s1 F1
    \<and> (\<forall>script. quapi_solve (qe_allow e) reply script s1 =
         map_option (\<lambda>res. bind_outcome res finish_solve) (s_run S_POLL (solve_data s2) script))
    \<and> child_runtime (fo_pipe (write_pipe_stream s2)) fs
        (since s1 F1 (fo_pipe (solverchild_write_pipe_stream s2))) = Ret rt
    \<and> (\<forall>ns. (\<forall>n \<in> set ns. 0 < n) \<and> length t < length ns \<longrightarrow> read_all (runtime_rd trace) ns rt = Some (t, True))
    \<and> pr_error (kissat_parse_dimacs strict t) = Some (''maximum variable index exceeded '' @ TRY_RELAXED_PARSING)"
proof -
  obtain g :: "unit quapify_globals" where g: "run_kissat_parser (qe_files e) (qe_stdin e) c start_globals = Ret (True, g)"
    "q_quantifiers g = qs" "q_varcount g = largest_var cs" "q_clausecount g = int (length cs)"
    using first_pass_formula_file [OF formula] by blast
  let ?h = "started_header (qe_init e) (largest_var cs) (int (length cs)) maxass" and ?qs = "given_prefix maxass qs"
  let ?cs = "solver_clauses ?h ?qs cs a"
  obtain t where t: "t = formula_text ?h ?qs ?cs" by blast
  have "qs \<noteq> [] \<longrightarrow> cs \<noteq> []" using clauses(2) by simp
  from quapify_run_delivers [OF cli formula init asked F run a clauses(1) this forks refl t, of reply] obtain s s1 F1 s2 rt where
    r: "quapi_init (qe_init e) (Some path) (Some (c_array (cfg_solver_argv c))) None
        (largest_var cs) (int (length cs)) maxass None None () = Ret (Some s)"
      "session s start_formula
        (map event_call (formula_events qs cs) @ loop_calls (qe_allow e) (qe_io e) 0 (stored as1 @ a)) s1 F1"
      "\<forall>script. quapi_solve (qe_allow e) reply script s1 =
         map_option (\<lambda>res. bind_outcome res finish_solve) (s_run S_POLL (solve_data s2) script)"
      "child_runtime (fo_pipe (write_pipe_stream s2)) fs
        (since s1 F1 (fo_pipe (solverchild_write_pipe_stream s2))) = Ret rt"
    and d: "delivers ?h rt t" by blast
  have read: "\<forall>ns. (\<forall>n \<in> set ns. 0 < n) \<and> length t < length ns \<longrightarrow> read_all (runtime_rd trace) ns rt = Some (t, True)"
  proof (intro allI impI)
    show "read_all (runtime_rd trace) ns rt = Some (t, True)" if "(\<forall>n \<in> set ns. 0 < n) \<and> length t < length ns" for ns
      using runtime.read_all_text [OF d, of ns trace] that by auto
  qed
  have lits: "lits_ok qs" "\<forall>c \<in> set cs. lits_ok c" "length cs < 2 ^ 31 - 1" using formula by (simp_all add: formula_file_def)
  have q0: "0 < \<bar>q\<bar>" using lits(1) q(1) by (auto simp: lits_ok_def)
  have lv: "largest_var cs < \<bar>q\<bar>" "0 \<le> largest_var cs"
    using largest_var_below [OF q(2) q0] largest_var_range [OF lits(2)] by auto
  obtain q' where q': "q' \<in> set ?qs" "\<bar>q'\<bar> = \<bar>q\<bar>" using given_prefix_abs [OF q(1)] by blast
  have "\<forall>b \<in> set asked. length b < 2 ^ 31 - length cs"
    using F(2) by (auto simp: enough_def F(1) fs_count_def start_formula_def)
  from max_size_below [OF this] lits(3) have "0 \<le> maxass" "int (length cs) + maxass < 2 ^ 31"
    unfolding asked(2) by auto
  then have hd: "literals ?h = largest_var cs" "0 < clauses ?h" "clauses ?h < 2 ^ 31"
    using clauses(2) by (auto simp: started_header_def s32_id in32_def)
  have "pr_error (kissat_parse_dimacs strict t) = Some (''maximum variable index exceeded '' @ TRY_RELAXED_PARSING)"
    unfolding t using large_quantifier_rejected [OF strict q'(1), of ?h ?cs] q'(2) lv hd lits_ok_given_prefix [OF lits(1)] by simp
  with g q(1) lv(1) r read show ?thesis by (intro exI [of _ g] exI [of _ s] exI [of _ s1] exI [of _ F1] exI [of _ s2]
      exI [of _ rt] exI [of _ t] conjI) simp_all
qed

end
