(* ===== verification/Quapi_Timing.thy ===== *)
theory Quapi_Timing
  imports Quapi_Prelude
begin

text \<open>
  The timing of the preloaded library (\<open>timing.c\<close>): four points of time, read from the monotonic
  clock when \<open>QUAPI_TIMING\<close> is set, and the line printed at the last of them. A reading is what
  \<open>clock_gettime\<close> stores, \<open>None\<close> when it fails and leaves its target as it is; the readings to
  come are a list.
\<close>

section \<open>Readings\<close>

record timespec =
  tv_sec :: int
  tv_nsec :: int

definition s64 :: "int \<Rightarrow> int" where
  "s64 x = signed_take_bit 63 x"

lemma s64_id: "- (2 ^ 63) \<le> x \<Longrightarrow> x < 2 ^ 63 \<Longrightarrow> s64 x = x"
  unfolding s64_def by (rule signed_take_bit_int_eq_self) auto

definition timespec_to_nanos :: "timespec \<Rightarrow> int" where
  "timespec_to_nanos t = (let n = tv_nsec t; sec = s64 (tv_sec t * 1000000000) in s64 (n + sec))"

record timing =
  tm_enabled :: bool
  time_construct :: timespec
  time_firstread :: timespec
  time_header :: timespec
  time_msgafterheader :: timespec
  tm_clock :: "timespec option list"
  tm_stderr :: string

text \<open>The next reading, stored over the old value unless the clock fails.\<close>

definition gettime_into :: "timespec \<Rightarrow> timing \<Rightarrow> timespec \<times> timing" where
  "gettime_into old m =
     (case tm_clock m of
        Some t # rest \<Rightarrow> (t, m\<lparr>tm_clock := rest\<rparr>)
      | None # rest \<Rightarrow> (old, m\<lparr>tm_clock := rest\<rparr>)
      | [] \<Rightarrow> (old, m))"

definition end_timing :: "timing \<Rightarrow> timing" where
  "end_timing m =
     (let tconstruct = timespec_to_nanos (time_construct m); tfirstread = timespec_to_nanos (time_firstread m);
          theader = timespec_to_nanos (time_header m); tmsgafterheader = timespec_to_nanos (time_msgafterheader m);
          row = [tconstruct, tfirstread, theader, tmsgafterheader, s64 (tfirstread - tconstruct),
                 s64 (theader - tfirstread), s64 (tmsgafterheader - theader)]
      in m\<lparr>tm_stderr := tm_stderr m @ ''[QuAPI] [Timing]'' @ concat (map (\<lambda>n. '' '' @ show_int n) row) @ [NL]\<rparr>)"

text \<open>The point of construction is read twice.\<close>

definition quapi_timing_construct :: "bool \<Rightarrow> timing \<Rightarrow> timing" where
  "quapi_timing_construct env_set m =
     (let m0 = (if env_set then m\<lparr>tm_enabled := True\<rparr> else m) in
      if \<not> tm_enabled m0 then m0
      else
        (let (t1, m1) = gettime_into (time_construct m0) m0;
             (t2, m2) = gettime_into (time_construct (m1\<lparr>time_construct := t1\<rparr>)) (m1\<lparr>time_construct := t1\<rparr>)
         in m2\<lparr>time_construct := t2\<rparr>))"

definition quapi_timing_firstread :: "timing \<Rightarrow> timing" where
  "quapi_timing_firstread m =
     (if \<not> tm_enabled m then m
      else (let (t, m1) = gettime_into (time_firstread m) m in m1\<lparr>time_firstread := t\<rparr>))"

definition quapi_timing_header :: "timing \<Rightarrow> timing" where
  "quapi_timing_header m =
     (if \<not> tm_enabled m then m
      else (let (t, m1) = gettime_into (time_header m) m in m1\<lparr>time_header := t\<rparr>))"

definition quapi_timing_msg_after_header :: "timing \<Rightarrow> timing" where
  "quapi_timing_msg_after_header m =
     (if \<not> tm_enabled m then m
      else (let (t, m1) = gettime_into (time_msgafterheader m) m in end_timing (m1\<lparr>time_msgafterheader := t\<rparr>)))"

section \<open>The line\<close>

definition start_timing :: "timespec option list \<Rightarrow> timing" where
  "start_timing clock = \<lparr>tm_enabled = False, time_construct = \<lparr>tv_sec = 0, tv_nsec = 0\<rparr>,
     time_firstread = \<lparr>tv_sec = 0, tv_nsec = 0\<rparr>, time_header = \<lparr>tv_sec = 0, tv_nsec = 0\<rparr>,
     time_msgafterheader = \<lparr>tv_sec = 0, tv_nsec = 0\<rparr>, tm_clock = clock, tm_stderr = []\<rparr>"

text \<open>The calls the runtime makes, in its order.\<close>

definition timed_run :: "bool \<Rightarrow> timing \<Rightarrow> timing" where
  "timed_run env_set m =
     quapi_timing_msg_after_header (quapi_timing_header (quapi_timing_firstread (quapi_timing_construct env_set m)))"

text \<open>A reading in nanoseconds, without wrap-around for about 292 years.\<close>

definition nanos :: "timespec \<Rightarrow> int" where
  "nanos t = tv_sec t * 1000000000 + tv_nsec t"

definition reading_ok :: "timespec \<Rightarrow> bool" where
  "reading_ok t \<longleftrightarrow> 0 \<le> tv_sec t \<and> tv_sec t < 9223372036 \<and> 0 \<le> tv_nsec t \<and> tv_nsec t < 1000000000"

lemma timespec_to_nanos_ok: "reading_ok t \<Longrightarrow> timespec_to_nanos t = nanos t \<and> 0 \<le> nanos t \<and> nanos t < 2 ^ 63"
proof -
  assume t: "reading_ok t"
  then have "s64 (tv_sec t * 1000000000) = tv_sec t * 1000000000" by (intro s64_id) (auto simp: reading_ok_def)
  moreover have "0 \<le> nanos t" "nanos t < 2 ^ 63" using t by (auto simp: reading_ok_def nanos_def)
  moreover from this have "s64 (nanos t) = nanos t" by (intro s64_id) auto
  ultimately show ?thesis by (simp add: timespec_to_nanos_def nanos_def add.commute)
qed

lemma difference_ok: "reading_ok t \<Longrightarrow> reading_ok u \<Longrightarrow> s64 (nanos t - nanos u) = nanos t - nanos u"
  using timespec_to_nanos_ok [of t] timespec_to_nanos_ok [of u] by (intro s64_id) auto

text \<open>
  C39. Timing. Without \<open>QUAPI_TIMING\<close> nothing is read and nothing printed. With it, when no reading of
  the clock fails, the line has the four readings in nanoseconds, the second one for the construction,
  and the three differences between neighbours, without overflow.
\<close>

theorem timed_run_line:
  assumes "reading_ok t1" "reading_ok t2" "reading_ok t3" "reading_ok t4"
  shows "tm_stderr (timed_run False (start_timing clock)) = []
    \<and> tm_clock (timed_run False (start_timing clock)) = clock
    \<and> tm_stderr (timed_run True (start_timing (Some t0 # Some t1 # Some t2 # Some t3 # Some t4 # clock))) =
        ''[QuAPI] [Timing]'' @ concat (map (\<lambda>n. '' '' @ show_int n)
          [nanos t1, nanos t2, nanos t3, nanos t4, nanos t2 - nanos t1, nanos t3 - nanos t2, nanos t4 - nanos t3]) @ [NL]"
  using assms
  by (simp add: timed_run_def quapi_timing_construct_def quapi_timing_firstread_def quapi_timing_header_def
      quapi_timing_msg_after_header_def end_timing_def gettime_into_def start_timing_def Let_def
      timespec_to_nanos_ok difference_ok)

end
