(* ===== verification/Quapi_Quapify_Examples.thy ===== *)
theory Quapi_Quapify_Examples
  imports Quapi_Examples Quapi_Quapify_Deviations Quapi_Quapify_System Quapi_Timing
begin

text \<open>
  The properties of the tool and of the timing at concrete inputs: a file system with two
  formulas, and a run of Quapify on each that assumes one literal and solves. The prefix of the second
  formula has a variable that its clause does not have.
\<close>

section \<open>Files\<close>

definition demo_file :: string where
  "demo_file = formula_text (demo_header\<lparr>clauses := 1\<rparr>) [-1, 2] [[1, -2]]"

definition demo_wide_file :: string where
  "demo_wide_file = formula_text (demo_header\<lparr>literals := 3, clauses := 1\<rparr>) [-1, 2, 3] [[1, -2]]"

definition demo_files :: file_env where
  "demo_files = \<lparr>fe_stat = (\<lambda>p. if p = ''f'' \<or> p = ''g'' \<or> p = ''/bin/xz'' then Stat_File 36 else Stat_Failed ENOENT),
     fe_access_r = (\<lambda>p. True), fe_access_w = (\<lambda>p. True), 
     fe_content = (\<lambda>p. if p = ''f'' then Some demo_file else if p = ''g'' then Some demo_wide_file else None),
     fe_creates = (\<lambda>p. False), fe_unlinks = (\<lambda>p. False), fe_PATH = Some ''/sbin:/bin'', fe_popen = (\<lambda>c. None)\<rparr>"

text \<open>The names and prefixes of the two formulas.\<close>

definition demo_case :: "string \<Rightarrow> int list \<Rightarrow> bool" where
  "demo_case f qs \<longleftrightarrow> (f, qs) \<in> {(''f'', [-1, 2]), (''g'', [-1, 2, 3])}"

lemma demo_caseE:
  assumes "demo_case f qs" obtains "f = ''f''" "qs = [-1, 2]" | "f = ''g''" "qs = [-1, 2, 3]"
  using assms by (auto simp: demo_case_def)

lemma demo_cases: "demo_case ''f'' [-1, 2]" "demo_case ''g'' [-1, 2, 3]"
  by (simp_all add: demo_case_def)

lemma demo_file_text: "file_text demo_files ''f'' = Some demo_file" "file_text demo_files ''g'' = Some demo_wide_file"
  by (simp_all add: file_text_def read_commands_def compressed_as_def demo_files_def)

lemma demo_file_exists: "kissat_file_exists demo_files (Some ''f'')" "kissat_file_exists demo_files (Some ''g'')"
  by (simp_all add: kissat_file_exists_def demo_files_def)

theorem find_executable_search_path_witness:
  "kissat_find_executable demo_files ''xz''
    \<longleftrightarrow> (\<exists>d \<in> set [''/sbin'', ''/bin'']. kissat_file_readable demo_files (Some (d @ [SLASH] @ ''xz'')))"
  by (rule find_executable_search_path) (simp_all add: demo_files_def)

theorem root_files_unwritable_witness: "\<not> kissat_file_writable demo_files (Some (SLASH # ''f''))"
  by (rule root_files_unwritable [of _ ENOENT]) (simp_all add: demo_files_def)

section \<open>Splits\<close>

theorem ceil_log2_least_witness: "ceil_log2 5 = (LEAST k. unat (5 :: 64 word) \<le> 2 ^ k)"
  by (rule ceil_log2_least) simp

lemma demo_log2: "ceil_log2 3 = 2" "ceil_log2 2 = 1"
  by code_simp+

definition demo_splits :: quapify_config where
  "demo_splits = start_config\<lparr>cfg_intsplits := [3, 2], cfg_intsplits_capacity := 8, cfg_highest_intsplit := 3\<rparr>"

lemma demo_splits_holds: "holds demo_splits [] []" "cfg_intsplits demo_splits = [3, 2]"
  by (simp_all add: holds_def demo_splits_def start_config_def)

lemma demo_splits_fit: "splits_fit [1, 2, -3] [3, 2]"
  by (simp add: splits_fit_def split_lens_def demo_log2 same_block_def)

theorem inflate_intsplits_states_witness:
  "\<exists>d. inflate_intsplits [1, 2, -3] demo_splits = Some (Ret (True, d)) \<and> same_options demo_splits d
    \<and> holds d ([] @ map (state_lits [1, 2, -3] [3, 2]) (split_states [3, 2])) []"
  using inflate_intsplits_states [OF demo_splits_holds(1), of "[1, 2, -3]"] demo_splits_fit
  by (simp add: demo_splits_holds(2))

theorem split_assumptions_distinct_witness:
  "\<exists>d bs. inflate_intsplits [1, 2, -3] demo_splits = Some (Ret (True, d))
    \<and> holds d ([] @ bs) [] \<and> distinct bs \<and> length bs = 6"
proof -
  from inflate_states_lemma [OF demo_splits_holds(1), of "[1, 2, -3]"] demo_splits_fit obtain d
    where d: "inflate_intsplits [1, 2, -3] demo_splits = Some (Ret (True, d))"
    by (auto simp: demo_splits_holds(2))
  from split_assumptions_distinct [OF demo_splits_holds(1) _ _ _ d] show ?thesis
    using d by (simp add: demo_splits_holds(2))
qed

section \<open>The command line\<close>

theorem parse_cli_reads_back_witness:
  "\<exists>c. parse_cli demo_files (''f'' # cli_words [[-1]] [] (''solver'' # [])) = Ret c
    \<and> holds c (if [[-1 :: int]] = [] \<and> [] = ([] :: int list) then [[]] else [[-1]]) [] \<and> cfg_intsplits c = []
    \<and> cfg_input c = Some ''f'' \<and> cfg_solver c = Some ''solver'' \<and> cfg_solver_argv c = []
    \<and> cfg_strictness c = NORMAL_PARSING \<and> cfg_selected c = -1 \<and> \<not> cfg_generate_list c"
  by (rule parse_cli_reads_back [OF demo_file_exists(1)]) (simp_all add: in32_def)

lemma demo_cli:
  assumes "demo_case f qs"
  obtains c where "parse_cli demo_files (f # cli_words [[-1]] [] [''solver'']) = Ret c" "holds c [[-1]] []"
    "cfg_intsplits c = []" "cfg_input c = Some f" "cfg_solver c = Some ''solver''" "cfg_solver_argv c = []"
    "cfg_strictness c = NORMAL_PARSING" "cfg_selected c = -1" "\<not> cfg_generate_list c"
proof -
  have "kissat_file_exists demo_files (Some f)" using demo_file_exists by (cases rule: demo_caseE [OF assms]) simp_all
  moreover have "f \<noteq> ''-h'' \<and> f \<noteq> ''--help'' \<and> f \<noteq> ''-?''" by (cases rule: demo_caseE [OF assms]) simp_all
  ultimately show ?thesis
    using parse_cli_words [of demo_files f "[[-1]]" "[]" "''solver''" "[]"] that by (auto simp: in32_def)
qed

theorem parse_cli_config_witness:
  "\<exists>c. parse_cli demo_files (''f'' # cli_words [[-1]] [] [''solver'']) = Ret c
    \<and> (\<exists>as. holds c as []) \<and> cfg_assumptions c @ cfg_intsplits c \<noteq> []"
proof -
  obtain c where c: "parse_cli demo_files (''f'' # cli_words [[-1]] [] [''solver'']) = Ret c"
    using demo_cli [OF demo_cases(1)] by blast
  from c parse_cli_config [OF c] show ?thesis by blast
qed

section \<open>A run\<close>

lemma demo_formula_file:
  assumes "demo_case f qs" "cfg_input c = Some f" "cfg_strictness c = NORMAL_PARSING"
  shows "formula_file demo_files c qs [[1, -2]]"
proof -
  have "parse_dimacs NORMAL_PARSING demo_file =
    \<lparr>pr_error = None, pr_lineno = 2 + length (quantifier_blocks [-1, 2]) + length [[1, -2 :: int]],
     pr_max_var = Some (nat (literals (demo_header\<lparr>clauses := 1\<rparr>))),
     pr_events = map Add_Quantifier [-1, 2] @ concat (map clause_events [[1, -2]])\<rparr>"
    unfolding demo_file_def by (rule parse_formula_text) (simp_all add: lit_ok_def)
  moreover have "parse_dimacs NORMAL_PARSING demo_wide_file =
    \<lparr>pr_error = None, pr_lineno = 2 + length (quantifier_blocks [-1, 2, 3]) + length [[1, -2 :: int]],
     pr_max_var = Some (nat (literals (demo_header\<lparr>literals := 3, clauses := 1\<rparr>))),
     pr_events = map Add_Quantifier [-1, 2, 3] @ concat (map clause_events [[1, -2]])\<rparr>"
    unfolding demo_wide_file_def by (rule parse_formula_text) (simp_all add: lit_ok_def)
  ultimately show ?thesis
    using assms(2,3) demo_file_text
    by (cases rule: demo_caseE [OF assms(1)]) (simp_all add: formula_file_def kissat_parse_dimacs_def formula_events_clause_events lits_ok_def lit_ok_def)
qed

definition demo_quapify :: quapify_env where
  "demo_quapify = \<lparr>qe_files = demo_files, qe_stdin = [], qe_init = demo_env, qe_allow = False,
     qe_io = (\<lambda>p. (demo_reply, [Poll_Error ENOMEM], ''0 0.000000''))\<rparr>"

lemma demo_quapify_fields [simp]:
  "qe_files demo_quapify = demo_files" "qe_init demo_quapify = demo_env" "\<not> qe_allow demo_quapify"
  "qe_io demo_quapify = (\<lambda>p. (demo_reply, [Poll_Error ENOMEM], ''0 0.000000''))"
  by (simp_all add: demo_quapify_def)

definition demo_described :: "int list \<Rightarrow> formula_state" where
  "demo_described qs = start_formula\<lparr>fs_asked := qs, fs_clauses := [[1, -2]]\<rparr>"

lemma demo_described_simps [simp]:
  "fs_clause (demo_described qs) = []" "fs_assumptions (demo_described qs) = None" "fs_units (demo_described qs) = []"
  "fs_asked (demo_described qs) = qs" "fs_count (demo_described qs) = 1" "fs_clauses (demo_described qs) = [[1, -2]]"
  by (simp_all add: demo_described_def start_formula_def fs_units_def fs_count_def)

lemma demo_case_depth: "demo_case f qs \<Longrightarrow> universal_depth 1 qs \<le> 1"
  by (auto simp: demo_case_def universal_depth_def eval_nat_numeral)

lemma demo_enough: "demo_case f qs \<Longrightarrow> enough allow 1 (demo_described qs) [-1]"
  using demo_case_depth by (simp add: enough_def)

text \<open>Describing a formula leaves the messages of the child alone.\<close>

lemma input_session_messages:
  "session s F cs s' F' \<Longrightarrow> \<forall>c \<in> set cs. \<exists>e. c = event_call e \<Longrightarrow> sv_messages s' = sv_messages s"
proof (induction rule: session.induct)
  case (session_call s F cs s1 F1 c s2)
  from session_call.prems obtain e where c: "c = event_call e" by auto
  with session_call.hyps(3) have "sv_messages s2 = sv_messages s1"
    by (cases e) (auto simp: bind_outcome_Ret_iff dest: input_messages)
  with session_call show ?case by simp
qed simp

lemma solve_poll_error:
  fixes s :: "unit quapi_solver"
  assumes "describes s F" "fs_clause F = []" "fs_assumptions F \<noteq> None"
    and "universal_depth (prefixdepth (sv_header s)) (fs_asked F) \<le> int (length (fs_units F))"
  shows "\<exists>s'. quapi_solve allow reply [Poll_Error ENOMEM] s = Some (Ret (0, s'))"
proof -
  from assms(3) have "fs_assumptions F = None \<Longrightarrow> reports (sv_messages s @ reply) p rest" for p rest by simp
  from quapi_solve_request [OF assms(1,2) this, of allow] assms(4) obtain s1
    where q: "quapi_solve allow reply [Poll_Error ENOMEM] s =
      map_option (\<lambda>res. bind_outcome res finish_solve) (s_run S_POLL (solve_data s1) [Poll_Error ENOMEM])" by blast
  have "s_step S_POLL (solve_data s1) [Poll_Error ENOMEM] = Ret (S_Null ((solve_data s1)\<lparr>retcode := 0\<rparr>))"
    by (simp add: s_poll_def solve_data_def)
  from s_run_null [OF this] q show ?thesis by (simp add: finish_solve_def Let_def)
qed

lemma demo_loop:
  fixes s :: "unit quapi_solver"
  assumes qs: "demo_case f qs" and c: "cfg_selected c = -1" and d: "describes s (demo_described qs)" "sv_messages s = []"
    and h: "sv_header s = started_header demo_env 2 1 1"
  shows "\<exists>out s'. solve_loop c 2 False (qe_io demo_quapify) 0 (stored [[-1]]) (stored [[-1]]) 0 s = Some (Ret (True, out, s'))"
proof -
  have hd: "prefixdepth (sv_header s) = 1" "clauses (sv_header s) = 2"
    using h by (simp_all add: started_header_def s32_id in32_def)
  have w: "written_clauses s = 1" "sv_state s \<noteq> QUAPI_INPUT" using d(1) by (auto simp: describes_def counts_ok_def phase_ok_def)
  have room: "written_clauses s < s32 (clauses (sv_header s) + prefixdepth (sv_header s))"
    using w hd by (simp add: s32_id in32_def)
  have r: "reports (sv_messages s @ demo_reply) 42 []" using demo_reports [of start_formula] d(2) by simp
  from quapi_assume_describes [OF d(1) _ w(2) _ r room, of "-1"] obtain s1
    where s1: "quapi_assume demo_reply (-1) s = Ret (True, s1)" "describes s1 (fs_assume (waits s) (-1) (demo_described qs))"
      "config s1 = config s" by auto
  let ?F = "fs_assume (waits s) (-1) (demo_described qs)"
  have F: "fs_clause ?F = []" "fs_assumptions ?F \<noteq> None" "fs_units ?F = [-1]" "fs_asked ?F = qs"
    using same_formula_steps(1) [of "demo_described qs"] same_formula_steps(3,4) by (auto simp: same_formula_def)
  with demo_case_depth [OF qs] solve_poll_error [OF s1(2) F(1,2), of False demo_reply] F hd(1) s1(3) obtain s2
    where s2: "quapi_solve False demo_reply [Poll_Error ENOMEM] s1 = Some (Ret (0, s2))" by auto
  have "\<exists>row. result_row c ''0 0.000000'' 0 0 [-1, 0] = Ret row"
    by (cases "cfg_print_assumptions c") (simp_all add: result_row_def Let_def)
  then obtain row where "result_row c ''0 0.000000'' 0 0 [-1, 0] = Ret row" by blast
  with s1(1) s2 c show ?thesis by (simp add: selected_def)
qed

abbreviation demo_args :: "string \<Rightarrow> string list" where
  "demo_args f \<equiv> f # cli_words [[-1]] [] [''solver'']"

lemma demo_largest: "largest_var [[1, -2]] = 2"
  by (simp add: largest_var_def)

lemma demo_run:
  assumes qs: "demo_case f qs" and c: "parse_cli demo_files (demo_args f) = Ret c" "holds c [[-1]] []" "cfg_intsplits c = []"
    "cfg_input c = Some f" "cfg_solver c = Some ''solver''" "cfg_solver_argv c = []"
    "cfg_strictness c = NORMAL_PARSING" "cfg_selected c = -1" "\<not> cfg_generate_list c"
  shows "\<exists>out so. quapify_main demo_quapify (demo_args f) = Some (Ret (EXIT_SUCCESS, out, so))"
proof -
  note ff = demo_formula_file [OF qs c(4,7)]
  from first_pass_formula_file [OF ff] obtain g :: "unit quapify_globals"
    where g: "run_kissat_parser demo_files (qe_stdin demo_quapify) c start_globals = Ret (True, g)"
      "q_varcount g = 2" "q_clausecount g = 1" by (fastforce simp: demo_largest)
  have m: "cfg_max_assumption_size c = 1" "cfg_assumptions c = stored [[-1]]" using c(2) by (simp_all add: holds_def)
  from quapi_init_describes [OF demo_starts demo_range(1,2) demo_range(2) demo_environ demo_started, of "''solver''" "[]" "()"]
  obtain s :: "unit quapi_solver" where s: "quapi_init demo_env (Some ''solver'') (Some (c_array [])) None 2 1 1 None None () = Ret (Some s)"
    "describes s start_formula" "sv_header s = started_header demo_env 2 1 1" "sv_messages s = []" "sv_state s = QUAPI_INPUT"
    by (elim exE conjE) (rule that)
  have ok: "lits_ok qs" "length qs < 2 ^ 31" "\<forall>c \<in> set [[1, -2]]. lits_ok c" using qs by (auto simp: demo_case_def lit_ok_def)
  from second_pass_session [OF s(2,5) _ ok(1,3) ok(2), of "g\<lparr>q_solver := Some s\<rparr>"] obtain t
    where t: "parser_calls (formula_events qs [[1, -2]]) (g\<lparr>q_solver := Some s\<rparr>) = Ret (g\<lparr>q_solver := Some t\<rparr>)"
      "session s start_formula (map event_call (formula_events qs [[1, -2]])) t (demo_described qs)"
    by (auto simp: demo_described_def)
  from session_describes [OF t(2) s(2)] s(3) have dt: "describes t (demo_described qs)" "sv_header t = started_header demo_env 2 1 1" by auto
  have "\<forall>c \<in> set (map event_call (formula_events qs [[1, -2]])). \<exists>e. c = event_call e" by auto
  from input_session_messages [OF t(2) this] s(4) have "sv_messages t = []" by simp
  from demo_loop [OF qs c(8) dt(1) this dt(2)] obtain out s'
    where loop: "solve_loop c 2 False (qe_io demo_quapify) 0 (stored [[-1]]) (stored [[-1]]) 0 t = Some (Ret (True, out, s'))"
    by blast
  have split: "split_assumptions (q_quantifiers g) c = Some (Ret (True, c))" using c(3) by (simp add: split_assumptions_def)
  have pass: "run_kissat_parser demo_files [] c (g\<lparr>q_solver := Some s\<rparr>) = Ret (True, g\<lparr>q_solver := Some t\<rparr>)"
    using run_parser_formula_file [OF ff, of "[]" "g\<lparr>q_solver := Some s\<rparr>"] t(1) by simp
  have "solve_formula demo_quapify c g s = Some (Ret (EXIT_SUCCESS, (if cfg_print_header c then table_header else []) @ out, Some s'))"
    by (simp add: solve_formula_def pass g(2) m(2) loop del: solve_loop.simps stored_simps demo_quapify_fields(4))
  moreover have "s32 2 = 2" "s32 1 = 1" by (simp_all add: s32_id in32_def)
  ultimately show ?thesis using c g s(1) split m(1) by (simp add: quapify_main_def)
qed

theorem quapify_session_witness:
  "\<exists>out so s s' F'. quapify_main demo_quapify (demo_args ''f'') = Some (Ret (EXIT_SUCCESS, out, so)) \<and> so = Some s'
    \<and> quapi_init demo_env (Some ''solver'') (Some (c_array [])) None (largest_var [[1, -2]]) (int (length [[1, -2 :: int]])) 1
        None None () = Ret (Some s)
    \<and> describes s start_formula
    \<and> sv_header s = started_header demo_env (largest_var [[1, -2]]) (int (length [[1, -2 :: int]])) 1
    \<and> session s start_formula
        (map event_call (formula_events [-1, 2] [[1, -2]]) @ loop_calls False (qe_io demo_quapify) 0 (stored [[-1]])) s' F'"
proof -
  obtain c where c: "parse_cli demo_files (demo_args ''f'') = Ret c" "holds c [[-1]] []" "cfg_intsplits c = []"
    "cfg_input c = Some ''f''" "cfg_solver c = Some ''solver''" "cfg_solver_argv c = []"
    "cfg_strictness c = NORMAL_PARSING" "cfg_selected c = -1" "\<not> cfg_generate_list c" by (rule demo_cli [OF demo_cases(1)])
  from demo_run [OF demo_cases(1) c] obtain out so where run: "quapify_main demo_quapify (demo_args ''f'') = Some (Ret (EXIT_SUCCESS, out, so))" by blast
  have "\<exists>s s' F'. so = Some s'
    \<and> quapi_init (qe_init demo_quapify) (Some ''solver'') (Some (c_array (cfg_solver_argv c))) None
        (largest_var [[1, -2]]) (int (length [[1, -2 :: int]])) 1 None None () = Ret (Some s)
    \<and> describes s start_formula
    \<and> sv_header s = started_header (qe_init demo_quapify) (largest_var [[1, -2]]) (int (length [[1, -2 :: int]])) 1
    \<and> session s start_formula
        (map event_call (formula_events [-1, 2] [[1, -2]]) @ loop_calls (qe_allow demo_quapify) (qe_io demo_quapify) 0 (stored [[-1]])) s' F'
    \<and> (\<forall>as1 a as2. [[-1]] = as1 @ a # as2 \<longrightarrow>
        (\<exists>s1 F1. session s start_formula
            (map event_call (formula_events [-1, 2] [[1, -2]]) @ loop_calls (qe_allow demo_quapify) (qe_io demo_quapify) 0 (stored as1 @ a)) s1 F1
          \<and> same_formula (demo_described [-1, 2]) F1 \<and> fs_units F1 = a))"
    by (rule quapify_session [OF _ c(2,8,9) _ c(5) _ _ _ _ _ demo_described_def _ run])
      (use c demo_formula_file [OF demo_cases(1) c(4,7)] demo_environ demo_started demo_starts demo_enough [OF demo_cases(1)] in \<open>simp_all add: all_assumptions_def\<close>)
  with run c(6) show ?thesis by auto
qed

definition demo_read :: string where
  "demo_read = ''p cnf 2 2'' @ [NL] @ ''e 1 2 0'' @ [NL] @ ''1 -2 0'' @ [NL] @ ''-1 0'' @ [NL]"

lemma demo_read_text:
  "demo_read = formula_text (started_header demo_env (largest_var [[1, -2]]) (int (length [[1, -2 :: int]])) 1)
    (given_prefix 1 [-1, 2])
    (solver_clauses (started_header demo_env (largest_var [[1, -2]]) (int (length [[1, -2 :: int]])) 1)
      (given_prefix 1 [-1, 2]) [[1, -2]] [-1])"
  by code_simp

theorem quapify_solver_reads_witness:
  "\<exists>s s1 F1 s2 rt. quapi_init demo_env (Some ''solver'') (Some (c_array [])) None
        (largest_var [[1, -2]]) (int (length [[1, -2 :: int]])) 1 None None () = Ret (Some s)
    \<and> session s start_formula
        (map event_call (formula_events [-1, 2] [[1, -2]]) @ loop_calls False (qe_io demo_quapify) 0 (stored [] @ [-1])) s1 F1
    \<and> (\<forall>script. quapi_solve False demo_reply script s1 =
         map_option (\<lambda>res. bind_outcome res finish_solve) (s_run S_POLL (solve_data s2) script))
    \<and> child_runtime (fo_pipe (write_pipe_stream s2)) []
        (since s1 F1 (fo_pipe (solverchild_write_pipe_stream s2))) = Ret rt
    \<and> read_all (runtime_rd False) (replicate 50 3) rt = Some (demo_read, True)"
proof -
  obtain c where c: "parse_cli demo_files (demo_args ''f'') = Ret c" "holds c [[-1]] []" "cfg_intsplits c = []"
    "cfg_input c = Some ''f''" "cfg_solver c = Some ''solver''" "cfg_solver_argv c = []"
    "cfg_strictness c = NORMAL_PARSING" "cfg_selected c = -1" "\<not> cfg_generate_list c" by (rule demo_cli [OF demo_cases(1)])
  from demo_run [OF demo_cases(1) c] obtain out so where run: "quapify_main demo_quapify (demo_args ''f'') = Some (Ret (EXIT_SUCCESS, out, so))" by blast
  have "length demo_read < length (replicate 50 (3 :: nat))" by (simp add: demo_read_def)
  note short = this
  have facts: "parse_cli (qe_files demo_quapify) (demo_args ''f'') = Ret c" "formula_file (qe_files demo_quapify) c [-1, 2] [[1, -2]]"
    "env_environ (qe_init demo_quapify) = env_environ demo_env" "starts (qe_init demo_quapify) 1 None None"
    "quapi_read_msg_from_fd (env_reply (qe_init demo_quapify)) = quapi_read_msg_from_fd (env_reply demo_env)"
    "\<forall>a \<in> set [[-1]]. enough (qe_allow demo_quapify) 1 (demo_described [-1, 2]) a"
    using c(1) demo_formula_file [OF demo_cases(1) c(4,7)] demo_starts demo_enough [OF demo_cases(1)] by simp_all
  have plan: "[[-1 :: int]] = all_assumptions [-1, 2] [[-1]] (cfg_intsplits c)" "1 = int (fold max (map length [[-1 :: int]]) 0)"
    "[[-1 :: int]] = [] @ [-1] # []" "lits_ok [-1]" "clauses_ok [[1, -2]]" "[-1, 2 :: int] \<noteq> [] \<longrightarrow> [[1, -2 :: int]] \<noteq> []"
    "parents []" "length ([] :: fork_outcome list) = length ([] :: int list list)" "\<forall>n \<in> set (replicate 50 (3 :: nat)). 0 < n"
    "started_header demo_env (largest_var [[1, -2]]) (int (length [[1, -2 :: int]])) 1
      = started_header (qe_init demo_quapify) (largest_var [[1, -2]]) (int (length [[1, -2 :: int]])) 1"
    using c(3) by (simp_all add: all_assumptions_def lit_ok_def parents_def)
  from quapify_solver_reads [OF facts(1) c(2,8,9) facts(2) c(5) trans [OF facts(3) demo_environ] trans [OF facts(5) demo_started]
      plan(1,2) facts(4) demo_described_def facts(6) run plan(3-8,10) demo_read_text plan(9) short, of demo_reply False]
  show ?thesis unfolding c(6) demo_quapify_fields(2) using demo_quapify_fields(3) by (simp only:)
qed

section \<open>A list of assumptions\<close>

lemma demo_list_cli:
  "\<exists>c. parse_cli demo_files [''f'', ''-g'', ''-i'', show_int 2] = Ret c \<and> holds c [] [] \<and> cfg_intsplits c = [2]
    \<and> cfg_input c = Some ''f'' \<and> cfg_strictness c = NORMAL_PARSING \<and> cfg_generate_list c"
proof -
  let ?c0 = "start_config\<lparr>cfg_input := Some ''f''\<rparr>"
  let ?c1 = "?c0\<lparr>cfg_generate_list := True\<rparr>"
  have h: "holds ?c1 [] []" by (simp add: holds_def start_config_def)
  from option_words_split [OF _ _ h, of 2 "[]" "[]"] obtain d
    where d: "option_words [''-i'', show_int 2] [] ?c1 = Ret ([], d)" "same_cli ?c1 d" "holds d [] []"
      "cfg_intsplits d = [2]" by (auto simp: start_config_def)
  have "option_words [''-g'', ''-i'', show_int 2] [] ?c0 = option_words [''-i'', show_int 2] [] ?c1"
    by (subst option_words.simps(2)) (simp add: flag_option_def)
  with d demo_file_exists have "parse_cli demo_files [''f'', ''-g'', ''-i'', show_int 2] = finish_cli [] d"
    by (simp add: parse_cli_def)
  also have "\<dots> = Ret (d\<lparr>cfg_solver := None, cfg_solver_argv := []\<rparr>)"
    using d(2,4) by (simp add: finish_cli_def same_cli_def)
  finally show ?thesis using d by (auto simp: same_cli_def start_config_def)
qed

theorem quapify_lists_witness:
  "quapify_main demo_quapify [''f'', ''-g'', ''-i'', show_int 2] = Some (Ret
    (if splits_possible [-1, 2] [2]
     then (EXIT_SUCCESS, concat (map (\<lambda>a. assumption_text a @ [NL]) (all_assumptions [-1, 2] [] [2])), None)
     else (EXIT_FAILURE, [], None)))"
proof -
  obtain c where c: "parse_cli demo_files [''f'', ''-g'', ''-i'', show_int 2] = Ret c" "holds c [] []" "cfg_intsplits c = [2]"
    "cfg_input c = Some ''f''" "cfg_strictness c = NORMAL_PARSING" "cfg_generate_list c"
    using demo_list_cli by blast
  from quapify_lists [of demo_quapify _ c "[]" "[-1, 2]" "[[1, -2]]"] c demo_formula_file [OF demo_cases(1) c(4,5)]
  show ?thesis by simp
qed

section \<open>Deviations\<close>

theorem late_quantifiers_abort_witness:
  "\<exists>g :: unit quapify_globals.
      pr_error (kissat_parse_dimacs NORMAL_PARSING (header_text (demo_header\<lparr>clauses := 2\<rparr>)
        @ concat (map clause_text [[1]]) @ block_text [2] @ concat (map clause_text [[2]]))) = None
    \<and> parser_calls (pr_events (kissat_parse_dimacs NORMAL_PARSING (header_text (demo_header\<lparr>clauses := 2\<rparr>)
        @ concat (map clause_text [[1]]) @ block_text [2] @ concat (map clause_text [[2]])))) g = Assert_Failed"
proof -
  from quapi_init_describes [OF demo_starts demo_range(1,2) demo_range(2) demo_environ demo_started, of "''solver''" "[]" "()"]
  obtain s :: "unit quapi_solver" where s: "describes s start_formula" "sv_state s = QUAPI_INPUT" by blast
  show ?thesis
    by (rule exI [of _ "start_globals\<lparr>q_solver := Some s\<rparr>"], rule late_quantifiers_abort [OF _ _ _ _ _ _ _ _ _ _ refl s])
      (simp_all add: lit_ok_def one_sign_def)
qed

theorem prefix_variables_not_counted_witness:
  "\<exists>c g s s1 F1 s2 rt t.
      run_kissat_parser demo_files (qe_stdin demo_quapify) c (start_globals :: unit quapify_globals) = Ret (True, g)
    \<and> 3 \<in> set (q_quantifiers g) \<and> q_varcount g < \<bar>3\<bar>
    \<and> quapi_init demo_env (Some ''solver'') (Some (c_array [])) None (q_varcount g) (q_clausecount g) 1 None None () = Ret (Some s)
    \<and> session s start_formula
        (map event_call (formula_events [-1, 2, 3] [[1, -2]]) @ loop_calls False (qe_io demo_quapify) 0 (stored [] @ [-1])) s1 F1
    \<and> (\<forall>script. quapi_solve False demo_reply script s1 =
         map_option (\<lambda>res. bind_outcome res finish_solve) (s_run S_POLL (solve_data s2) script))
    \<and> child_runtime (fo_pipe (write_pipe_stream s2)) []
        (since s1 F1 (fo_pipe (solverchild_write_pipe_stream s2))) = Ret rt
    \<and> (\<forall>ns. (\<forall>n \<in> set ns. 0 < n) \<and> length t < length ns \<longrightarrow> read_all (runtime_rd False) ns rt = Some (t, True))
    \<and> pr_error (kissat_parse_dimacs NORMAL_PARSING t) = Some (''maximum variable index exceeded '' @ TRY_RELAXED_PARSING)"
proof -
  obtain c where c: "parse_cli demo_files (demo_args ''g'') = Ret c" "holds c [[-1]] []" "cfg_intsplits c = []"
    "cfg_input c = Some ''g''" "cfg_solver c = Some ''solver''" "cfg_solver_argv c = []"
    "cfg_strictness c = NORMAL_PARSING" "cfg_selected c = -1" "\<not> cfg_generate_list c" by (rule demo_cli [OF demo_cases(2)])
  from demo_run [OF demo_cases(2) c] obtain out so
    where run: "quapify_main demo_quapify (demo_args ''g'') = Some (Ret (EXIT_SUCCESS, out, so))" by blast
  have facts: "parse_cli (qe_files demo_quapify) (demo_args ''g'') = Ret c" "formula_file (qe_files demo_quapify) c [-1, 2, 3] [[1, -2]]"
    "env_environ (qe_init demo_quapify) = env_environ demo_env" "starts (qe_init demo_quapify) 1 None None"
    "quapi_read_msg_from_fd (env_reply (qe_init demo_quapify)) = quapi_read_msg_from_fd (env_reply demo_env)"
    "\<forall>a \<in> set [[-1]]. enough (qe_allow demo_quapify) 1 (demo_described [-1, 2, 3]) a"
    using c(1) demo_formula_file [OF demo_cases(2) c(4,7)] demo_starts demo_enough [OF demo_cases(2)] by simp_all
  have plan: "[[-1 :: int]] = all_assumptions [-1, 2, 3] [[-1]] (cfg_intsplits c)" "1 = int (fold max (map length [[-1 :: int]]) 0)"
    "[[-1 :: int]] = [] @ [-1] # []" "lits_ok [-1]" "clauses_ok [[1, -2]]" "[[1, -2 :: int]] \<noteq> []"
    "parents []" "length ([] :: fork_outcome list) = length ([] :: int list list)" "3 \<in> set [-1, 2, 3 :: int]"
    "\<forall>l \<in> set (concat [[1, -2 :: int]]). \<bar>l\<bar> < \<bar>3\<bar>" "NORMAL_PARSING \<noteq> RELAXED_PARSING"
    using c(3) by (simp_all add: all_assumptions_def lit_ok_def parents_def)
  from prefix_variables_not_counted [OF facts(1) c(2,8,9) facts(2) c(5) trans [OF facts(3) demo_environ] trans [OF facts(5) demo_started]
      plan(1,2) facts(4) demo_described_def facts(6) run plan(3-11), of demo_reply False]
  show ?thesis unfolding c(6) demo_quapify_fields(1,2) using demo_quapify_fields(3) by (intro exI [of _ c]) (simp only:)
qed

section \<open>Timing\<close>

abbreviation demo_reading :: "int \<Rightarrow> timespec" where
  "demo_reading n \<equiv> \<lparr>tv_sec = 1, tv_nsec = n\<rparr>"

theorem timed_run_line_witness:
  "tm_stderr (timed_run False (start_timing [])) = [] \<and> tm_clock (timed_run False (start_timing [])) = []
    \<and> tm_stderr (timed_run True (start_timing (Some (demo_reading 0) # Some (demo_reading 1) # Some (demo_reading 2)
        # Some (demo_reading 4) # Some (demo_reading 8) # []))) =
        ''[QuAPI] [Timing]'' @ concat (map (\<lambda>n. '' '' @ show_int n)
          [nanos (demo_reading 1), nanos (demo_reading 2), nanos (demo_reading 4), nanos (demo_reading 8),
           nanos (demo_reading 2) - nanos (demo_reading 1), nanos (demo_reading 4) - nanos (demo_reading 2),
           nanos (demo_reading 8) - nanos (demo_reading 4)]) @ [NL]"
  by (rule timed_run_line) (simp_all add: reading_ok_def)

end
