(* ===== verification/Quapi_Descriptors.thy ===== *)
theory Quapi_Descriptors
  imports Quapi_Init
begin

text \<open>
  The descriptors of the processes: which process holds which end of which pipe. The calls of
  \<open>pipe\<close>, \<open>close\<close>, \<open>dup2\<close> and \<open>eventfd\<close> of \<open>lib/src/quapi.c\<close> (\<open>setup_eventfd\<close>, both sides of
  \<open>fork_and_exec\<close>, \<open>quapi_init\<close>, \<open>quapi_release\<close>) and of \<open>preload/src/runtime.c\<close>
  (the child's side of \<open>fork_solving_child\<close>) act on a table of descriptors, as POSIX says:
  a new descriptor is the lowest free one, a forked process has a copy of the table, and \<open>exec\<close>
  keeps it. A read of an empty pipe waits as long as some process holds its write end, unless the
  read end was set to \<open>O_NONBLOCK\<close>; \<open>poll\<close> waits in the same case and otherwise reports
  \<open>POLLHUP\<close>.
\<close>

section \<open>Tables of descriptors\<close>

datatype open_file = Read_End nat | Write_End nat | Event_Counter | Other_File nat

type_synonym fd_table = "open_file option list"

definition lookup :: "fd_table \<Rightarrow> nat \<Rightarrow> open_file option" where
  "lookup t fd = (if fd < length t then t ! fd else None)"

fun new_fd :: "open_file \<Rightarrow> fd_table \<Rightarrow> nat \<times> fd_table" where
  "new_fd f [] = (0, [Some f])"
| "new_fd f (None # t) = (0, Some f # t)"
| "new_fd f (Some g # t) = (let (n, t') = new_fd f t in (Suc n, Some g # t'))"

text \<open>Closing a descriptor that is not open only fails.\<close>

definition sys_close :: "nat \<Rightarrow> fd_table \<Rightarrow> fd_table" where
  "sys_close fd t = t[fd := None]"

definition sys_dup2 :: "nat \<Rightarrow> nat \<Rightarrow> fd_table \<Rightarrow> fd_table" where
  "sys_dup2 old new t =
     (case lookup t old of
        None \<Rightarrow> t
      | Some f \<Rightarrow> (t @ replicate (Suc new - length t) None)[new := Some f])"

text \<open>\<open>pipe\<close> for the pipe with the number \<open>k\<close>.\<close>

definition sys_pipe :: "nat \<Rightarrow> fd_table \<Rightarrow> (nat \<times> nat) \<times> fd_table" where
  "sys_pipe k t =
     (let (r, t1) = new_fd (Read_End k) t; (w, t2) = new_fd (Write_End k) t1 in ((r, w), t2))"

text \<open>
  What \<open>read\<close> does when the pipe \<open>k\<close> holds \<open>bs\<close>, the processes have the tables \<open>ts\<close> and the
  open files \<open>nb\<close> have the flag \<open>O_NONBLOCK\<close>, which belongs to the open file and so is the same for
  every descriptor of it. \<open>Read_Again\<close> is the error \<open>EAGAIN\<close>.
\<close>

datatype read_result = Read_Data | Read_Eof | Read_Blocks | Read_Again

definition holds_file :: "open_file \<Rightarrow> fd_table \<Rightarrow> bool" where
  "holds_file f t \<longleftrightarrow> Some f \<in> set t"

definition pipe_read :: "open_file list \<Rightarrow> nat \<Rightarrow> byte list \<Rightarrow> fd_table list \<Rightarrow> read_result" where
  "pipe_read nb k bs ts =
     (if bs \<noteq> [] then Read_Data
      else if list_ex (holds_file (Write_End k)) ts then
        (if Read_End k \<in> set nb then Read_Again else Read_Blocks)
      else Read_Eof)"

text \<open>\<open>fcntl (fd, F_SETFL, \<dots> | O_NONBLOCK)\<close>; it fails for a descriptor that is not open.\<close>

definition sys_set_nonblock :: "nat \<Rightarrow> fd_table \<Rightarrow> open_file list \<Rightarrow> open_file list" where
  "sys_set_nonblock fd t nb = (case lookup t fd of None \<Rightarrow> nb | Some f \<Rightarrow> f # nb)"

text \<open>
  What \<open>poll\<close> reports for the read end of the pipe \<open>k\<close>, which is empty: nothing, so that it waits,
  as long as some process can write it, and then the end of the pipe.
\<close>

definition poll_empty_pipe :: "nat \<Rightarrow> fd_table list \<Rightarrow> poll_result option" where
  "poll_empty_pipe k ts =
     (if list_ex (holds_file (Write_End k)) ts then None else Some (Poll_Hang_Up [] [] 0))"

lemma new_fd_lookup:
  "new_fd f t = (n, t') \<Longrightarrow> lookup t n = None \<and> lookup t' = (lookup t)(n \<mapsto> f)"
proof (induction f t arbitrary: n t' rule: new_fd.induct)
  case (1 f)
  then show ?case by (auto simp: lookup_def)
next
  case (2 f t)
  then show ?case by (auto simp: lookup_def fun_eq_iff nth_Cons split: nat.split)
next
  case (3 f g t)
  obtain m u where m: "new_fd f t = (m, u)" by fastforce
  from "3.IH" [OF m] "3.prems" m have l: "lookup t m = None" "lookup u = (lookup t)(m \<mapsto> f)" "n = Suc m" "t' = Some g # u"
    by auto
  have "lookup (Some g # v) i = (case i of 0 \<Rightarrow> Some g | Suc j \<Rightarrow> lookup v j)" for v i
    by (simp add: lookup_def nth_Cons split: nat.split)
  with l show ?case by (auto simp: fun_eq_iff split: nat.split)
qed

lemma sys_pipe_lookup:
  assumes "sys_pipe k t = ((r, w), t')"
  shows "r \<noteq> w" "lookup t r = None" "lookup t w = None"
    "lookup t' = (lookup t)(r \<mapsto> Read_End k, w \<mapsto> Write_End k)"
proof -
  from assms obtain t1 where t1: "new_fd (Read_End k) t = (r, t1)" "new_fd (Write_End k) t1 = (w, t')"
    by (auto simp: sys_pipe_def Let_def split: prod.splits)
  from new_fd_lookup [OF t1(1)] new_fd_lookup [OF t1(2)]
  show "r \<noteq> w" "lookup t r = None" "lookup t w = None"
    "lookup t' = (lookup t)(r \<mapsto> Read_End k, w \<mapsto> Write_End k)"
    by (auto split: if_splits)
qed

lemma lookup_close [simp]: "lookup (sys_close fd t) = (lookup t)(fd := None)"
  by (auto simp: lookup_def sys_close_def fun_eq_iff nth_list_update)

lemma lookup_dup2:
  "lookup t old = Some f \<Longrightarrow> lookup (sys_dup2 old new t) = (lookup t)(new \<mapsto> f)"
  by (auto simp: lookup_def sys_dup2_def fun_eq_iff nth_list_update nth_append)

lemma holds_file_lookup: "holds_file f t \<longleftrightarrow> (\<exists>fd. lookup t fd = Some f)"
  by (auto simp: holds_file_def lookup_def in_set_conv_nth)

lemma finite_lookup [simp]: "finite (dom (lookup t))"
  by (rule finite_subset [of _ "{..<length t}"]) (auto simp: lookup_def split: if_splits)

section \<open>Starting the solver\<close>

text \<open>\<open>STDIN_FILENO\<close> and \<open>STDOUT_FILENO\<close>.\<close>

definition stdin_fd :: nat where "stdin_fd = 0"
definition stdout_fd :: nat where "stdout_fd = 1"

lemma standard_fds [simp]: "stdin_fd \<noteq> stdout_fd" "stdout_fd \<noteq> stdin_fd"
  by (simp_all add: stdin_fd_def stdout_fd_def)

record solver_fds =
  sf_read_pipe :: "nat \<times> nat"
  sf_write_pipe :: "nat \<times> nat"
  sf_child_read_pipe :: "nat \<times> nat"
  sf_child_write_pipe :: "nat \<times> nat"
  sf_message_pipe :: "nat \<times> nat"

text \<open>The pipes from number \<open>k\<close> on, in the order they are made.\<close>

definition open_pipes :: "nat \<Rightarrow> fd_table \<Rightarrow> solver_fds \<times> fd_table" where
  "open_pipes k t =
     (let (p0, t0) = sys_pipe k t;
          (p1, t1) = sys_pipe (k + 1) t0;
          (p2, t2) = sys_pipe (k + 2) t1;
          (p3, t3) = sys_pipe (k + 3) t2;
          (p4, t4) = sys_pipe (k + 4) t3
      in (\<lparr>sf_read_pipe = p0, sf_write_pipe = p1, sf_child_read_pipe = p2, sf_child_write_pipe = p3,
           sf_message_pipe = p4\<rparr>, t4))"

abbreviation CHILD_READ :: "solver_fds \<Rightarrow> nat" where "CHILD_READ d \<equiv> fst (sf_read_pipe d)"
abbreviation PARENT_WRITE :: "solver_fds \<Rightarrow> nat" where "PARENT_WRITE d \<equiv> snd (sf_read_pipe d)"
abbreviation PARENT_READ :: "solver_fds \<Rightarrow> nat" where "PARENT_READ d \<equiv> fst (sf_write_pipe d)"
abbreviation CHILD_WRITE :: "solver_fds \<Rightarrow> nat" where "CHILD_WRITE d \<equiv> snd (sf_write_pipe d)"

text \<open>
  The library's end of the output of the solving children does not block; the table is the one
  before the fork, and the library itself keeps the end.
\<close>

definition fcntl_output :: "solver_fds \<Rightarrow> fd_table \<Rightarrow> open_file list" where
  "fcntl_output d t = sys_set_nonblock (fst (sf_child_write_pipe d)) t []"

definition fork_and_exec_parent :: "solver_fds \<Rightarrow> fd_table \<Rightarrow> fd_table" where
  "fork_and_exec_parent d t =
     sys_close (snd (sf_child_write_pipe d)) (sys_close (fst (sf_child_read_pipe d))
       (sys_close (CHILD_WRITE d) (sys_close (CHILD_READ d) t)))"

text \<open>
  The child's side: the program it executes, its arguments and environment, and its
  table; \<open>exec_ok\<close> is whether \<open>execvpe\<close> finds the program.
\<close>

definition fork_and_exec_child ::
    "bool \<Rightarrow> quapi_config \<Rightarrow> solver_fds \<Rightarrow> fd_table \<Rightarrow>
     ((string \<times> string option list \<times> string option list) \<times> fd_table) outcome" where
  "fork_and_exec_child exec_ok c d t =
     (let t1 = sys_close (fst (sf_child_write_pipe d)) (sys_close (snd (sf_child_read_pipe d))
                 (sys_close (PARENT_WRITE d) (sys_close (PARENT_READ d) t)));
          t2 = sys_dup2 (CHILD_WRITE d) stdout_fd (sys_dup2 (CHILD_READ d) stdin_fd t1);
          t3 = sys_close (CHILD_WRITE d) (sys_close (CHILD_READ d) t2)
      in if exec_ok then Ret ((executable_path c, executable_argv c, executable_envp c), t3)
         else Exited (-1))"

text \<open>The numbers of the last three pipes, which the header tells the solver.\<close>

definition header_pipes :: "solver_fds \<Rightarrow> int list" where
  "header_pipes d = map int [fst (sf_child_read_pipe d), snd (sf_child_read_pipe d),
     fst (sf_child_write_pipe d), snd (sf_child_write_pipe d), fst (sf_message_pipe d), snd (sf_message_pipe d)]"

text \<open>\<open>setup_eventfd\<close>; \<open>None\<close> is a failure.\<close>

definition setup_eventfd :: "bool \<Rightarrow> fd_table \<Rightarrow> (nat \<times> fd_table) option" where
  "setup_eventfd ok t = (if ok then Some (new_fd Event_Counter t) else None)"

text \<open>
  The descriptors \<open>quapi_release\<close> closes: those of the two streams, if they were opened, and
  the eventfd.
\<close>

definition release_descriptors :: "solver_fds option \<Rightarrow> nat \<Rightarrow> fd_table \<Rightarrow> fd_table" where
  "release_descriptors streams eventfd t =
     sys_close eventfd
       (case streams of
          None \<Rightarrow> t
        | Some d \<Rightarrow> sys_close (snd (sf_child_read_pipe d)) (sys_close (PARENT_WRITE d) t))"

text \<open>
  The library's descriptors during the second half of \<open>quapi_init\<close>: what a solver that started
  holds, or \<open>None\<close> after the \<open>ERROR\<close> exit, which releases. \<open>junk\<close> is the value of the field
  \<open>fd\<close> of the eventfd in fresh memory.
\<close>

definition start_descriptors ::
    "init_env \<Rightarrow> nat \<Rightarrow> nat \<Rightarrow> fd_table \<Rightarrow> (solver_fds \<times> nat) option \<times> fd_table" where
  "start_descriptors e junk k t =
     (case setup_eventfd (env_eventfd_ok e) t of
        None \<Rightarrow> (None, release_descriptors None junk t)
      | Some (eventfd, t1) \<Rightarrow>
          (let (d, t2) = open_pipes k t1 in
           if \<not> env_fcntl_ok e \<or> env_fork e \<le> 0 then (None, release_descriptors None eventfd t2)
           else
             (let t3 = fork_and_exec_parent d t2 in
              case quapi_read_msg_from_fd (env_reply e) of
                Ret (Some (Some (MStarted v)), rest) \<Rightarrow> (Some (d, eventfd), t3)
              | _ \<Rightarrow> (None, release_descriptors (Some d) eventfd t3))))"

text \<open>
  The child's side of \<open>fork_solving_child\<close>, with the numbers of the header. The last
  \<open>close\<close> names the pipe of the assumptions again, not the one of the output.
\<close>

definition solving_child_fds :: "quapi_msg_header_data \<Rightarrow> fd_table \<Rightarrow> fd_table" where
  "solving_child_fds h t =
     (let t1 = sys_close stdout_fd (sys_close stdin_fd t);
          t2 = sys_close (nat (forked_child_read_pipe_r h))
                 (sys_dup2 (nat (forked_child_read_pipe_r h)) stdin_fd t1)
      in sys_close (nat (forked_child_read_pipe_w h))
           (sys_dup2 (nat (forked_child_write_pipe_w h)) stdout_fd t2))"

section \<open>Who holds which end\<close>

definition all_fds :: "solver_fds \<Rightarrow> nat list" where
  "all_fds d = [fst (sf_read_pipe d), snd (sf_read_pipe d), fst (sf_write_pipe d), snd (sf_write_pipe d),
     fst (sf_child_read_pipe d), snd (sf_child_read_pipe d), fst (sf_child_write_pipe d), snd (sf_child_write_pipe d),
     fst (sf_message_pipe d), snd (sf_message_pipe d)]"

definition pipe_ends :: "nat \<Rightarrow> open_file list" where
  "pipe_ends k = concat (map (\<lambda>p. [Read_End p, Write_End p]) [k, k + 1, k + 2, k + 3, k + 4])"

text \<open>The ten descriptors are new, different, and the ends of the five pipes.\<close>

lemma open_pipes_lookup:
  assumes "open_pipes k t = (d, t')"
  shows "distinct (all_fds d)" "\<forall>fd \<in> set (all_fds d). lookup t fd = None"
    "lookup t' = (lookup t)(all_fds d [\<mapsto>] pipe_ends k)"
proof -
  obtain r0 w0 t0 r1 w1 t1 r2 w2 t2 r3 w3 t3 r4 w4 t4 where
    p: "sys_pipe k t = ((r0, w0), t0)" "sys_pipe (k + 1) t0 = ((r1, w1), t1)" "sys_pipe (k + 2) t1 = ((r2, w2), t2)"
      "sys_pipe (k + 3) t2 = ((r3, w3), t3)" "sys_pipe (k + 4) t3 = ((r4, w4), t4)"
    by (metis surj_pair)
  then have d: "all_fds d = [r0, w0, r1, w1, r2, w2, r3, w3, r4, w4]" "t' = t4"
    using assms by (auto simp: open_pipes_def all_fds_def)
  note l = p [THEN sys_pipe_lookup(1)] p [THEN sys_pipe_lookup(2)] p [THEN sys_pipe_lookup(3)]
    p [THEN sys_pipe_lookup(4)]
  show "lookup t' = (lookup t)(all_fds d [\<mapsto>] pipe_ends k)"
    unfolding d by (simp add: pipe_ends_def l(16-20))
  show "distinct (all_fds d)" "\<forall>fd \<in> set (all_fds d). lookup t fd = None"
    unfolding d using l(1-15) by (auto simp: l(16-20) split: if_splits)
qed

text \<open>No process has ends of the pipes yet.\<close>

definition unused :: "nat \<Rightarrow> fd_table \<Rightarrow> bool" where
  "unused k t \<longleftrightarrow> (\<forall>f \<in> set (pipe_ends k). \<not> holds_file f t)"

text \<open>A client with its standard input and output opens the pipes.\<close>

definition pipes_opened :: "nat \<Rightarrow> fd_table \<Rightarrow> solver_fds \<Rightarrow> fd_table \<Rightarrow> bool" where
  "pipes_opened k t d t1 \<longleftrightarrow> open_pipes k t = (d, t1) \<and> unused k t
     \<and> lookup t stdin_fd \<noteq> None \<and> lookup t stdout_fd \<noteq> None"

lemma pipes_opened_fds:
  assumes "pipes_opened k t d t1"
  obtains r0 w0 r1 w1 r2 w2 r3 w3 r4 w4 where
    "d = \<lparr>sf_read_pipe = (r0, w0), sf_write_pipe = (r1, w1), sf_child_read_pipe = (r2, w2),
       sf_child_write_pipe = (r3, w3), sf_message_pipe = (r4, w4)\<rparr>"
    "distinct [stdin_fd, stdout_fd, r0, w0, r1, w1, r2, w2, r3, w3, r4, w4]"
    "\<forall>fd \<in> set [r0, w0, r1, w1, r2, w2, r3, w3, r4, w4]. lookup t fd = None"
    "lookup t1 = (lookup t)(r0 \<mapsto> Read_End k, w0 \<mapsto> Write_End k, r1 \<mapsto> Read_End (k + 1), w1 \<mapsto> Write_End (k + 1),
       r2 \<mapsto> Read_End (k + 2), w2 \<mapsto> Write_End (k + 2), r3 \<mapsto> Read_End (k + 3), w3 \<mapsto> Write_End (k + 3),
       r4 \<mapsto> Read_End (k + 4), w4 \<mapsto> Write_End (k + 4))"
    "\<forall>fd p. k \<le> p \<and> p < k + 5 \<longrightarrow> lookup t fd \<noteq> Some (Read_End p) \<and> lookup t fd \<noteq> Some (Write_End p)"
proof -
  obtain r0 w0 r1 w1 r2 w2 r3 w3 r4 w4 where d: "d = \<lparr>sf_read_pipe = (r0, w0), sf_write_pipe = (r1, w1),
       sf_child_read_pipe = (r2, w2), sf_child_write_pipe = (r3, w3), sf_message_pipe = (r4, w4)\<rparr>"
    by (cases d) auto
  have o: "open_pipes k t = (d, t1)" using assms by (simp add: pipes_opened_def)
  note l = open_pipes_lookup [OF o]
  have std: "stdin_fd \<notin> set (all_fds d)" "stdout_fd \<notin> set (all_fds d)" using l(2) assms by (auto simp: pipes_opened_def)
  have "\<forall>fd. \<forall>f \<in> set (pipe_ends k). lookup t fd \<noteq> Some f"
    using assms by (auto simp: pipes_opened_def unused_def holds_file_lookup)
  moreover have "k \<le> p \<and> p < k + 5 \<Longrightarrow> Read_End p \<in> set (pipe_ends k) \<and> Write_End p \<in> set (pipe_ends k)" for p
    by (auto simp: pipe_ends_def)
  ultimately have "\<forall>fd p. k \<le> p \<and> p < k + 5 \<longrightarrow> lookup t fd \<noteq> Some (Read_End p) \<and> lookup t fd \<noteq> Some (Write_End p)"
    by blast
  moreover have fds: "all_fds d = [r0, w0, r1, w1, r2, w2, r3, w3, r4, w4]" by (simp add: all_fds_def d)
  have "distinct (stdin_fd # stdout_fd # all_fds d)" using l(1) std by simp
  moreover have "lookup t1 = (lookup t)(r0 \<mapsto> Read_End k, w0 \<mapsto> Write_End k, r1 \<mapsto> Read_End (k + 1), w1 \<mapsto> Write_End (k + 1),
       r2 \<mapsto> Read_End (k + 2), w2 \<mapsto> Write_End (k + 2), r3 \<mapsto> Read_End (k + 3), w3 \<mapsto> Write_End (k + 3),
       r4 \<mapsto> Read_End (k + 4), w4 \<mapsto> Write_End (k + 4))"
    using l(3) by (simp add: fds pipe_ends_def)
  ultimately show ?thesis using l(2) that [OF d] unfolding fds by blast
qed

text \<open>Both tables after the fork, and the one of a solving child.\<close>

lemma parent_lookup:
  "lookup (fork_and_exec_parent d t) = (lookup t)(CHILD_READ d := None, CHILD_WRITE d := None,
     fst (sf_child_read_pipe d) := None, snd (sf_child_write_pipe d) := None)"
  by (simp add: fork_and_exec_parent_def)

lemma child_lookup:
  assumes "pipes_opened k t d t1" "fork_and_exec_child True c d t1 = Ret (prog, tc)"
  shows "prog = (executable_path c, executable_argv c, executable_envp c)
    \<and> lookup tc = (lookup t1)(PARENT_READ d := None, PARENT_WRITE d := None, snd (sf_child_read_pipe d) := None,
       fst (sf_child_write_pipe d) := None, stdin_fd \<mapsto> Read_End k, stdout_fd \<mapsto> Write_End (k + 1),
       CHILD_READ d := None, CHILD_WRITE d := None)"
proof -
  obtain r0 w0 r1 w1 r2 w2 r3 w3 r4 w4 where d: "d = \<lparr>sf_read_pipe = (r0, w0), sf_write_pipe = (r1, w1),
       sf_child_read_pipe = (r2, w2), sf_child_write_pipe = (r3, w3), sf_message_pipe = (r4, w4)\<rparr>"
    and dist: "distinct [stdin_fd, stdout_fd, r0, w0, r1, w1, r2, w2, r3, w3, r4, w4]"
    and l: "lookup t1 = (lookup t)(r0 \<mapsto> Read_End k, w0 \<mapsto> Write_End k, r1 \<mapsto> Read_End (k + 1), w1 \<mapsto> Write_End (k + 1),
       r2 \<mapsto> Read_End (k + 2), w2 \<mapsto> Write_End (k + 2), r3 \<mapsto> Read_End (k + 3), w3 \<mapsto> Write_End (k + 3),
       r4 \<mapsto> Read_End (k + 4), w4 \<mapsto> Write_End (k + 4))"
    using assms(1) by (rule pipes_opened_fds)
  let ?t = "sys_close r3 (sys_close w2 (sys_close w0 (sys_close r1 t1)))"
  have "lookup ?t r0 = Some (Read_End k)" using dist by (auto simp: l)
  note d0 = lookup_dup2 [OF this, of stdin_fd]
  have "lookup (sys_dup2 r0 stdin_fd ?t) w1 = Some (Write_End (k + 1))" unfolding d0 using dist by (auto simp: l)
  from lookup_dup2 [OF this, of stdout_fd] show ?thesis
    using assms(2) by (auto simp: fork_and_exec_child_def Let_def d d0)
qed

lemma solving_child_lookup:
  assumes "nat (forked_child_read_pipe_r h) = r" "nat (forked_child_read_pipe_w h) = r'" "nat (forked_child_write_pipe_w h) = w"
    and "lookup t r = Some f" "lookup t w = Some g" and "distinct [stdin_fd, stdout_fd, r, r', w]"
  shows "lookup (solving_child_fds h t) = (lookup t)(stdin_fd \<mapsto> f, r := None, stdout_fd \<mapsto> g, r' := None)"
proof -
  let ?t = "sys_close stdout_fd (sys_close stdin_fd t)"
  have "lookup ?t r = Some f" using assms by auto
  note d0 = lookup_dup2 [OF this, of stdin_fd]
  have "lookup (sys_close r (sys_dup2 r stdin_fd ?t)) w = Some g" using assms by (auto simp: d0)
  from lookup_dup2 [OF this, of stdout_fd] show ?thesis
    using assms(6) by (auto simp: solving_child_fds_def Let_def d0 assms(1-3) fun_eq_iff)
qed

lemma pipe_read_empty:
  "pipe_read nb k [] ts = (if \<exists>t \<in> set ts. \<exists>fd. lookup t fd = Some (Write_End k)
     then (if Read_End k \<in> set nb then Read_Again else Read_Blocks) else Read_Eof)"
  by (auto simp: pipe_read_def list_ex_iff holds_file_lookup)

lemma fcntl_output:
  assumes "pipes_opened k t d t1"
  shows "fcntl_output d t1 = [Read_End (k + 3)]"
proof -
  obtain r0 w0 r1 w1 r2 w2 r3 w3 r4 w4 where d: "d = \<lparr>sf_read_pipe = (r0, w0), sf_write_pipe = (r1, w1),
       sf_child_read_pipe = (r2, w2), sf_child_write_pipe = (r3, w3), sf_message_pipe = (r4, w4)\<rparr>"
    and dist: "distinct [stdin_fd, stdout_fd, r0, w0, r1, w1, r2, w2, r3, w3, r4, w4]"
    and l: "lookup t1 = (lookup t)(r0 \<mapsto> Read_End k, w0 \<mapsto> Write_End k, r1 \<mapsto> Read_End (k + 1), w1 \<mapsto> Write_End (k + 1),
       r2 \<mapsto> Read_End (k + 2), w2 \<mapsto> Write_End (k + 2), r3 \<mapsto> Read_End (k + 3), w3 \<mapsto> Write_End (k + 3),
       r4 \<mapsto> Read_End (k + 4), w4 \<mapsto> Write_End (k + 4))"
    using assms by (rule pipes_opened_fds)
  show ?thesis using dist by (simp add: fcntl_output_def sys_set_nonblock_def d l)
qed

text \<open>The numbers in the header of a library that made the pipes.\<close>

lemma header_descriptors:
  assumes "env_pipes e = header_pipes d" "h = sv_header (snd (fork_and_exec e s))"
  shows "nat (forked_child_read_pipe_r h) = fst (sf_child_read_pipe d)" "nat (forked_child_read_pipe_w h) = snd (sf_child_read_pipe d)"
    "nat (forked_child_write_pipe_r h) = fst (sf_child_write_pipe d)" "nat (forked_child_write_pipe_w h) = snd (sf_child_write_pipe d)"
    "nat (message_to_parent_pipe_r h) = fst (sf_message_pipe d)" "nat (message_to_parent_pipe_w h) = snd (sf_message_pipe d)"
  using assms by (auto simp: fork_and_exec_def header_pipes_def Let_def)

text \<open>Everything about the tables after a start, for the theorems that follow.\<close>

lemma started_tables:
  assumes "pipes_opened k t d t1" and "fork_and_exec_child True c d t1 = Ret (prog, tc)"
    and "tp = fork_and_exec_parent d t1"
  shows "distinct (stdin_fd # stdout_fd # all_fds d)" "distinct (rev (stdin_fd # stdout_fd # all_fds d))"
    "\<forall>fd \<in> set (all_fds d). lookup t fd = None"
    "\<And>fd p. k \<le> p \<Longrightarrow> p < k + 5 \<Longrightarrow> lookup t fd \<noteq> Some (Read_End p) \<and> lookup t fd \<noteq> Some (Write_End p)"
    "lookup tp = (lookup t)(PARENT_WRITE d \<mapsto> Write_End k, PARENT_READ d \<mapsto> Read_End (k + 1),
       snd (sf_child_read_pipe d) \<mapsto> Write_End (k + 2), fst (sf_child_write_pipe d) \<mapsto> Read_End (k + 3),
       fst (sf_message_pipe d) \<mapsto> Read_End (k + 4), snd (sf_message_pipe d) \<mapsto> Write_End (k + 4))"
    "lookup tc = (lookup t)(fst (sf_child_read_pipe d) \<mapsto> Read_End (k + 2), snd (sf_child_write_pipe d) \<mapsto> Write_End (k + 3),
       fst (sf_message_pipe d) \<mapsto> Read_End (k + 4), snd (sf_message_pipe d) \<mapsto> Write_End (k + 4),
       stdin_fd \<mapsto> Read_End k, stdout_fd \<mapsto> Write_End (k + 1))"
proof -
  obtain r0 w0 r1 w1 r2 w2 r3 w3 r4 w4 where d: "d = \<lparr>sf_read_pipe = (r0, w0), sf_write_pipe = (r1, w1),
       sf_child_read_pipe = (r2, w2), sf_child_write_pipe = (r3, w3), sf_message_pipe = (r4, w4)\<rparr>"
    and dist: "distinct [stdin_fd, stdout_fd, r0, w0, r1, w1, r2, w2, r3, w3, r4, w4]"
    and free: "\<forall>fd \<in> set [r0, w0, r1, w1, r2, w2, r3, w3, r4, w4]. lookup t fd = None"
    and l: "lookup t1 = (lookup t)(r0 \<mapsto> Read_End k, w0 \<mapsto> Write_End k, r1 \<mapsto> Read_End (k + 1), w1 \<mapsto> Write_End (k + 1),
       r2 \<mapsto> Read_End (k + 2), w2 \<mapsto> Write_End (k + 2), r3 \<mapsto> Read_End (k + 3), w3 \<mapsto> Write_End (k + 3),
       r4 \<mapsto> Read_End (k + 4), w4 \<mapsto> Write_End (k + 4))"
    and unused: "\<forall>fd p. k \<le> p \<and> p < k + 5 \<longrightarrow> lookup t fd \<noteq> Some (Read_End p) \<and> lookup t fd \<noteq> Some (Write_End p)"
    using assms(1) by (rule pipes_opened_fds)
  have dist': "distinct [w4, r4, w3, r3, w2, r2, w1, r1, w0, r0, stdout_fd, stdin_fd]" using dist by auto
  note ne = dist [simplified] this [simplified]
  from child_lookup [OF assms(1,2)]
  have "lookup tc = (lookup t1)(r1 := None, w0 := None, w2 := None, r3 := None, stdin_fd \<mapsto> Read_End k,
      stdout_fd \<mapsto> Write_End (k + 1), r0 := None, w1 := None)" by (simp add: d)
  then have "lookup tc = (lookup t)(r2 \<mapsto> Read_End (k + 2), w3 \<mapsto> Write_End (k + 3), r4 \<mapsto> Read_End (k + 4),
       w4 \<mapsto> Write_End (k + 4), stdin_fd \<mapsto> Read_End k, stdout_fd \<mapsto> Write_End (k + 1))"
    using free by (intro ext) (simp add: l ne)
  moreover have "lookup tp = (lookup t)(w0 \<mapsto> Write_End k, r1 \<mapsto> Read_End (k + 1), w2 \<mapsto> Write_End (k + 2),
       r3 \<mapsto> Read_End (k + 3), r4 \<mapsto> Read_End (k + 4), w4 \<mapsto> Write_End (k + 4))"
    using free by (intro ext) (simp add: assms(3) parent_lookup d l ne)
  ultimately show "distinct (stdin_fd # stdout_fd # all_fds d)" "distinct (rev (stdin_fd # stdout_fd # all_fds d))"
    "\<forall>fd \<in> set (all_fds d). lookup t fd = None"
    "\<And>fd p. k \<le> p \<Longrightarrow> p < k + 5 \<Longrightarrow> lookup t fd \<noteq> Some (Read_End p) \<and> lookup t fd \<noteq> Some (Write_End p)"
    "lookup tp = (lookup t)(PARENT_WRITE d \<mapsto> Write_End k, PARENT_READ d \<mapsto> Read_End (k + 1),
       snd (sf_child_read_pipe d) \<mapsto> Write_End (k + 2), fst (sf_child_write_pipe d) \<mapsto> Read_End (k + 3),
       fst (sf_message_pipe d) \<mapsto> Read_End (k + 4), snd (sf_message_pipe d) \<mapsto> Write_End (k + 4))"
    "lookup tc = (lookup t)(fst (sf_child_read_pipe d) \<mapsto> Read_End (k + 2), snd (sf_child_write_pipe d) \<mapsto> Write_End (k + 3),
       fst (sf_message_pipe d) \<mapsto> Read_End (k + 4), snd (sf_message_pipe d) \<mapsto> Write_End (k + 4),
       stdin_fd \<mapsto> Read_End k, stdout_fd \<mapsto> Write_End (k + 1))"
    using dist dist' free unused by (simp_all add: d all_fds_def)
qed

text \<open>
  C13. The pipes of the solver. For a client that has its standard input and output open, with
  whatever other descriptors, the solver is executed with the read end of the library's first pipe as
  its standard input, the numbers in the header name the right ends in its process and in the
  library's, and the client's own descriptors stay as they were. A read of the standard input waits
  as long as the library can write, and finds the end of file once the library has closed its stream.
\<close>

theorem solver_process_wired:
  assumes "pipes_opened k t d t1" and "fork_and_exec_child True c d t1 = Ret (prog, tc)"
    and "tp = fork_and_exec_parent d t1"
    and "env_pipes e = header_pipes d" and "h = sv_header (snd (fork_and_exec e s))"
  shows "prog = (executable_path c, executable_argv c, executable_envp c)
    \<and> lookup tc stdin_fd = Some (Read_End k) \<and> lookup tc stdout_fd = Some (Write_End (k + 1))
    \<and> lookup tc (nat (forked_child_read_pipe_r h)) = Some (Read_End (k + 2))
    \<and> lookup tc (nat (forked_child_write_pipe_w h)) = Some (Write_End (k + 3))
    \<and> lookup tc (nat (message_to_parent_pipe_w h)) = Some (Write_End (k + 4))
    \<and> lookup tp (PARENT_WRITE d) = Some (Write_End k)
    \<and> lookup tp (nat (forked_child_read_pipe_w h)) = Some (Write_End (k + 2))
    \<and> lookup tp (nat (forked_child_write_pipe_r h)) = Some (Read_End (k + 3))
    \<and> lookup tp (nat (message_to_parent_pipe_r h)) = Some (Read_End (k + 4))
    \<and> (\<forall>fd. lookup t fd \<noteq> None \<longrightarrow> lookup tp fd = lookup t fd)
    \<and> pipe_read (fcntl_output d t1) k [] [tp, tc] = Read_Blocks
    \<and> pipe_read (fcntl_output d t1) k [] [sys_close (PARENT_WRITE d) tp, tc] = Read_Eof"
proof -
  note tables = started_tables [OF assms(1-3)]
  note unused = tables(4) and tp = tables(5) and tc = tables(6)
  note ne = tables(1,2) [unfolded all_fds_def, simplified]
  note h = header_descriptors [OF assms(4,5)]
  have none: "lookup t fd \<noteq> Some (Write_End k)" for fd using unused [of k fd] by simp
  have "lookup (sys_close (PARENT_WRITE d) tp) fd \<noteq> Some (Write_End k)" "lookup tc fd \<noteq> Some (Write_End k)" for fd
    using none [of fd] by (simp_all add: tp tc)
  moreover have tw: "lookup tp (PARENT_WRITE d) = Some (Write_End k)" by (simp add: tp ne)
  ultimately have "pipe_read (fcntl_output d t1) k [] [tp, tc] = Read_Blocks"
    "pipe_read (fcntl_output d t1) k [] [sys_close (PARENT_WRITE d) tp, tc] = Read_Eof"
    by (auto simp: pipe_read_empty fcntl_output [OF assms(1)])
  moreover have "\<forall>fd. lookup t fd \<noteq> None \<longrightarrow> lookup tp fd = lookup t fd"
    using tables(3) by (auto simp: tp all_fds_def)
  moreover have "prog = (executable_path c, executable_argv c, executable_envp c)"
    using child_lookup [OF assms(1,2)] by simp
  ultimately show ?thesis using tw unfolding h by (simp add: tp tc ne)
qed

text \<open>
  C28. The pipes of a solving child. The child that the runtime forks reads the pipe of the
  assumptions as its standard input and writes the pipe of the output as its standard output, and no
  longer holds the first pipe. Its input waits as long as the library can write assumptions and ends when
  the library closes the stream. The descriptor of the output stays open a second time: the last
  \<open>close\<close> names another one.
\<close>

theorem solving_child_wired:
  assumes "pipes_opened k t d t1" and "fork_and_exec_child True c d t1 = Ret (prog, tc)"
    and "tp = fork_and_exec_parent d t1"
    and "env_pipes e = header_pipes d" and "h = sv_header (snd (fork_and_exec e s))"
    and "ts = solving_child_fds h tc"
  shows "lookup ts stdin_fd = Some (Read_End (k + 2)) \<and> lookup ts stdout_fd = Some (Write_End (k + 3))
    \<and> lookup ts (nat (message_to_parent_pipe_w h)) = Some (Write_End (k + 4)) \<and> \<not> holds_file (Read_End k) ts
    \<and> pipe_read (fcntl_output d t1) (k + 2) [] [tp, tc, ts] = Read_Blocks
    \<and> pipe_read (fcntl_output d t1) (k + 2) [] [sys_close (nat (forked_child_read_pipe_w h)) tp, tc, ts] = Read_Eof
    \<and> lookup ts (nat (forked_child_write_pipe_w h)) = Some (Write_End (k + 3))"
proof -
  note tables = started_tables [OF assms(1-3)]
  note unused = tables(4) and tp = tables(5) and tc = tables(6)
  note ne = tables(1,2) [unfolded all_fds_def, simplified]
  note h = header_descriptors [OF assms(4,5)]
  have "lookup tc (fst (sf_child_read_pipe d)) = Some (Read_End (k + 2))"
    "lookup tc (snd (sf_child_write_pipe d)) = Some (Write_End (k + 3))" by (simp_all add: tc ne)
  note sl = solving_child_lookup [OF _ _ _ this, of h "snd (sf_child_read_pipe d)"]
  have "lookup ts = (lookup tc)(stdin_fd \<mapsto> Read_End (k + 2), fst (sf_child_read_pipe d) := None,
      stdout_fd \<mapsto> Write_End (k + 3), snd (sf_child_read_pipe d) := None)"
    unfolding assms(6) by (rule sl) (simp_all add: h ne)
  then have ts: "lookup ts = (lookup t)(snd (sf_child_write_pipe d) \<mapsto> Write_End (k + 3),
      fst (sf_message_pipe d) \<mapsto> Read_End (k + 4), snd (sf_message_pipe d) \<mapsto> Write_End (k + 4),
      stdin_fd \<mapsto> Read_End (k + 2), stdout_fd \<mapsto> Write_End (k + 3))"
    using tables(3) by (intro ext) (simp add: tc ne all_fds_def)
  have none: "lookup t fd \<noteq> Some (Write_End (k + 2)) \<and> lookup t fd \<noteq> Some (Read_End k)" for fd
    using unused [of "k + 2" fd] unused [of k fd] by simp
  have "lookup (sys_close (snd (sf_child_read_pipe d)) tp) fd \<noteq> Some (Write_End (k + 2))" "lookup tc fd \<noteq> Some (Write_End (k + 2))"
    "lookup ts fd \<noteq> Some (Write_End (k + 2))" "lookup ts fd \<noteq> Some (Read_End k)" for fd
    using none [of fd] by (simp_all add: tp tc ts)
  moreover have "lookup tp (snd (sf_child_read_pipe d)) = Some (Write_End (k + 2))" by (simp add: tp ne)
  ultimately have "pipe_read (fcntl_output d t1) (k + 2) [] [tp, tc, ts] = Read_Blocks"
    "pipe_read (fcntl_output d t1) (k + 2) [] [sys_close (snd (sf_child_read_pipe d)) tp, tc, ts] = Read_Eof"
    "\<not> holds_file (Read_End k) ts" by (auto simp: pipe_read_empty holds_file_lookup fcntl_output [OF assms(1)])
  then show ?thesis unfolding h by (simp add: ts ne)
qed

text \<open>The seeding process can write the output of the solving children, the library cannot.\<close>

lemma output_writers:
  assumes "pipes_opened k t d t1" and "fork_and_exec_child True c d t1 = Ret (prog, tc)"
    and "tp = fork_and_exec_parent d t1"
  shows "holds_file (Write_End (k + 3)) tc" "\<not> holds_file (Write_End (k + 3)) tp"
proof -
  note tables = started_tables [OF assms]
  note ne = tables(1,2) [unfolded all_fds_def, simplified]
  have none: "lookup t fd \<noteq> Some (Write_End (k + 3))" for fd using tables(4) [of "k + 3" fd] by simp
  have "lookup tp fd \<noteq> Some (Write_End (k + 3))" for fd using none [of fd] by (simp add: tables(5))
  then show "\<not> holds_file (Write_End (k + 3)) tp" by (simp add: holds_file_lookup)
  have "lookup tc (snd (sf_child_write_pipe d)) = Some (Write_End (k + 3))" by (simp add: tables(6) ne)
  then show "holds_file (Write_End (k + 3)) tc" by (auto simp: holds_file_lookup)
qed

text \<open>
  C26. Reports that never come. The library keeps a write end of the message pipe open itself. When the
  solver cannot be executed or ends before its start message, the read in \<open>quapi_init\<close> therefore
  waits for ever instead of finding the end of the pipe: this pipe is not the one that is set to
  \<open>O_NONBLOCK\<close>. The output of the solving children is; a read of it never waits. But the seeding process
  keeps its write end, so while the seeding process lives a solving child that has ended is not
  seen: a read says that nothing is there yet, and \<open>poll\<close> goes on waiting. Only when the
  seeding process is gone, too, the output ends.
\<close>

theorem missing_report_blocks:
  assumes "pipes_opened k t d t1" and "fork_and_exec_child True c d t1 = Ret (prog, tc)"
    and "tp = fork_and_exec_parent d t1"
  shows "pipe_read (fcntl_output d t1) (k + 4) [] [tp] = Read_Blocks
    \<and> pipe_read (fcntl_output d t1) (k + 3) [] [tp, tc] = Read_Again \<and> poll_empty_pipe (k + 3) [tp, tc] = None
    \<and> pipe_read (fcntl_output d t1) (k + 3) [] [tp] = Read_Eof"
proof -
  note tables = started_tables [OF assms(1-3)]
  note ne = tables(1,2) [unfolded all_fds_def, simplified]
  have "lookup tp (snd (sf_message_pipe d)) = Some (Write_End (k + 4))" by (simp add: tables(5) ne)
  then have "holds_file (Write_End (k + 4)) tp" by (auto simp: holds_file_lookup)
  with output_writers [OF assms] show ?thesis
    by (simp add: pipe_read_def poll_empty_pipe_def fcntl_output [OF assms(1)])
qed

section \<open>What stays open\<close>

lemma case_not_started:
  "\<nexists>v. msg = Some (Some (MStarted v)) \<Longrightarrow> (case msg of Some (Some (MStarted v)) \<Rightarrow> f v | _ \<Rightarrow> g) = g"
  by (auto split: option.split quapi_msg.split)

text \<open>The descriptors follow \<open>start_solver\<close>: a solver is there exactly when its descriptors are.\<close>

lemma start_descriptors_start_solver:
  assumes "start_solver e s = Ret x"
  shows "fst (start_descriptors e junk k t) = None \<longleftrightarrow> x = None"
proof (cases "env_eventfd_ok e \<and> env_fcntl_ok e \<and> 0 < env_fork e")
  case False
  moreover have "fst (fork_and_exec e s) \<longleftrightarrow> env_fcntl_ok e \<and> 0 < env_fork e"
    by (simp add: fork_and_exec_def Let_def)
  ultimately show ?thesis
    using assms by (auto simp: start_solver_def start_descriptors_def setup_eventfd_def split: prod.splits if_splits)
next
  case True
  then obtain s1 where f: "fork_and_exec e s = (True, s1)" by (simp add: fork_and_exec_def Let_def)
  then obtain st s3 msg rest where r: "quapi_read_msg_from_fd (env_reply e) = Ret (msg, rest)"
    "(case msg of Some (Some (MStarted v)) \<Rightarrow> Ret (Some (s3\<lparr>sv_messages := rest\<rparr>)) | _ \<Rightarrow> Ret None) = Ret x"
    using assms True by (auto simp: start_solver_def Let_def bind_outcome_Ret_iff)
  obtain eventfd t1 d t2 where p: "new_fd Event_Counter t = (eventfd, t1)" "open_pipes k t1 = (d, t2)" by (metis surj_pair)
  show ?thesis
  proof (cases "\<exists>v. msg = Some (Some (MStarted v))")
    case yes: True
    then show ?thesis
      using r(2) True by (auto simp: start_descriptors_def setup_eventfd_def p r(1) Let_def)
  next
    case no: False
    note none = case_not_started [OF no]
    have "x = None" using r(2) by (simp add: none)
    then show ?thesis
      using True no by (simp add: start_descriptors_def setup_eventfd_def p r(1) Let_def none)
  qed
qed

lemma card_dom_upds:
  assumes "finite (dom m)" "distinct xs" "\<forall>x \<in> set xs. m x = None" "length xs = length ys"
  shows "card (dom (m(xs [\<mapsto>] ys))) = card (dom m) + length xs"
proof -
  have "set xs \<inter> dom m = {}" using assms(3) by auto
  then show ?thesis using assms by (simp add: card_Un_disjoint distinct_card)
qed

text \<open>The four descriptors that nothing closes.\<close>

definition kept_fds :: "solver_fds \<Rightarrow> nat list" where
  "kept_fds d = [PARENT_READ d, fst (sf_child_write_pipe d), fst (sf_message_pipe d), snd (sf_message_pipe d)]"

lemma released_lookup:
  assumes "new_fd Event_Counter t = (eventfd, t1)" "open_pipes k t1 = (d, t2)"
  shows "lookup (release_descriptors None eventfd t2) = (lookup t)(all_fds d [\<mapsto>] pipe_ends k)"
    "lookup (release_descriptors (Some d) eventfd (fork_and_exec_parent d t2)) =
       (lookup t)(kept_fds d [\<mapsto>] [Read_End (k + 1), Read_End (k + 3), Read_End (k + 4), Write_End (k + 4)])"
    "distinct (all_fds d)" "\<forall>fd \<in> set (all_fds d). lookup t fd = None"
proof -
  note ev = new_fd_lookup [OF assms(1)] and o = open_pipes_lookup [OF assms(2)]
  have free: "\<forall>fd \<in> set (all_fds d). fd \<noteq> eventfd \<and> lookup t fd = None"
    using o(2) ev by (auto split: if_splits)
  have dist: "distinct (eventfd # all_fds d)" "distinct (rev (eventfd # all_fds d))"
    using free o(1) by auto
  note ne = dist [unfolded all_fds_def, simplified]
  have l: "lookup t2 = (lookup t)(eventfd \<mapsto> Event_Counter, all_fds d [\<mapsto>] pipe_ends k)"
    using o(3) ev by simp
  note r = release_descriptors_def parent_lookup l all_fds_def pipe_ends_def kept_fds_def
  show "lookup (release_descriptors None eventfd t2) = (lookup t)(all_fds d [\<mapsto>] pipe_ends k)"
    using ev by (intro ext) (simp add: r ne)
  show "lookup (release_descriptors (Some d) eventfd (fork_and_exec_parent d t2)) =
      (lookup t)(kept_fds d [\<mapsto>] [Read_End (k + 1), Read_End (k + 3), Read_End (k + 4), Write_End (k + 4)])"
    using ev free by (intro ext) (simp add: r ne)
  show "distinct (all_fds d)" "\<forall>fd \<in> set (all_fds d). lookup t fd = None" using dist free by auto
qed

text \<open>Client descriptors that are untouched, and \<open>n\<close> others beside them.\<close>

definition leaks :: "nat \<Rightarrow> fd_table \<Rightarrow> fd_table \<Rightarrow> bool" where
  "leaks n t t' \<longleftrightarrow> (\<forall>fd \<in> dom (lookup t). lookup t' fd = lookup t fd)
     \<and> card (dom (lookup t')) = card (dom (lookup t)) + n"

lemma leaksI:
  assumes "lookup t' = (lookup t)(fds [\<mapsto>] files)" "distinct fds" "\<forall>fd \<in> set fds. lookup t fd = None"
    and "length fds = n" "length files = n"
  shows "leaks n t t'"
proof -
  have "lookup t' fd = lookup t fd" if "fd \<in> dom (lookup t)" for fd
  proof -
    have "fd \<notin> set fds" using that assms(3) by auto
    then show ?thesis by (simp add: assms(1))
  qed
  then show ?thesis using card_dom_upds [OF finite_lookup assms(2,3), of files] assms(1,4,5) by (auto simp: leaks_def)
qed

lemma released_leaks:
  assumes "new_fd Event_Counter t = (eventfd, t1)" "open_pipes k t1 = (d, t2)"
  shows "leaks 10 t (release_descriptors None eventfd t2)"
    "leaks 4 t (release_descriptors (Some d) eventfd (fork_and_exec_parent d t2))"
proof -
  note r = released_lookup [OF assms]
  show "leaks 10 t (release_descriptors None eventfd t2)"
    by (rule leaksI [OF r(1,3,4)]) (simp_all add: all_fds_def pipe_ends_def)
  have "distinct (kept_fds d)" "\<forall>fd \<in> set (kept_fds d). lookup t fd = None"
    using r(3,4) by (auto simp: all_fds_def kept_fds_def)
  then show "leaks 4 t (release_descriptors (Some d) eventfd (fork_and_exec_parent d t2))"
    by (rule leaksI [OF r(2)]) (simp_all add: kept_fds_def)
qed

lemma start_descriptors_cases:
  assumes "start_descriptors e junk k t = (r, t')" "env_eventfd_ok e"
  obtains eventfd t1 d t2 where "new_fd Event_Counter t = (eventfd, t1)" "open_pipes k t1 = (d, t2)"
    "if \<not> env_fcntl_ok e \<or> env_fork e \<le> 0 then r = None \<and> t' = release_descriptors None eventfd t2
     else r = None \<and> t' = release_descriptors (Some d) eventfd (fork_and_exec_parent d t2)
       \<or> r = Some (d, eventfd) \<and> t' = fork_and_exec_parent d t2"
proof -
  obtain eventfd t1 where 1: "new_fd Event_Counter t = (eventfd, t1)" by fastforce
  obtain d t2 where 2: "open_pipes k t1 = (d, t2)" by fastforce
  show ?thesis
    by (rule that [OF 1 2])
      (use assms in \<open>auto simp: start_descriptors_def setup_eventfd_def 1 2 Let_def
         split: if_splits outcome.splits prod.splits option.splits quapi_msg.splits\<close>)
qed

text \<open>
  C23. Descriptors after a start and a release. Starting a solver and releasing it leaves the client's own
  descriptors as they were, but four of the pipes' ends open: the library's end of the solver's standard output,
  the one of the output of the solving children, and both ends of the message pipe. A start
  that fails after the fork leaves the same four, one that fails between the pipes and the
  fork leaves all ten. Without an eventfd the release closes whichever descriptor the fresh memory names.
\<close>

theorem release_leaks_descriptors:
  assumes "start_descriptors e junk k t = (r, t')"
  shows "if \<not> env_eventfd_ok e then r = None \<and> t' = sys_close junk t
    else if \<not> env_fcntl_ok e \<or> env_fork e \<le> 0 then r = None \<and> leaks 10 t t'
    else (case r of None \<Rightarrow> leaks 4 t t'
          | Some (d, eventfd) \<Rightarrow> leaks 4 t (release_descriptors (Some d) eventfd t'))"
proof (cases "env_eventfd_ok e")
  case False
  then show ?thesis using assms by (auto simp: start_descriptors_def setup_eventfd_def release_descriptors_def)
next
  case True
  show ?thesis
    by (rule start_descriptors_cases [OF assms True])
      (use True in \<open>auto dest: released_leaks split: if_splits\<close>)
qed

end
