(* ===== verification/Quapi_Type_Safety.thy ===== *)
theory Quapi_Type_Safety
  imports Quapi_Read
begin

text \<open>
  The runtime on a pipe with arbitrary contents. \<open>runtime_ok\<close> is the type of its global state:
  the lengths of its arrays, the range of its integers, the offsets inside the arrays, and what
  its flags say of each other. Whatever bytes arrive and however the process forks, every
  read of the solver that returns keeps this type and stays inside the caller's buffer. Where the
  protocol is not kept, a read may run for ever, end the process, or have undefined behaviour
  in a message to the log; \<open>Quapi_Progress\<close> gives a check of the stream that excludes this.
\<close>

section \<open>The type of the runtime\<close>

definition runtime_ok :: "quapi_runtime \<Rightarrow> bool" where
  "runtime_ok r \<longleftrightarrow> rt_wf r \<and> header_ok (rt_header_data r) \<and> msg_ok (rt_last_read_msg r)
     \<and> rt_state r \<notin> {PRELOAD_UNINITIATED, PRELOAD_UNKNOWN}
     \<and> (rt_repeat_state r \<longrightarrow> rt_last_read_msg r = MSolve \<and> rt_state r = READING_MATRIX)
     \<and> (rt_outbuf_len r = -2 \<or> buffer_ok r)"

text \<open>The same while a state runs on the message that was read last.\<close>

definition running_ok :: "quapi_runtime \<Rightarrow> bool" where
  "running_ok r \<longleftrightarrow> rt_wf r \<and> header_ok (rt_header_data r) \<and> msg_ok (rt_last_read_msg r)
     \<and> rt_state r \<notin> {PRELOAD_UNINITIATED, PRELOAD_UNKNOWN}
     \<and> (rt_repeat_state r \<longrightarrow> rt_last_read_msg r = MSolve \<and> rt_state r = READING_MATRIX)
     \<and> rt_outbuf_written r = 0
     \<and> (rt_outbuf_len r = -2 \<or> rt_outbuf_len r = -1 \<and> \<not> rt_repeat_state r \<and> rt_outbuf r = 0
        \<or> rt_outbuf_len r = 0 \<and> rt_outbuf r = 0
        \<or> 0 < rt_outbuf_len r \<and> int (rt_outbuf r) + rt_outbuf_len r \<le> int outbuf_size)"

lemma running_ok_done: "running_ok r \<Longrightarrow> rt_outbuf_len r \<noteq> -1 \<Longrightarrow> runtime_ok r"
  by (auto simp: running_ok_def runtime_ok_def buffer_ok_def outbuf_size_def)

section \<open>Messages\<close>

lemma in32_un_le32 [simp]: "in32 (un_le32 bs)"
  by (simp add: un_le32_def)

lemma msg_of_arr_ok: "msg_of_arr arr = Some m \<Longrightarrow> msg_ok m"
  by (auto simp: msg_of_arr_def split: option.splits quapi_msg_type.splits)

lemma read_trailing_ok: "read_trailing_into_header w trail = Ret h \<Longrightarrow> header_ok h"
  by (auto simp: header_ok_def header_fields_def read_trailing_into_header_def Let_def split: if_splits)

lemma read_msg_ok:
  assumes "read_msg r = Ret (Some m, r1)" "header_ok (rt_header_data r)"
  shows "r1 = r\<lparr>rt_in_stream := rt_in_stream r1, rt_header_data := rt_header_data r1, rt_last_read_msg := m\<rparr>"
    "header_ok (rt_header_data r1)" "msg_ok m"
  using assms read_trailing_ok
  by (auto simp: read_msg_def quapi_read_msg_from_file_def bind_outcome_Ret_iff dest: msg_of_arr_ok
      split: prod.splits option.splits if_splits)

section \<open>Printing\<close>

text \<open>\<open>INT32_MIN\<close> has no positive counterpart: one character is stored for it, after the sign.\<close>

lemma print_int_bounds:
  assumes "in32 i" "12 \<le> sz" "sz \<le> length (rt_outbuf_stack r)"
  shows "\<exists>mem out. print_int sep i sz r = r\<lparr>rt_outbuf_stack := mem, rt_outbuf := out, rt_outbuf_len := int sz - int out\<rparr>
    \<and> length mem = length (rt_outbuf_stack r) \<and> out < sz"
proof (cases "lit_ok i")
  case True
  have "length (int_text sep i) \<le> 12" "int_text sep i \<noteq> []"
    using length_int_text [OF True] by (simp_all add: int_text_def)
  then have "0 < length (int_text sep i)" "length (int_text sep i) \<le> sz" using assms(2) by auto
  then show ?thesis
    using print_int_eq [OF True assms(2,3)] assms(2,3)
    by (intro exI [of _ "poke (rt_outbuf_stack r) (sz - length (int_text sep i)) (int_text sep i)"]
        exI [of _ "sz - length (int_text sep i)"]) (simp add: c_mem of_nat_diff)
next
  case False
  with assms(1) have i: "i = - (2 ^ 31)" by (auto simp: lit_ok_def in32_def)
  have "int_to_str_pos (s32 (0 - i)) (rt_outbuf_stack r) sz =
      (poke (rt_outbuf_stack r) (sz - 1) [char_of (48 + i)], sz - 1)"
    by (simp add: int_to_str_pos_def i s32_wraps [simplified] int_to_str_loop.simps [of "- 2147483648"])
  then show ?thesis
    using assms(2,3)
    by (intro exI [of _ "rt_outbuf_stack (print_int sep i sz r)"] exI [of _ "rt_outbuf (print_int sep i sz r)"])
      (cases sep, simp_all add: print_int_def int_to_str_def i c_mem Let_def of_nat_diff)
qed

text \<open>The array holds some text at the offset, and all of it is inside.\<close>

definition presented :: "quapi_runtime \<Rightarrow> bool" where
  "presented r \<longleftrightarrow> length (rt_outbuf_stack r) = outbuf_size \<and> 0 < rt_outbuf_len r
     \<and> int (rt_outbuf r) + rt_outbuf_len r \<le> int outbuf_size"

lemma print_outbuf_presented:
  assumes "rt_outbuf r = 0" "length (rt_outbuf_stack r) = outbuf_size" "s \<noteq> []" "length s < outbuf_size"
  shows "presented (print_outbuf s r)"
  using assms print_outbuf_presents [OF assms(1,2,4)] by (simp add: presented_def presents_def)

lemma print_outbuf_stack_presented:
  assumes "length (rt_outbuf_stack r) = outbuf_size" "s \<noteq> []" "length s < outbuf_size"
  shows "presented (print_outbuf_stack s r)"
  unfolding print_outbuf_stack_def using assms by (intro print_outbuf_presented) simp_all

lemma print_int_presented:
  assumes "length (rt_outbuf_stack r) = outbuf_size" "in32 i" "12 \<le> sz" "sz \<le> outbuf_size"
  shows "presented (print_int sep i sz r)"
  using print_int_bounds [OF assms(2,3), of r sep] assms by (auto simp: presented_def)

text \<open>Printing changes nothing but the array, its offset and its length.\<close>

definition no_buffer :: "quapi_runtime \<Rightarrow> quapi_runtime" where
  "no_buffer r = r\<lparr>rt_outbuf_stack := [], rt_outbuf := 0, rt_outbuf_len := 0\<rparr>"

lemma print_no_buffer [simp]:
  "no_buffer (print_outbuf s r) = no_buffer r" "no_buffer (print_outbuf_stack s r) = no_buffer r"
  "no_buffer (print_int sep i sz r) = no_buffer r"
  by (simp_all add: no_buffer_def print_outbuf_stack_def print_outbuf_def print_int_def split: prod.splits)

lemma no_buffer_fields:
  assumes "no_buffer r' = no_buffer r"
  shows "rt_header_data r' = rt_header_data r" "rt_last_read_msg r' = rt_last_read_msg r"
    "rt_outbuf_written r' = rt_outbuf_written r" "rt_repeat_state r' = rt_repeat_state r"
    "rt_filler_clause r' = rt_filler_clause r" "rt_filler_clause_len r' = rt_filler_clause_len r"
    "rt_written_clauses r' = rt_written_clauses r" "rt_quantifier_count r' = rt_quantifier_count r"
  using assms by (simp_all add: no_buffer_def quapi_runtime.defs) (cases r, cases r', simp)+

lemmas print_fields [simp] = print_no_buffer [THEN no_buffer_fields(1)] print_no_buffer [THEN no_buffer_fields(2)]
  print_no_buffer [THEN no_buffer_fields(3)] print_no_buffer [THEN no_buffer_fields(4)]
  print_no_buffer [THEN no_buffer_fields(5)] print_no_buffer [THEN no_buffer_fields(6)]
  print_no_buffer [THEN no_buffer_fields(7)] print_no_buffer [THEN no_buffer_fields(8)]

section \<open>One state\<close>

definition filler_ok :: "quapi_runtime \<Rightarrow> bool" where
  "filler_ok r \<longleftrightarrow> length (rt_filler_clause r) = filler_size \<and> 0 < rt_filler_clause_len r
     \<and> rt_filler_clause_len r \<le> filler_size"

text \<open>A state that ends with text in the buffer.\<close>

lemma running_okI:
  assumes "running_ok r" "presented r'" "filler_ok r'" "in32 (rt_written_clauses r')"
    and "rt_header_data r' = rt_header_data r" "rt_last_read_msg r' = rt_last_read_msg r"
    and "rt_outbuf_written r' = rt_outbuf_written r"
    and "rt_state r' \<notin> {PRELOAD_UNINITIATED, PRELOAD_UNKNOWN}"
    and "rt_repeat_state r' \<longrightarrow> rt_last_read_msg r = MSolve \<and> rt_state r' = READING_MATRIX"
  shows "running_ok r'"
  using assms by (auto simp: running_ok_def presented_def filler_ok_def rt_wf_def)

text \<open>A runtime on which a state is about to run.\<close>

definition about_to_run :: "quapi_runtime \<Rightarrow> quapi_msg \<Rightarrow> bool" where
  "about_to_run r m \<longleftrightarrow> running_ok r \<and> rt_outbuf_len r = 0 \<and> rt_last_read_msg r = m"

lemma about_to_runD:
  assumes "about_to_run r m"
  shows "running_ok r" "rt_outbuf_len r = 0" "rt_last_read_msg r = m" "msg_ok m" "rt_outbuf r = 0"
    "length (rt_outbuf_stack r) = outbuf_size" "filler_ok r" "in32 (rt_written_clauses r)"
    "header_ok (rt_header_data r)" "rt_repeat_state r \<longrightarrow> m = MSolve \<and> rt_state r = READING_MATRIX"
  using assms by (auto simp: about_to_run_def running_ok_def rt_wf_def filler_ok_def)

lemma run_state_Ret:
  "run_state r m = Ret r' \<longleftrightarrow> (\<exists>st r1. state_function (rt_state r) r m = Ret (st, r1) \<and> r' = r1\<lparr>rt_state := st\<rparr>)"
  by (auto simp: run_state_def bind_outcome_Ret_iff)

text \<open>Changes outside the buffer.\<close>

lemma presented_updates [simp]:
  "presented (r\<lparr>rt_state := st\<rparr>) = presented r" "presented (r\<lparr>rt_quantifier_count := n\<rparr>) = presented r"
  "presented (r\<lparr>rt_filler_clause := f\<rparr>) = presented r" "presented (r\<lparr>rt_filler_clause_len := k\<rparr>) = presented r"
  "presented (r\<lparr>rt_to_parent := p\<rparr>) = presented r" "presented (r\<lparr>rt_written_clauses := w\<rparr>) = presented r"
  "presented (r\<lparr>rt_repeat_state := b\<rparr>) = presented r"
  by (simp_all add: presented_def)

lemma waiting_ok:
  assumes "about_to_run r m" "rt_state r = WAITING_FOR_HEADER" "run_state r m = Ret r'"
  shows "running_ok r'"
proof -
  note r = about_to_runD [OF assms(1)]
  let ?h = "rt_header_data r"
  let ?t = "''p cnf '' @ show_int (literals ?h) @ '' '' @ show_int (clauses ?h) @ [NL]"
  have "length (show_int (literals ?h)) \<le> 11" "length (show_int (clauses ?h)) \<le> 11"
    using r(9) by (auto simp: header_ok_def header_fields_def intro!: length_show_int)
  then have "length ?t < outbuf_size" by (simp add: outbuf_size_def)
  then have p: "presented (print_outbuf ?t r)" using r by (intro print_outbuf_presented) simp_all
  define r1 where "r1 = (if literals ?h = 0
      then (print_outbuf ?t r)\<lparr>rt_filler_clause := poke (rt_filler_clause (print_outbuf ?t r)) 0 (''0'' @ [NL]),
         rt_filler_clause_len := 2\<rparr> else print_outbuf ?t r)"
  have "presented r1" "filler_ok r1" using p r(7)
    by (cases "literals ?h = 0"; simp add: r1_def filler_ok_def filler_size_def c_mem)+
  moreover have "st_waiting_for_header r m =
      Ret (READING_PREFIX, if msg_type m = MSG_HEADER then send_to_parent (MStarted QUAPI_API_VERSION) r1 else r1)"
    unfolding st_waiting_for_header_def r1_def Let_def by (cases m) simp_all
  then have "\<exists>p. r' = r1\<lparr>rt_to_parent := p, rt_state := READING_PREFIX\<rparr>"
    using assms(2,3) by (auto simp: run_state_Ret send_to_parent_eq intro: exI [of _ "rt_to_parent r1"])
  moreover have "rt_header_data r1 = ?h" "rt_last_read_msg r1 = rt_last_read_msg r" "rt_written_clauses r1 = rt_written_clauses r"
    "rt_outbuf_written r1 = rt_outbuf_written r" "rt_repeat_state r1 = rt_repeat_state r" by (simp_all add: r1_def)
  ultimately show ?thesis
    using r assms(2) by (auto intro!: running_okI [OF r(1)] simp: filler_ok_def)
qed

text \<open>A state that prints some text and changes nothing else but the count of quantifiers.\<close>

lemma printed_ok:
  assumes "about_to_run r m" "presented r1" "no_buffer r1 = no_buffer r" "filler_ok r2"
    and "r2 = r1\<lparr>rt_filler_clause := f, rt_filler_clause_len := k, rt_quantifier_count := n, rt_state := st\<rparr>"
    and "st \<notin> {PRELOAD_UNINITIATED, PRELOAD_UNKNOWN}" "\<not> rt_repeat_state r"
  shows "running_ok r2"
proof -
  note r = about_to_runD [OF assms(1)] and f = no_buffer_fields [OF assms(3)]
  show ?thesis
    by (rule running_okI [OF r(1)]) (use assms(2,4,5,6,7) r f in \<open>simp_all\<close>)
qed

lemma no_buffer_updates:
  "r\<lparr>rt_quantifier_count := n, rt_state := st\<rparr> = r\<lparr>rt_filler_clause := rt_filler_clause r,
     rt_filler_clause_len := rt_filler_clause_len r, rt_quantifier_count := n, rt_state := st\<rparr>"
  "r\<lparr>rt_state := st\<rparr> = r\<lparr>rt_filler_clause := rt_filler_clause r,
     rt_filler_clause_len := rt_filler_clause_len r, rt_quantifier_count := rt_quantifier_count r, rt_state := st\<rparr>"
  by simp_all

lemma printed_quantifier_ok:
  assumes "about_to_run r m" "presented r1" "no_buffer r1 = no_buffer r"
    and "st \<notin> {PRELOAD_UNINITIATED, PRELOAD_UNKNOWN}" "\<not> rt_repeat_state r"
  shows "running_ok (r1\<lparr>rt_quantifier_count := n, rt_state := st\<rparr>)" "running_ok (r1\<lparr>rt_state := st\<rparr>)"
proof -
  have "filler_ok (r1\<lparr>rt_quantifier_count := n, rt_state := st\<rparr>)" "filler_ok (r1\<lparr>rt_state := st\<rparr>)"
    using about_to_runD(7) [OF assms(1)] no_buffer_fields [OF assms(3)] by (simp_all add: filler_ok_def)
  note f = this
  show "running_ok (r1\<lparr>rt_quantifier_count := n, rt_state := st\<rparr>)"
    by (rule printed_ok [OF assms(1-3) f(1) _ assms(4,5)]) (rule no_buffer_updates)
  show "running_ok (r1\<lparr>rt_state := st\<rparr>)"
    by (rule printed_ok [OF assms(1-3) f(2) _ assms(4,5)]) (rule no_buffer_updates)
qed

text \<open>The texts of quantifiers and literals fit the array.\<close>

lemma text_bounds: "in32 i \<Longrightarrow> length (show_int i) + 8 < outbuf_size"
  using length_show_int [of i] by (simp add: outbuf_size_def)

lemma fork_ok:
  assumes "about_to_run r m" "\<not> rt_repeat_state r"
  shows "running_ok ((fork_solving_child r w)\<lparr>rt_outbuf_len := -1\<rparr>)"
    "rt_last_read_msg (fork_solving_child r w) = rt_last_read_msg r"
    "rt_state (fork_solving_child r w) = rt_state r"
  using assms by (auto simp: about_to_run_def running_ok_def fork_solving_child_def send_to_parent_eq rt_wf_def Let_def
      split: list.splits fork_outcome.splits)

lemma prefix_ok:
  assumes "about_to_run r m" "rt_state r = READING_PREFIX" "run_state r m = Ret r'"
  shows "running_ok r'"
proof -
  note r = about_to_runD [OF assms(1)]
  have nr: "\<not> rt_repeat_state r" using r(10) assms(2) by auto
  show ?thesis
  proof (cases m)
    case (MQuantifier lit)
    then have i: "in32 lit" using r(4) by simp
    note show_len = length_show_int [OF i]
    let ?e = "print_outbuf (''e '' @ show_int lit) r" and ?a = "print_outbuf (''a '' @ show_int (s32 (- lit))) r"
    have p: "presented ?e" "presented ?a"
      using r text_bounds [OF i] text_bounds [of "s32 (- lit)"] by (simp_all add: print_outbuf_presented)
    consider "lit > 0" | "lit < 0" | "lit = 0" by linarith
    then show ?thesis
    proof cases
      case 1
      let ?f = "show_int lit @ '' -'' @ show_int lit @ '' 0'' @ [NL]"
      have "length ?f < filler_size" using show_len by (simp add: filler_size_def)
      then have f: "filler_ok (r1\<lparr>rt_filler_clause := snprintf_at (rt_filler_clause r) 0 filler_size ?f,
          rt_filler_clause_len := length ?f, rt_quantifier_count := n, rt_state := st\<rparr>)" for r1 n st
        using r(7) by (simp add: filler_ok_def c_mem)
      show ?thesis
        using assms(2,3) MQuantifier 1 printed_quantifier_ok [OF assms(1) p(1)] printed_ok [OF assms(1) p(1) _ f refl] nr
        by (auto simp: run_state_Ret st_reading_prefix_def Let_def split: if_splits)
    next
      case 2
      then show ?thesis
        using assms(2,3) MQuantifier printed_quantifier_ok [OF assms(1) p(2)] nr
        by (auto simp: run_state_Ret st_reading_prefix_def Let_def)
    next
      case 3
      then show ?thesis
        using assms(2,3) MQuantifier r(1)
        by (auto simp: run_state_Ret st_reading_prefix_def running_ok_def rt_wf_def)
    qed
  next
    case (MFork w)
    then have "r' = (fork_solving_child r w)\<lparr>rt_outbuf_len := -1\<rparr>"
      using assms(2,3) fork_ok(3) [OF assms(1) nr, of w]
      by (auto simp: run_state_Ret st_reading_prefix_def fork_outbuf_len)
    then show ?thesis using fork_ok(1) [OF assms(1) nr] by simp
  qed (use assms(2,3) r(1-3) nr in \<open>auto simp: run_state_Ret st_reading_prefix_def running_ok_def rt_wf_def\<close>)
qed

lemma quantified_ok:
  assumes "about_to_run r m" "rt_state r \<in> {READING_EXISTS, READING_FORALL}" "run_state r m = Ret r'"
  shows "running_ok r'"
proof -
  note r = about_to_runD [OF assms(1)]
  have nr: "\<not> rt_repeat_state r" using r(10) assms(2) by auto
  note printed = printed_quantifier_ok [OF assms(1) _ _ _ nr]
  show ?thesis
  proof (cases m)
    case (MQuantifier lit)
    then have i: "in32 lit" using r(4) by simp
    have p: "presented (print_outbuf_stack ('' 0'' @ [NL] @ ''e '' @ show_int lit) r)"
      "presented (print_outbuf_stack ('' 0'' @ [NL] @ ''a '' @ show_int (s32 (- lit))) r)"
      "presented (print_outbuf_stack ('' 0'' @ [NL]) r)"
      "presented (print_int True lit outbuf_size r)" "presented (print_int True (s32 (- lit)) outbuf_size r)"
      using r text_bounds [OF i] text_bounds [of "s32 (- lit)"] i
      by (simp_all add: print_outbuf_stack_presented print_int_presented outbuf_size_def)
    then show ?thesis
      using assms(2,3) MQuantifier printed
      by (auto simp: run_state_Ret st_reading_exists_def st_reading_forall_def Let_def split: if_splits)
  next
    case (MLiteral lit)
    then have "in32 lit" using r(4) by simp
    then have p: "presented (print_outbuf_stack ('' 0'' @ [NL] @ show_int lit) r)"
      using r text_bounds [of lit] by (simp add: print_outbuf_stack_presented)
    then show ?thesis
      using assms(2,3) MLiteral printed
      by (auto simp: run_state_Ret st_reading_exists_def st_reading_forall_def)
  qed (use assms(2,3) in \<open>auto simp: run_state_Ret st_reading_exists_def st_reading_forall_def\<close>)
qed

lemma clause_ok:
  assumes "about_to_run r m" "rt_state r = READING_CLAUSE" "run_state r m = Ret r'"
  shows "running_ok r'"
proof -
  note r = about_to_runD [OF assms(1)]
  have nr: "\<not> rt_repeat_state r" using r(10) assms(2) by auto
  show ?thesis
  proof (cases m)
    case (MLiteral lit)
    then have i: "in32 lit" using r(4) by simp
    let ?r1 = "print_int True lit (outbuf_size - 1) r"
    let ?r2 = "?r1\<lparr>rt_outbuf_stack := poke (rt_outbuf_stack ?r1) (outbuf_size - 1) [NL],
                  rt_outbuf_len := rt_outbuf_len ?r1 + 1, rt_written_clauses := s32 (rt_written_clauses ?r1 + 1)\<rparr>"
    have p: "presented ?r1" using i r by (intro print_int_presented) (simp_all add: outbuf_size_def)
    obtain mem out where "?r1 = r\<lparr>rt_outbuf_stack := mem, rt_outbuf := out, rt_outbuf_len := int (outbuf_size - 1) - int out\<rparr>"
      "length mem = outbuf_size" "out < outbuf_size - 1"
      using print_int_bounds [OF i, of "outbuf_size - 1" r True] r(6) by (auto simp: outbuf_size_def)
    then have "presented ?r2" by (simp add: presented_def outbuf_size_def c_mem)
    then have "running_ok (?r2\<lparr>rt_state := READING_MATRIX\<rparr>)"
      using r nr by (intro running_okI [OF r(1)]) (simp_all add: filler_ok_def)
    then show ?thesis
      using assms(2,3) MLiteral printed_quantifier_ok(2) [OF assms(1) p _ _ nr]
      by (auto simp: run_state_Ret st_reading_clause_def Let_def split: if_splits)
  qed (use assms(2,3) in \<open>auto simp: run_state_Ret st_reading_clause_def\<close>)
qed

lemma matrix_ok:
  assumes "about_to_run r m" "rt_state r = READING_MATRIX" "run_state r m = Ret r'"
  shows "running_ok r'"
proof -
  note r = about_to_runD [OF assms(1)]
  have same: "running_ok (r\<lparr>rt_state := READING_MATRIX\<rparr>)" "running_ok (r\<lparr>rt_repeat_state := False, rt_state := WORKING\<rparr>)"
    using r(1) assms(2) by (auto simp: running_ok_def rt_wf_def)
  show ?thesis
  proof (cases m)
    case (MLiteral lit)
    with r have "presented (print_int False lit outbuf_size r)" "\<not> rt_repeat_state r"
      by (auto intro!: print_int_presented simp: outbuf_size_def)
    then show ?thesis
      using assms(2,3) MLiteral printed_quantifier_ok(2) [OF assms(1), of "print_int False lit outbuf_size r"]
      by (auto simp: run_state_Ret st_reading_matrix_def Let_def split: if_splits)
  next
    case (MFork w)
    with r have nr: "\<not> rt_repeat_state r" by auto
    have "r' = (fork_solving_child r w)\<lparr>rt_outbuf_len := -1\<rparr>"
      using assms(2,3) MFork fork_ok(3) [OF assms(1) nr, of w] by (auto simp: run_state_Ret st_reading_matrix_def)
    then show ?thesis using fork_ok(1) [OF assms(1) nr] by simp
  next
    case MSolve
    let ?r1 = "r\<lparr>rt_outbuf_stack := poke (rt_outbuf_stack r) (rt_outbuf r) (peek (rt_filler_clause r) 0 (rt_filler_clause_len r)),
        rt_outbuf_len := int (rt_filler_clause_len r), rt_written_clauses := s32 (rt_written_clauses r + 1),
        rt_repeat_state := True, rt_state := READING_MATRIX\<rparr>"
    have "presented ?r1"
      using r(5-7) by (simp add: presented_def filler_ok_def outbuf_size_def filler_size_def c_mem)
    then have "running_ok ?r1" using r MSolve by (intro running_okI [OF r(1)]) (simp_all add: filler_ok_def)
    then show ?thesis using assms(2,3) MSolve same by (auto simp: run_state_Ret st_reading_matrix_def split: if_splits)
  qed (use assms(2,3) same in \<open>auto simp: run_state_Ret st_reading_matrix_def\<close>)
qed

lemma run_state_last:
  assumes "run_state r m = Ret r'"
  shows "rt_last_read_msg r' = rt_last_read_msg r"
proof -
  have fork: "rt_last_read_msg (fork_solving_child r w) = rt_last_read_msg r" for r w
    by (simp add: fork_solving_child_def send_to_parent_eq Let_def split: list.split fork_outcome.split)
  obtain st r1 where s: "state_function (rt_state r) r m = Ret (st, r1)" and r': "r' = r1\<lparr>rt_state := st\<rparr>"
    using assms by (auto simp: run_state_Ret)
  have "rt_last_read_msg r1 = rt_last_read_msg r"
  proof (cases "rt_state r")
    case WAITING_FOR_HEADER
    with s show ?thesis by (cases m) (auto simp: st_waiting_for_header_def Let_def send_to_parent_eq)
  next
    case READING_PREFIX
    with s show ?thesis by (cases m) (auto simp: st_reading_prefix_def Let_def fork split: if_splits)
  next
    case READING_EXISTS
    with s show ?thesis by (cases m) (auto simp: st_reading_exists_def Let_def split: if_splits)
  next
    case READING_FORALL
    with s show ?thesis by (cases m) (auto simp: st_reading_forall_def Let_def split: if_splits)
  next
    case READING_CLAUSE
    with s show ?thesis by (cases m) (auto simp: st_reading_clause_def Let_def split: if_splits)
  next
    case READING_MATRIX
    with s show ?thesis by (cases m) (auto simp: st_reading_matrix_def Let_def fork split: if_splits)
  next
    case WORKING
    with s show ?thesis by (auto simp: st_working_def)
  qed (use s in simp_all)
  then show ?thesis by (simp add: r')
qed

lemma run_state_ok:
  assumes "about_to_run r m" "run_state r m = Ret r'"
  shows "running_ok r'"
proof (cases "rt_state r")
  case WAITING_FOR_HEADER
  then show ?thesis by (rule waiting_ok [OF assms(1) _ assms(2)])
next
  case READING_PREFIX
  then show ?thesis by (rule prefix_ok [OF assms(1) _ assms(2)])
next
  case READING_EXISTS
  then show ?thesis by (intro quantified_ok [OF assms(1) _ assms(2)]) simp
next
  case READING_FORALL
  then show ?thesis by (intro quantified_ok [OF assms(1) _ assms(2)]) simp
next
  case READING_CLAUSE
  then show ?thesis by (rule clause_ok [OF assms(1) _ assms(2)])
next
  case READING_MATRIX
  then show ?thesis by (rule matrix_ok [OF assms(1) _ assms(2)])
next
  case WORKING
  then have "r' = r\<lparr>rt_stdin_open := False, rt_outbuf_len := -2\<rparr>"
    using assms(2) by (auto simp: run_state_Ret st_working_def)
  then show ?thesis using about_to_runD(1) [OF assms(1)] by (auto simp: running_ok_def rt_wf_def)
qed (use assms(2) in \<open>simp_all add: run_state_def\<close>)

section \<open>The loops\<close>

text \<open>What holds of the result when a piece of the runtime returns; this says nothing when it does not.\<close>

fun if_returns :: "('a \<Rightarrow> bool) \<Rightarrow> 'a outcome \<Rightarrow> bool" where
  "if_returns P (Ret x) = P x"
| "if_returns P _ = True"

lemma run_state_type:
  assumes "about_to_run r m"
  shows "if_returns (\<lambda>r'. running_ok r' \<and> rt_last_read_msg r' = m) (run_state r m)"
proof (cases "run_state r m")
  case (Ret r')
  then show ?thesis
    using run_state_ok [OF assms] run_state_last about_to_runD(3) [OF assms] by simp
qed simp_all

lemma state_loop_type:
  "state_loop r m = Some res \<Longrightarrow> running_ok r \<Longrightarrow> rt_last_read_msg r = m \<Longrightarrow> if_returns running_ok res"
proof (induction rule: state_loop.raw_induct [rotated, consumes 1, case_names step])
  case (step state_loop r m res)
  show ?case
  proof (cases "rt_outbuf_len r = 0")
    case True
    then have "if_returns (\<lambda>r'. running_ok r' \<and> rt_last_read_msg r' = m) (run_state r m)"
      using step(3,4) by (intro run_state_type) (simp add: about_to_run_def)
    then show ?thesis using step(1,2) True by (cases "run_state r m") auto
  qed (use step(2,3) in auto)
qed

lemma message_loop_type:
  "message_loop r = Some res \<Longrightarrow> running_ok r \<Longrightarrow> if_returns runtime_ok res"
proof (induction rule: message_loop.raw_induct [rotated, consumes 1, case_names step])
  case (step message_loop r res)
  show ?case
  proof (cases "rt_outbuf_len r = -1")
    case True
    then have r: "rt_wf r" "header_ok (rt_header_data r)" "\<not> rt_repeat_state r" "rt_outbuf r = 0" "rt_outbuf_written r = 0"
      "rt_state r \<notin> {PRELOAD_UNINITIATED, PRELOAD_UNKNOWN}" using step(3) by (auto simp: running_ok_def)
    show ?thesis
    proof (cases "read_msg r")
      case (Ret x)
      obtain mo r1 where x: "x = (mo, r1)" by fastforce
      show ?thesis
      proof (cases mo)
        case None
        then show ?thesis using step(2) True Ret x by auto
      next
        case (Some m)
        let ?r = "r1\<lparr>rt_outbuf_len := 0\<rparr>"
        note rd = read_msg_ok [OF Ret [unfolded x Some] r(2)]
        have "rt_wf ?r" "\<not> rt_repeat_state ?r" "rt_outbuf ?r = 0" "rt_outbuf_written ?r = 0"
          "rt_state ?r \<notin> {PRELOAD_UNINITIATED, PRELOAD_UNKNOWN}" "rt_last_read_msg ?r = m"
          using r by (subst rd(1); simp add: rt_wf_def)+
        then have "running_ok ?r" "rt_last_read_msg ?r = m" using rd by (simp_all add: running_ok_def)
        then have "state_loop ?r m = Some y \<Longrightarrow> if_returns running_ok y" for y
          by (intro state_loop_type)
        then show ?thesis
          using step(1,2) True Ret x Some by (auto split: bind_splits outcome.splits)
      qed
    qed (use step(2) True in auto)
  qed (use step(2,3) running_ok_done in auto)
qed

lemma advance_state_type:
  assumes "advance_state r = Some res" "runtime_ok r" "rt_outbuf r = 0" "rt_outbuf_written r = 0"
  shows "if_returns runtime_ok res"
proof -
  note r = assms(2) [unfolded runtime_ok_def] and off = assms(3,4)
  consider "rt_outbuf_len r = -2" | "rt_outbuf_len r \<noteq> -2" "rt_repeat_state r" | "rt_outbuf_len r \<noteq> -2" "\<not> rt_repeat_state r"
    by blast
  then show ?thesis
  proof cases
    case 1
    then show ?thesis using assms(1,2) by (auto simp: advance_state_def)
  next
    case 2
    let ?r = "r\<lparr>rt_outbuf_len := 0\<rparr>"
    have run: "about_to_run ?r MSolve"
      using r off 2 by (simp add: about_to_run_def running_ok_def rt_wf_def)
    have res: "res = run_state ?r MSolve" using assms(1) 2 r by (simp add: advance_state_def)
    have "if_returns (\<lambda>r'. running_ok r' \<and> rt_last_read_msg r' = MSolve) res"
      unfolding res by (rule run_state_type [OF run])
    moreover have "rt_outbuf_len r' \<noteq> -1" if "res = Ret r'" for r'
      using that 2 r by (auto simp: res run_state_Ret st_reading_matrix_def rt_wf_def split: if_splits)
    ultimately show ?thesis using running_ok_done by (cases res) auto
  next
    case 3
    then have "running_ok (r\<lparr>rt_outbuf_len := -1\<rparr>)"
      using r off by (simp add: running_ok_def rt_wf_def)
    then show ?thesis using assms(1) 3 message_loop_type by (simp add: advance_state_def)
  qed
qed

section \<open>Reading\<close>

lemma update_buf_ok:
  assumes "runtime_ok r" "update_buf trace r buf = (n, buf', r')"
  shows "runtime_ok r'" "0 \<le> n" "n \<le> int (length buf)" "length buf' = length buf"
proof -
  have "runtime_ok r' \<and> 0 \<le> n \<and> n \<le> int (length buf) \<and> length buf' = length buf"
  proof (cases "rt_outbuf_len r = -2")
    case True
    then show ?thesis using assms by (simp add: update_buf_def)
  next
    case False
    let ?len = "min (rt_outbuf_len r - rt_outbuf_written r) (int (length buf))"
    let ?off = "rt_outbuf r + nat (rt_outbuf_written r)"
    let ?buf = "poke buf 0 (peek (rt_outbuf_stack r) ?off (nat ?len))"
    have r: "rt_wf r" "buffer_ok r" using assms(1) False by (auto simp: runtime_ok_def)
    then have len: "0 \<le> ?len" "nat ?len \<le> length buf" by (auto simp: buffer_ok_def)
    have "?off + nat ?len \<le> length (rt_outbuf_stack r)"
      using r by (simp add: buffer_ok_def rt_wf_def) linarith
    with len have l: "length ?buf = length buf" by (simp add: length_poke length_peek)
    then have t: "0 < ?len \<Longrightarrow> length (trace_buf ?buf (nat ?len)) = length buf"
      using trace_buf_data(2) [of "nat ?len" ?buf] len(2) by simp
    have ok: "runtime_ok (r\<lparr>rt_outbuf_written := rt_outbuf_written r + ?len\<rparr>)"
      using assms(1) r len(1) by (auto simp: runtime_ok_def rt_wf_def buffer_ok_def)
    show ?thesis
    proof (cases "0 < ?len")
      case True
      then have "n = ?len" "r' = r\<lparr>rt_outbuf_written := rt_outbuf_written r + ?len\<rparr>"
        "buf' = (if trace then trace_buf ?buf (nat ?len) else ?buf)"
        using assms(2) False by (auto simp: update_buf_def Let_def)
      then show ?thesis using ok l t [OF True] len by auto
    next
      case z: False
      then have "n = ?len" "r' = r" "buf' = buf"
        using assms(2) False by (auto simp: update_buf_def Let_def)
      then show ?thesis using assms(1) len by auto
    qed
  qed
  then show "runtime_ok r'" "0 \<le> n" "n \<le> int (length buf)" "length buf' = length buf" by simp_all
qed

definition read_ok :: "string \<Rightarrow> int \<times> string \<times> quapi_runtime \<Rightarrow> bool" where
  "read_ok buf = (\<lambda>(n, buf', r'). runtime_ok r' \<and> 0 \<le> n \<and> n \<le> int (length buf) \<and> length buf' = length buf)"

lemma quapi_read_type:
  assumes "runtime_ok r" "quapi_read trace r buf = Some res"
  shows "if_returns (read_ok buf) res"
proof -
  obtain n buf1 r1 where u: "update_buf trace r buf = (n, buf1, r1)" by (metis prod_cases3)
  note u_ok = update_buf_ok [OF assms(1) u]
  show ?thesis
  proof (cases "n = 0")
    case False
    then show ?thesis using assms(2) u_ok by (auto simp: quapi_read_def u read_ok_def)
  next
    case True
    let ?r = "r1\<lparr>rt_outbuf := 0, rt_outbuf_written := 0\<rparr>"
    have r0: "runtime_ok ?r"
      using u_ok(1) by (auto simp: runtime_ok_def rt_wf_def buffer_ok_def)
    have adv: "if_returns runtime_ok x" if "advance_state ?r = Some x" for x
      by (rule advance_state_type [OF that r0]) simp_all
    have read: "read_ok buf (m, buf2[0 := CHR 0xFF], r3)" "read_ok buf (m, buf2, r3)"
      if "runtime_ok r2" "update_buf trace r2 buf1 = (m, buf2, r3)" for r2 m buf2 r3
      using update_buf_ok [OF that] u_ok(4) by (simp_all add: read_ok_def)
    show ?thesis
    proof (cases "advance_state ?r")
      case None
      then show ?thesis using assms(2) True by (simp add: quapi_read_def u)
    next
      case (Some x)
      show ?thesis
      proof (cases x)
        case (Ret r2)
        obtain m buf2 r3 where u2: "update_buf trace r2 buf1 = (m, buf2, r3)" by (metis prod_cases3)
        show ?thesis
          using assms(2) True Some Ret u2 read [OF _ u2] adv [OF Some]
          by (auto simp: quapi_read_def u)
      qed (use assms(2) True Some adv [OF Some] in \<open>auto simp: quapi_read_def u\<close>)
    qed
  qed
qed

lemma quapi_runtime_init_ok:
  "quapi_runtime_init (global_runtime input forks) = Ret r \<Longrightarrow> runtime_ok r"
  by (auto simp: quapi_runtime_init_def global_runtime_def runtime_ok_def rt_wf_def buffer_ok_def header_ok_def
      header_fields_def zero_header_def in32_def outbuf_size_def filler_size_def c_mem)

text \<open>The runtimes that reads lead to, with buffers of any sizes.\<close>

inductive reads_from :: "bool \<Rightarrow> quapi_runtime \<Rightarrow> quapi_runtime \<Rightarrow> bool" for trace r0 where
  reads_start: "reads_from trace r0 r0"
| reads_step: "reads_from trace r0 r \<Longrightarrow> quapi_read trace r buf = Some (Ret (n, buf', r')) \<Longrightarrow> reads_from trace r0 r'"

lemma reads_from_ok: "reads_from trace r0 r \<Longrightarrow> runtime_ok r0 \<Longrightarrow> runtime_ok r"
proof (induction rule: reads_from.induct)
  case (reads_step r buf n buf' r')
  then show ?case using quapi_read_type [OF _ reads_step.hyps(2)] by (simp add: read_ok_def)
qed

end
