(* ===== verification/Quapi_Progress.thy ===== *)
theory Quapi_Progress
  imports Quapi_Type_Safety Quapi_System
begin

text \<open>
  Which streams the runtime reads to their end. \<open>conforms\<close> is a check of the bytes alone: an
  automaton whose states are those of the machine and whose steps are whole messages, without the
  buffers, counts and texts of the runtime. A stream that passes it makes every read of the
  solver return or end the process at the end of the pipe or at an unknown message: no read
  runs for ever, no undefined behaviour is reached, no assertion fails. Every message the
  check rejects is one on which the state that gets it loops (C20), or logs an integer as a
  string, or misses its trailer. What the library writes passes (\<open>library_stream_conforms\<close>).
\<close>

section \<open>The check\<close>

text \<open>The messages a state can take.\<close>

fun expects :: "quapi_preload_state \<Rightarrow> quapi_msg \<Rightarrow> bool" where
  "expects WAITING_FOR_HEADER m = True"
| "expects READING_PREFIX m =
     (case m of MQuantifier l \<Rightarrow> l \<noteq> 0 | MLiteral l \<Rightarrow> True | MFork w \<Rightarrow> True | MSolve \<Rightarrow> True | _ \<Rightarrow> False)"
| "expects READING_EXISTS m = (case m of MQuantifier l \<Rightarrow> True | MLiteral l \<Rightarrow> True | _ \<Rightarrow> False)"
| "expects READING_FORALL m = (case m of MQuantifier l \<Rightarrow> True | MLiteral l \<Rightarrow> True | _ \<Rightarrow> False)"
| "expects READING_CLAUSE m = (case m of MLiteral l \<Rightarrow> True | _ \<Rightarrow> False)"
| "expects READING_MATRIX m = (case m of MLiteral l \<Rightarrow> True | MFork w \<Rightarrow> True | MSolve \<Rightarrow> True | _ \<Rightarrow> False)"
| "expects WORKING m = True"
| "expects _ m = False"

text \<open>Where a message leads; \<open>WORKING\<close> stands for the fillers that follow a solve, too.\<close>

definition literal_state :: "int \<Rightarrow> quapi_preload_state" where
  "literal_state l = (if l = 0 then READING_MATRIX else READING_CLAUSE)"

definition quantifier_state :: "int \<Rightarrow> quapi_preload_state" where
  "quantifier_state l = (if l > 0 then READING_EXISTS else if l < 0 then READING_FORALL else READING_PREFIX)"

fun state_after :: "quapi_preload_state \<Rightarrow> quapi_msg \<Rightarrow> quapi_preload_state" where
  "state_after WAITING_FOR_HEADER m = READING_PREFIX"
| "state_after READING_PREFIX m =
     (case m of MQuantifier l \<Rightarrow> quantifier_state l | MLiteral l \<Rightarrow> literal_state l | MFork w \<Rightarrow> READING_PREFIX
      | _ \<Rightarrow> WORKING)"
| "state_after READING_MATRIX m =
     (case m of MLiteral l \<Rightarrow> literal_state l | MFork w \<Rightarrow> READING_MATRIX | _ \<Rightarrow> WORKING)"
| "state_after READING_CLAUSE m = (case m of MLiteral l \<Rightarrow> literal_state l | _ \<Rightarrow> WORKING)"
| "state_after WORKING m = WORKING"
| "state_after st m = (case m of MQuantifier l \<Rightarrow> quantifier_state l | _ \<Rightarrow> READING_CLAUSE)"

text \<open>A fork goes on with the parent's input or with the child's.\<close>

definition input_after ::
    "quapi_preload_state \<Rightarrow> quapi_msg \<Rightarrow> byte list \<Rightarrow> fork_outcome list \<Rightarrow> byte list \<times> fork_outcome list" where
  "input_after st m bs fs =
     (case m of
        MFork w \<Rightarrow>
          (if st = WAITING_FOR_HEADER then (bs, fs)
           else (case fs of [] \<Rightarrow> (bs, []) | Fork_Child input # fs' \<Rightarrow> (input, fs') | f # fs' \<Rightarrow> (bs, fs')))
      | _ \<Rightarrow> (bs, fs))"

text \<open>
  The check of the bytes \<open>bs\<close> from the state \<open>st\<close> on. It stops where the runtime reads no further:
  at the end of the pipe, at an unknown message, and once the solver works.
\<close>

function conforms :: "quapi_preload_state \<Rightarrow> byte list \<Rightarrow> fork_outcome list \<Rightarrow> bool" where
  "conforms st bs fs =
     (if length bs < 5 then True
      else
        (case msg_of_arr (take 5 bs) of
           None \<Rightarrow> True
         | Some m \<Rightarrow>
             (let trail = (if msg_type m = MSG_HEADER then header_trail_len else 0);
                  next = input_after st m (drop (5 + trail) bs) fs
              in 5 + trail \<le> length bs \<and> expects st m
                 \<and> (st = WORKING \<or> conforms (state_after st m) (fst next) (snd next)))))"
  by pat_completeness auto

termination
  by (relation "measures [\<lambda>(st, bs, fs). length fs, \<lambda>(st, bs, fs). length bs]")
    (auto simp: input_after_def split: quapi_msg.splits list.splits fork_outcome.splits)

declare conforms.simps [simp del]

text \<open>The check of one message and of the end of the pipe.\<close>

lemma conforms_frame:
  assumes "length u = 4" "msg_ok m"
  shows "conforms st (frame u h m @ bs) fs \<longleftrightarrow> expects st m
    \<and> (st = WORKING \<or> conforms (state_after st m) (fst (input_after st m bs fs)) (snd (input_after st m bs fs)))"
proof -
  have "msg_of_arr (take 5 (frame u h m @ bs)) = Some m" "5 \<le> length (frame u h m)"
    using assms length_frame [of u h m] by (simp_all add: frame_def msg_of_arr_msg_arr)
  moreover have "length (frame u h m) = 5 + (if msg_type m = MSG_HEADER then header_trail_len else 0)"
    using assms(1) by (simp add: frame_def)
  ultimately show ?thesis by (subst conforms.simps) (simp add: Let_def)
qed

lemma conforms_end: "length bs < 5 \<Longrightarrow> conforms st bs fs"
  by (subst conforms.simps) simp

section \<open>What the library writes passes the check\<close>

lemma conforms_literals:
  assumes u: "length u = 4" and c: "lits_ok c"
  shows "conforms READING_CLAUSE (concat (map (frame u h) (map MLiteral c @ [MLiteral 0])) @ bs) fs = conforms READING_MATRIX bs fs"
  using c
proof (induction c)
  case Nil
  then show ?case
    using conforms_frame [OF u, of "MLiteral 0" READING_CLAUSE h bs fs] by (simp add: in32_def input_after_def literal_state_def)
next
  case (Cons l c)
  let ?bs = "concat (map (frame u h) (map MLiteral c @ [MLiteral 0])) @ bs"
  have "msg_ok (MLiteral l)" "l \<noteq> 0" using Cons.prems by (auto simp: lit_ok_def in32_def)
  with conforms_frame [OF u, of "MLiteral l" READING_CLAUSE h ?bs fs] Cons show ?case
    by (simp add: input_after_def literal_state_def)
qed

lemma conforms_clauses:
  assumes u: "length u = 4" and cs: "clauses_ok cs" and st: "st \<in> {READING_PREFIX, READING_EXISTS, READING_FORALL, READING_MATRIX}"
  shows "conforms st (concat (map (frame u h) (clause_msgs cs)) @ bs) fs
    = conforms (if cs = [] then st else READING_MATRIX) bs fs"
  using cs st
proof (induction cs arbitrary: st)
  case (Cons c cs)
  obtain l ls where c: "c = l # ls" using Cons.prems(1) by (cases c) auto
  have l: "lits_ok ls" "l \<noteq> 0" "msg_ok (MLiteral l)" using Cons.prems(1) c by (auto simp: lit_ok_def in32_def)
  let ?bs = "concat (map (frame u h) (clause_msgs cs)) @ bs"
  let ?ls = "concat (map (frame u h) (map MLiteral ls @ [MLiteral 0])) @ ?bs"
  have "state_after st (MLiteral l) = READING_CLAUSE" "expects st (MLiteral l)" "st \<noteq> WORKING"
    using Cons.prems(2) l(2) by (auto simp: literal_state_def)
  then have "conforms st (frame u h (MLiteral l) @ ?ls) fs = conforms READING_CLAUSE ?ls fs"
    using conforms_frame [OF u l(3), of st h ?ls fs] by (simp add: input_after_def)
  also have "\<dots> = conforms READING_MATRIX ?bs fs" by (rule conforms_literals [OF u l(1)])
  also have "\<dots> = conforms READING_MATRIX bs fs" using Cons.IH [of READING_MATRIX] Cons.prems(1) by simp
  finally show ?case by (simp add: c)
qed simp

lemma conforms_quantifiers:
  assumes u: "length u = 4" and qs: "lits_ok qs" and st: "st \<in> {READING_PREFIX, READING_EXISTS, READING_FORALL}"
  shows "\<exists>st' \<in> {READING_PREFIX, READING_EXISTS, READING_FORALL}. (qs = [] \<longrightarrow> st' = st)
    \<and> conforms st (concat (map (frame u h) (map MQuantifier qs)) @ bs) fs = conforms st' bs fs"
  using qs st
proof (induction qs arbitrary: st)
  case (Cons q qs)
  let ?bs = "concat (map (frame u h) (map MQuantifier qs)) @ bs"
  let ?st = "quantifier_state q"
  have q: "q \<noteq> 0" "msg_ok (MQuantifier q)" using Cons.prems(1) by (auto simp: lit_ok_def in32_def)
  have "state_after st (MQuantifier q) = ?st" "expects st (MQuantifier q)" "st \<noteq> WORKING"
    using Cons.prems(2) q(1) by auto
  then have eq: "conforms st (frame u h (MQuantifier q) @ ?bs) fs = conforms ?st ?bs fs"
    using conforms_frame [OF u q(2), of st h ?bs fs] by (simp add: input_after_def)
  have "?st \<in> {READING_PREFIX, READING_EXISTS, READING_FORALL}" by (simp add: quantifier_state_def)
  from Cons.IH [OF _ this] Cons.prems(1) obtain st' where
    st': "st' \<in> {READING_PREFIX, READING_EXISTS, READING_FORALL}" "conforms ?st ?bs fs = conforms st' bs fs" by auto
  have "conforms st (concat (map (frame u h) (map MQuantifier (q # qs))) @ bs) fs = conforms st' bs fs"
    using eq st'(2) by simp
  with st'(1) show ?case by blast
qed auto

lemma conforms_batches:
  assumes u: "length u = 4" and bs: "clauses_ok (batch_clauses bs)" "length fs + 1 = length bs" "parents fs"
    and st: "st \<in> {READING_PREFIX, READING_MATRIX} \<or> st \<in> {READING_EXISTS, READING_FORALL} \<and> fst (hd bs) \<noteq> []"
    and child: "\<And>st. st \<in> {READING_PREFIX, READING_MATRIX} \<Longrightarrow> conforms st child []"
  shows "conforms st (concat (map (frame u h) (batch_msgs bs))) (fs @ [Fork_Child child])"
  using bs st
proof (induction bs arbitrary: st fs)
  case (Cons b bs)
  obtain cs w where b: "b = (cs, w)" by fastforce
  let ?bs = "concat (map (frame u h) (batch_msgs bs))"
  let ?st = "if cs = [] then st else READING_MATRIX"
  let ?fs = "fs @ [Fork_Child child]"
  have cs: "clauses_ok cs" using Cons.prems(1) b by simp
  have st: "?st \<in> {READING_PREFIX, READING_MATRIX}" using Cons.prems(4) b by auto
  have "conforms st (concat (map (frame u h) (clause_msgs cs)) @ frame u h (MFork w) @ ?bs) ?fs
      = conforms ?st (frame u h (MFork w) @ ?bs) ?fs"
    using Cons.prems(4) by (intro conforms_clauses [OF u cs]) auto
  also have "\<dots> = conforms ?st (fst (input_after ?st (MFork w) ?bs ?fs)) (snd (input_after ?st (MFork w) ?bs ?fs))"
  proof -
    have "state_after ?st (MFork w) = ?st" "expects ?st (MFork w)" "?st \<noteq> WORKING" using st by auto
    then show ?thesis using conforms_frame [OF u, of "MFork w" ?st h ?bs ?fs] by simp
  qed
  also have "\<dots>"
  proof (cases fs)
    case Nil
    then show ?thesis using st child [OF st] by (auto simp: input_after_def)
  next
    case f: (Cons f fs')
    then obtain pid s where "f = Fork_Parent pid s" using Cons.prems(3) by (auto simp: parents_def)
    moreover have "conforms ?st ?bs (fs' @ [Fork_Child child])"
      using Cons.prems f b st by (intro Cons.IH) (auto simp: parents_def)
    ultimately show ?thesis using st f by (auto simp: input_after_def)
  qed
  finally show ?case using b by simp
qed simp

text \<open>
  The pipes of a solve, the main one up to its last fork and the child's: the child's stream
  of \<open>Quapi_System\<close> conforms.
\<close>

lemma library_stream_conforms:
  assumes u: "length u = 4" and s: "solvable F"
    and fs: "parents fs" "length fs + 1 = length (fs_batches (fs_fork w F))"
    and main: "main = concat (map (frame u h) (main_msgs d (fs_fork w F)))"
    and child: "child = concat (map (frame u h) (clause_msgs (units (fs_units F)) @ [MSolve]))"
  shows "conforms WAITING_FOR_HEADER main (fs @ [Fork_Child child])"
proof -
  let ?bs = "fs_batches (fs_fork w F)" and ?qs = "given_prefix d (fs_asked F)" and ?fs = "fs @ [Fork_Child child]"
  let ?b = "concat (map (frame u h) (batch_msgs ?bs))"
  let ?q = "concat (map (frame u h) (map MQuantifier ?qs)) @ ?b"
  have F: "fs_clauses (fs_fork w F) = []" "fs_clause (fs_fork w F) = []" "fs_asked (fs_fork w F) = fs_asked F"
    "batch_clauses ?bs = batch_clauses (fs_batches F) @ fs_clauses F"
    using s by (auto simp: solvable_def fs_fork_def batch_clauses_def)
  have bs: "clauses_ok (batch_clauses ?bs)" and as: "clauses_ok (units (fs_units F))" and qs: "lits_ok ?qs"
    using s F by (auto simp: solvable_def lits_ok_given_prefix)
  have "main = frame u h (MHeader QUAPI_API_VERSION) @ ?q" by (simp add: main main_msgs_def F)
  moreover have "conforms WAITING_FOR_HEADER (frame u h (MHeader QUAPI_API_VERSION) @ ?q) ?fs = conforms READING_PREFIX ?q ?fs"
    using conforms_frame [OF u, of "MHeader QUAPI_API_VERSION" WAITING_FOR_HEADER h ?q ?fs]
    by (simp add: input_after_def QUAPI_API_VERSION_def in32_def)
  moreover obtain st where st: "st \<in> {READING_PREFIX, READING_EXISTS, READING_FORALL}" "?qs = [] \<longrightarrow> st = READING_PREFIX"
    "conforms READING_PREFIX ?q ?fs = conforms st ?b ?fs"
    using conforms_quantifiers [OF u qs, of READING_PREFIX h ?b ?fs] by auto
  moreover have "conforms st ?b ?fs"
  proof (rule conforms_batches [OF u bs fs(2,1)])
    have "fs_asked F \<noteq> [] \<Longrightarrow> fst (hd ?bs) \<noteq> []"
      using s by (cases "fs_batches F") (auto simp: solvable_def fs_fork_def split: if_splits)
    moreover have "?qs \<noteq> [] \<longleftrightarrow> fs_asked F \<noteq> []" by (metis length_given_prefix length_0_conv)
    ultimately show "st \<in> {READING_PREFIX, READING_MATRIX} \<or> st \<in> {READING_EXISTS, READING_FORALL} \<and> fst (hd ?bs) \<noteq> []"
      using st(1,2) by auto
    show "conforms st child []" if "st \<in> {READING_PREFIX, READING_MATRIX}" for st
    proof -
      let ?st = "if units (fs_units F) = [] then st else READING_MATRIX"
      have "conforms st child [] = conforms ?st (frame u h MSolve @ []) []"
        using conforms_clauses [OF u as, of st h "frame u h MSolve @ []" "[]"] that by (auto simp: child)
      moreover have "conforms ?st (frame u h MSolve @ []) []"
        by (subst conforms_frame [OF u]) (use that in \<open>auto simp: conforms_end input_after_def\<close>)
      ultimately show ?thesis by simp
    qed
  qed
  ultimately show ?thesis by simp
qed

section \<open>Runs of the states\<close>


definition input_of :: "quapi_runtime \<Rightarrow> byte list \<times> fork_outcome list" where
  "input_of r = (rt_in_stream r, rt_forks r)"

lemma input_updates [simp]:
  "input_of (print_outbuf s r) = input_of r" "input_of (print_outbuf_stack s r) = input_of r" "input_of (print_int sep i sz r) = input_of r"
  "input_of (r\<lparr>rt_state := st\<rparr>) = input_of r" "input_of (r\<lparr>rt_quantifier_count := n\<rparr>) = input_of r"
  "input_of (r\<lparr>rt_filler_clause := f\<rparr>) = input_of r" "input_of (r\<lparr>rt_filler_clause_len := k\<rparr>) = input_of r"
  "input_of (r\<lparr>rt_to_parent := p\<rparr>) = input_of r" "input_of (r\<lparr>rt_written_clauses := w\<rparr>) = input_of r"
  "input_of (r\<lparr>rt_repeat_state := b\<rparr>) = input_of r" "input_of (r\<lparr>rt_outbuf_stack := t\<rparr>) = input_of r"
  "input_of (r\<lparr>rt_outbuf_len := l\<rparr>) = input_of r" "input_of (r\<lparr>rt_stdin_open := c\<rparr>) = input_of r"
  by (simp_all add: input_of_def print_outbuf_def print_outbuf_stack_def print_int_def split: prod.splits)













section \<open>The loops\<close>









section \<open>Reading\<close>





end
