(* ===== verification/Quapi_Log.thy ===== *)
theory Quapi_Log
  imports Quapi_Definitions
begin

text \<open>
  What the program writes on its standard error: \<open>dbg\<close>, \<open>trc\<close> and \<open>err\<close> of \<open>common/src/common.c\<close>,
  \<open>log_cb_stderr\<close> of \<open>lib/src/quapi.c\<close>, the debugging aid \<open>read_and_print\<close> of
  \<open>preload/src/runtime.c\<close>, \<open>message\<close> of \<open>quapify/src/common.c\<close> and \<open>ydbg\<close> and \<open>help\<close> of
  \<open>quapify/src/quapify.c\<close>. \<open>vfprintf\<close> of the C library is an interpreter of the conversions
  these calls use; an argument that is missing or has another type than its conversion is undefined
  behaviour, which is why some states of the runtime have undefined behaviour when they report a
  message they do not expect.
\<close>

section \<open>Formats\<close>

datatype c_arg = Arg_Int int | Arg_Size nat | Arg_Str string | Arg_Pointer nat

definition hex_digit :: "nat \<Rightarrow> char" where
  "hex_digit n = char_of (if n < 10 then 48 + n else 87 + n)"

fun show_hex :: "nat \<Rightarrow> string" where
  "show_hex n = (if n < 16 then [hex_digit n] else show_hex (n div 16) @ [hex_digit (n mod 16)])"

declare show_hex.simps [simp del]

definition conversion :: "string \<Rightarrow> c_arg \<Rightarrow> string option" where
  "conversion spec a =
     (case a of
        Arg_Int i \<Rightarrow> (if spec = ''d'' then Some (show_int i) else if spec = ''c'' then Some [char_of i] else None)
      | Arg_Size n \<Rightarrow> (if spec = ''zu'' then Some (show_nat n) else None)
      | Arg_Str s \<Rightarrow> (if spec = ''s'' then Some s else None)
      | Arg_Pointer n \<Rightarrow>
          (if spec = ''p'' then Some (if n = 0 then ''(nil)'' else ''0x'' @ show_hex n) else None))"

text \<open>The conversion after a per cent sign, and the rest of the format.\<close>

definition next_conversion :: "string \<Rightarrow> string \<times> string" where
  "next_conversion f = (let n = (if take 1 f = ''z'' then 2 else 1) in (take n f, drop n f))"

lemma length_next_conversion: "next_conversion f = (spec, f') \<Longrightarrow> length f' \<le> length f"
  by (auto simp: next_conversion_def Let_def)

function vfprintf :: "string \<Rightarrow> c_arg list \<Rightarrow> string outcome" where
  "vfprintf [] args = Ret []"
| "vfprintf (c # f) args =
     (if c \<noteq> CHR ''%'' then bind_outcome (vfprintf f args) (\<lambda>t. Ret (c # t))
      else
        (let (spec, f') = next_conversion f in
         if spec = ''%'' then bind_outcome (vfprintf f' args) (\<lambda>t. Ret (CHR ''%'' # t))
         else
           (case args of
              [] \<Rightarrow> Undefined_Behaviour
            | a # args' \<Rightarrow>
                (case conversion spec a of
                   None \<Rightarrow> Undefined_Behaviour
                 | Some s \<Rightarrow> bind_outcome (vfprintf f' args') (\<lambda>t. Ret (s @ t))))))"
  by pat_completeness auto
termination
  by (relation "measure (\<lambda>(f, args). length f)") (auto simp: less_Suc_eq_le intro: length_next_conversion sym)

text \<open>A format without conversions is printed as it is, and arguments it does not ask for are not printed.\<close>

lemma vfprintf_text: "CHR ''%'' \<notin> set f \<Longrightarrow> vfprintf f args = Ret f"
  by (induction f) auto

lemma vfprintf_append: "CHR ''%'' \<notin> set f \<Longrightarrow> vfprintf (f @ g) args = bind_outcome (vfprintf g args) (\<lambda>t. Ret (f @ t))"
  by (induction f) (auto, (cases "vfprintf g args"; simp)+)

lemma vfprintf_string: "vfprintf (''%s'' @ f) (Arg_Str s # args) = bind_outcome (vfprintf f args) (\<lambda>t. Ret (s @ t))"
  by (simp add: next_conversion_def conversion_def)

lemma vfprintf_string_of_int: "vfprintf (''%s'' @ f) (Arg_Int i # args) = Undefined_Behaviour"
  by (simp add: next_conversion_def conversion_def)

section \<open>The log\<close>

text \<open>
  A process and its standard error; \<open>le_debug\<close> and \<open>le_trace\<close> are the static variables of
  \<open>quapi_check_debug\<close> and \<open>quapi_check_trace\<close>.
\<close>

record log_env =
  le_stderr :: string
  le_pid :: int
  le_debug :: int
  le_trace :: int
  le_debug_var :: "string option"         \<comment> \<open>\<open>getenv ("QUAPI_DEBUG")\<close>\<close>
  le_trace_var :: "string option"

definition print_line :: "string \<Rightarrow> string \<Rightarrow> c_arg list \<Rightarrow> log_env \<Rightarrow> log_env outcome" where
  "print_line start format args e =
     bind_outcome (vfprintf format args) (\<lambda>t. Ret (e\<lparr>le_stderr := le_stderr e @ start @ t @ [NL]\<rparr>))"

definition log_line :: "string \<Rightarrow> string \<Rightarrow> c_arg list \<Rightarrow> log_env \<Rightarrow> log_env outcome" where
  "log_line start_format format args e =
     bind_outcome (vfprintf start_format [Arg_Int (le_pid e)]) (\<lambda>start. print_line start format args e)"

definition dbg :: "string \<Rightarrow> c_arg list \<Rightarrow> log_env \<Rightarrow> log_env outcome" where
  "dbg format args e =
     (let (on, d) = quapi_check_debug (le_debug e) (le_debug_var e); e' = e\<lparr>le_debug := d\<rparr> in
      if on then log_line ''[QuAPI] [DEBUG] [%d] '' format args e' else Ret e')"

definition trc :: "string \<Rightarrow> c_arg list \<Rightarrow> log_env \<Rightarrow> log_env outcome" where
  "trc format args e =
     (let (on, t) = quapi_check_trace (le_trace e) (le_trace_var e); e' = e\<lparr>le_trace := t\<rparr> in
      if on then log_line ''[QuAPI] [TRACE] [%d] '' format args e' else Ret e')"

definition err :: "string \<Rightarrow> c_arg list \<Rightarrow> log_env \<Rightarrow> log_env outcome" where
  "err format args e = log_line ''[QuAPI] [ERROR] [%d] '' format args e"

definition log_cb_stderr :: "string \<Rightarrow> log_env \<Rightarrow> log_env outcome" where
  "log_cb_stderr msg e = print_line [] ''[QuAPI] [LOG] %s'' [Arg_Str msg] e"

text \<open>\<open>read_and_print\<close>: every character is reported; \<open>error\<close> is what \<open>strerror\<close> says at the end.\<close>

fun read_and_print :: "string \<Rightarrow> string \<Rightarrow> log_env \<Rightarrow> log_env outcome" where
  "read_and_print error [] e = dbg ''Stopped reading, error: %s'' [Arg_Str error] e"
| "read_and_print error (c # cs) e =
     bind_outcome (dbg (''Reading: '' @ [CHR 0x22] @ ''%c'' @ [CHR 0x22]) [Arg_Int (of_char c)] e)
       (read_and_print error cs)"

section \<open>Quapify\<close>

text \<open>\<open>option_verbose\<close> is the flag that \<open>-v\<close> sets.\<close>

definition print_message :: "string \<Rightarrow> c_arg list \<Rightarrow> log_env \<Rightarrow> log_env outcome" where
  "print_message fmt args e = print_line ''c '' fmt args e"

definition message :: "bool \<Rightarrow> string \<Rightarrow> c_arg list \<Rightarrow> log_env \<Rightarrow> log_env outcome" where
  "message option_verbose fmt args e = (if \<not> option_verbose then Ret e else print_message fmt args e)"

definition print_ydbg :: "string \<Rightarrow> c_arg list \<Rightarrow> log_env \<Rightarrow> log_env outcome" where
  "print_ydbg fmt args e = print_line ''[QUAPIFY] '' fmt args e"

definition ydbg :: "bool \<Rightarrow> string \<Rightarrow> c_arg list \<Rightarrow> log_env \<Rightarrow> log_env outcome" where
  "ydbg option_verbose fmt args e = (if \<not> option_verbose then Ret e else print_ydbg fmt args e)"

text \<open>The lines of \<open>help\<close>.\<close>

definition help_lines :: "string list" where
  "help_lines =
     [''quapify - Apply assumptions to (non-assuming) SAT or QBF solvers'',
      ''  (c) 2022 Maximilian Heisinger <maximilian.heisinger@jku.at> <mail@maxheisinger.at>,'',
      ''           Martina Seidl <martina.seidl@jku.at>,'',
      ''           Armin Biere <biere@gmail.com>'',
      ''  Uses the Kissat DIMACS parser (MIT licensed), extended to QBF.'',
      [],
      ''USAGE:'',
      ''  quapify <input formula> [OPTIONS] -- solver [solver args]:'',
      ''OPTIONS:'',
      ''  -p'' @ [TAB] @ [TAB] @ ''print whole assumption, not just its index'',
      ''  -v'' @ [TAB] @ [TAB] @ ''verbose output'',
      ''  -d'' @ [TAB] @ [TAB] @ ''enable QuAPI debug using QUAPI_DEBUG envvar'',
      ''  -t'' @ [TAB] @ [TAB] @ ''enable QuAPI trace using QUAPI_TRACE envvar'',
      ''  -r'' @ [TAB] @ [TAB] @ ''set parsing to relaxed (default is normal)'',
      ''  -s'' @ [TAB] @ [TAB] @ ''set parsing to strict/pedantic (default is normal)'',
      ''  -a <int>+'' @ [TAB] @ ''add an explicit assumption to be computed'',
      ''  -i <int>'' @ [TAB] @ ''add an integer-split-based collection of assumptions'',
      ''  -I <int>'' @ [TAB] @ ''select only the I'' @ [CHR 0x27] @ ''th assumption to be solved'',
      ''  -S'' @ [TAB] @ [TAB] @ ''stringify results (to SAT, UNSAT or UNKNOWN)'',
      ''  -H'' @ [TAB] @ [TAB] @ ''print header for output table'',
      ''  -W'' @ [TAB] @ [TAB] @ ''wrap assumption in '' @ [CHR 0x22] @ [CHR 0x22],
      ''  -g'' @ [TAB] @ [TAB] @ ''just generate a list of assumptions without solving'',
      ''OUTPUT FORMAT:'',
      ''  Space separated fields: SOLVERSTATUS SOLVETIME[s] ASSUMPTION'',
      ''EXAMPLES:'',
      ''  ./quapify input.cnf -a 1 -a -1 -- ./solver --cnf'',
      ''  ./quapify input.cnf -a 1 0 -1 0 -- ./solver --cnf'']"

definition quapify_help :: "log_env \<Rightarrow> log_env" where
  "quapify_help e = e\<lparr>le_stderr := le_stderr e @ concat (map (\<lambda>l. l @ [NL]) help_lines)\<rparr>"

section \<open>What is logged\<close>

lemma log_start:
  "vfprintf ''[QuAPI] [DEBUG] [%d] '' [Arg_Int i] = Ret (''[QuAPI] [DEBUG] ['' @ show_int i @ ''] '')"
  "vfprintf ''[QuAPI] [TRACE] [%d] '' [Arg_Int i] = Ret (''[QuAPI] [TRACE] ['' @ show_int i @ ''] '')"
  "vfprintf ''[QuAPI] [ERROR] [%d] '' [Arg_Int i] = Ret (''[QuAPI] [ERROR] ['' @ show_int i @ ''] '')"
  by (simp_all add: next_conversion_def conversion_def)

text \<open>Without the variable at its first call \<open>dbg\<close> and \<open>trc\<close> stay silent, even on ill-typed arguments.\<close>

lemma quiet_log:
  assumes "le_debug e = -1" "le_debug_var e = None" "le_trace e = -1" "le_trace_var e = None"
  shows "dbg f args e = Ret (e\<lparr>le_debug := 0\<rparr>)" "trc f args e = Ret (e\<lparr>le_trace := 0\<rparr>)"
    "dbg f args (e\<lparr>le_debug := 0, le_debug_var := x\<rparr>) = Ret (e\<lparr>le_debug := 0, le_debug_var := x\<rparr>)"
  using assms by (simp_all add: dbg_def trc_def quapi_check_debug_def quapi_check_trace_def)

lemma err_line:
  "vfprintf f args = Ret t \<Longrightarrow>
   err f args e = Ret (e\<lparr>le_stderr := le_stderr e @ ''[QuAPI] [ERROR] ['' @ show_int (le_pid e) @ ''] '' @ t @ [NL]\<rparr>)"
  "vfprintf f args = Undefined_Behaviour \<Longrightarrow> err f args e = Undefined_Behaviour"
  unfolding err_def log_line_def print_line_def log_start by simp_all

text \<open>
  The report of an unexpected message in the states that name its type as a number, and the report of the
  states that name it as a string.
\<close>

lemma invalid_type_report:
  assumes "CHR ''%'' \<notin> set f" "CHR ''%'' \<notin> set g"
  shows "err (f @ ''%s'' @ g) [Arg_Int (msg_type_code t)] e = Undefined_Behaviour"
    "err (f @ ''%s'' @ g) [Arg_Str (quapi_msg_type_str t)] e =
       Ret (e\<lparr>le_stderr := le_stderr e @ ''[QuAPI] [ERROR] ['' @ show_int (le_pid e) @ ''] '' @
         f @ quapi_msg_type_str t @ g @ [NL]\<rparr>)"
proof -
  show "err (f @ ''%s'' @ g) [Arg_Int (msg_type_code t)] e = Undefined_Behaviour"
    by (rule err_line) (simp only: vfprintf_append [OF assms(1)] vfprintf_string_of_int bind_outcome.simps)
  have "vfprintf (f @ ''%s'' @ g) [Arg_Str (quapi_msg_type_str t)] = Ret (f @ quapi_msg_type_str t @ g)"
    by (simp only: vfprintf_append [OF assms(1)] vfprintf_string vfprintf_text [OF assms(2)] bind_outcome.simps)
  from err_line(1) [OF this] show "err (f @ ''%s'' @ g) [Arg_Str (quapi_msg_type_str t)] e =
       Ret (e\<lparr>le_stderr := le_stderr e @ ''[QuAPI] [ERROR] ['' @ show_int (le_pid e) @ ''] '' @
         f @ quapi_msg_type_str t @ g @ [NL]\<rparr>)" by simp
qed

end
