(* ===== verification/Quapi_Start_Examples.thy ===== *)
theory Quapi_Start_Examples
  imports Quapi_Descriptors Quapi_Progress Quapi_Log Quapi_Examples
begin

text \<open>
  The properties of the descriptors and of the runtime's reads at concrete inputs: a client with the
  three standard descriptors, and the pipes of a small solve.
\<close>

section \<open>Descriptors\<close>

definition demo_table :: fd_table where
  "demo_table = [Some (Other_File 0), Some (Other_File 1), Some (Other_File 2)]"

definition demo_fds :: solver_fds where
  "demo_fds = \<lparr>sf_read_pipe = (3, 4), sf_write_pipe = (5, 6), sf_child_read_pipe = (7, 8),
     sf_child_write_pipe = (9, 10), sf_message_pipe = (11, 12)\<rparr>"

definition demo_opened :: fd_table where
  "demo_opened = demo_table @ map Some (pipe_ends 0)"

definition demo_pipes_env :: init_env where
  "demo_pipes_env = demo_env\<lparr>env_pipes := header_pipes demo_fds\<rparr>"

definition demo_child :: fd_table where
  "demo_child = [Some (Read_End 0), Some (Write_End 1), Some (Other_File 2), None, None, None, None,
     Some (Read_End 2), None, None, Some (Write_End 3), Some (Read_End 4), Some (Write_End 4)]"

lemma demo_pipes_opened: "pipes_opened 0 demo_table demo_fds demo_opened"
  by (simp add: pipes_opened_def open_pipes_def sys_pipe_def demo_table_def demo_opened_def demo_fds_def pipe_ends_def
      unused_def holds_file_def lookup_def stdin_fd_def stdout_fd_def)

lemma demo_child_table: "fork_and_exec_child True c demo_fds demo_opened =
    Ret ((executable_path c, executable_argv c, executable_envp c), demo_child)"
  by (simp add: fork_and_exec_child_def demo_opened_def demo_table_def demo_fds_def pipe_ends_def demo_child_def
      sys_close_def sys_dup2_def lookup_def stdin_fd_def stdout_fd_def numeral_eq_Suc)

abbreviation (input) demo_pipes_header :: quapi_msg_header_data where
  "demo_pipes_header \<equiv> sv_header (snd (fork_and_exec demo_pipes_env (demo_solver demo_formula QUAPI_INPUT)))"

abbreviation (input) demo_config :: quapi_config where
  "demo_config \<equiv> config (demo_solver demo_formula QUAPI_INPUT)"

lemma demo_pipes [simp]: "env_pipes demo_pipes_env = header_pipes demo_fds"
  by (simp add: demo_pipes_env_def)

theorem solver_process_wired_witness:
  "\<exists>prog tc tp. fork_and_exec_child True demo_config demo_fds demo_opened = Ret (prog, tc)
    \<and> tp = fork_and_exec_parent demo_fds demo_opened
    \<and> lookup tc stdin_fd = Some (Read_End 0)
    \<and> lookup tp (nat (forked_child_read_pipe_w demo_pipes_header)) = Some (Write_End 2)
    \<and> pipe_read (fcntl_output demo_fds demo_opened) 0 [] [tp, tc] = Read_Blocks"
  using solver_process_wired [where c = demo_config and s = "demo_solver demo_formula QUAPI_INPUT",
      OF demo_pipes_opened demo_child_table refl demo_pipes refl] demo_child_table [of demo_config]
  by (simp add: numeral_2_eq_2)

theorem solving_child_wired_witness:
  "\<exists>ts. ts = solving_child_fds demo_pipes_header demo_child \<and> lookup ts stdin_fd = Some (Read_End 2)
    \<and> pipe_read (fcntl_output demo_fds demo_opened) 2 [] [fork_and_exec_parent demo_fds demo_opened, demo_child, ts] = Read_Blocks"
  using solving_child_wired [where c = demo_config and s = "demo_solver demo_formula QUAPI_INPUT",
      OF demo_pipes_opened demo_child_table refl demo_pipes refl refl]
  by (simp add: numeral_2_eq_2)

theorem missing_report_blocks_witness:
  "pipe_read (fcntl_output demo_fds demo_opened) 4 [] [fork_and_exec_parent demo_fds demo_opened] = Read_Blocks
    \<and> pipe_read (fcntl_output demo_fds demo_opened) 3 [] [fork_and_exec_parent demo_fds demo_opened, demo_child] = Read_Again
    \<and> poll_empty_pipe 3 [fork_and_exec_parent demo_fds demo_opened, demo_child] = None"
  using missing_report_blocks [where c = demo_config, OF demo_pipes_opened demo_child_table refl] by simp

theorem release_leaks_descriptors_witness:
  "\<exists>d t'. start_descriptors demo_env 0 0 demo_table = (Some d, t')
    \<and> leaks 4 demo_table (release_descriptors (Some (fst d)) (snd d) t')"
proof -
  obtain eventfd t1 where 1: "new_fd Event_Counter demo_table = (eventfd, t1)" by fastforce
  obtain d t2 where 2: "open_pipes 0 t1 = (d, t2)" by fastforce
  have start: "start_descriptors demo_env 0 0 demo_table = (Some (d, eventfd), fork_and_exec_parent d t2)"
    using demo_started 1 2 by (simp add: start_descriptors_def setup_eventfd_def demo_env_def)
  from release_leaks_descriptors [OF this] start show ?thesis
    by (auto simp: demo_env_def)
qed

section \<open>Reads of the runtime\<close>





end
