(* ===== verification/Quapi_Zerocopy.thy ===== *)
theory Quapi_Zerocopy
  imports Quapi_Message
begin

text \<open>
  The zero-copy pipe of \<open>common/src/zero-copy-pipes-linux.c\<close>, the alternative to
  \<open>FILE\<close> for the streams of the library and the runtime. A buffer is a counter of
  written bytes and the bytes after it; the writer fills one of two buffers in place and
  gives it to the pipe as a whole, the reader gets whole buffers. The code relies on the
  reader having taken a buffer out of the pipe before the writer fills it again; a
  buffer on the pipe is its contents when it was flushed.

  The theory ends with the interpretations of \<open>record_sink\<close> and \<open>record_source\<close>: a
  message is never split over two buffers, which is what the reader asserts. What a read
  returns points into a mapping made with \<open>PROT_READ\<close>: its user must not write there, but the
  reading of a header message does (C9).
\<close>

section \<open>State\<close>

definition buf_size :: nat where "buf_size = 2 ^ 16"

definition counter_size :: nat where "counter_size = 8"

record zc_buf =
  zc_written :: nat
  zc_data :: "byte list"

record zc_out =
  zo_buf :: "zc_buf list"
  zo_current :: nat
  zo_prepared :: "(nat \<times> nat) option"    \<comment> \<open>a buffer and an offset into its bytes\<close>
  zo_pipe :: "zc_buf list"
  zo_epipe :: bool

record zc_in =
  zi_buf :: zc_buf
  zi_read_pos :: nat
  zi_pipe :: "zc_buf list"

definition mode_contains_read :: "string \<Rightarrow> bool" where
  "mode_contains_read mode = (CHR ''r'' \<in> set mode)"

definition empty_buf :: "byte list \<Rightarrow> zc_buf" where
  "empty_buf memory = \<lparr>zc_written = 0, zc_data = memory\<rparr>"

text \<open>
  \<open>quapi_zerocopy_pipe_fdopen\<close> with the memory its two allocations give, or the pipe to
  read; a mode with an \<open>r\<close> opens for reading.
\<close>

definition quapi_zerocopy_pipe_fdopen ::
    "string \<Rightarrow> byte list \<Rightarrow> byte list \<Rightarrow> zc_buf list \<Rightarrow> zc_in + zc_out" where
  "quapi_zerocopy_pipe_fdopen mode mem0 mem1 bufs =
     (if mode_contains_read mode
      then Inl \<lparr>zi_buf = empty_buf [], zi_read_pos = 0, zi_pipe = bufs\<rparr>
      else Inr \<lparr>zo_buf = [empty_buf mem0, empty_buf mem1], zo_current = 0, zo_prepared = None,
                 zo_pipe = [], zo_epipe = False\<rparr>)"

section \<open>Writing\<close>

abbreviation current_buf :: "zc_out \<Rightarrow> zc_buf" where
  "current_buf p \<equiv> zo_buf p ! zo_current p"

definition update_current :: "(zc_buf \<Rightarrow> zc_buf) \<Rightarrow> zc_out \<Rightarrow> zc_out" where
  "update_current f p = p\<lparr>zo_buf := (zo_buf p)[zo_current p := f (current_buf p)]\<rparr>"

text \<open>\<open>flush_out\<close>: the number of bytes, \<open>-2\<close> when nobody reads.\<close>

definition flush_out :: "zc_out \<Rightarrow> (int \<times> zc_out) outcome" where
  "flush_out p =
     (if zc_written (current_buf p) > buf_size then Exited 1
      else if zo_epipe p then Ret (-2, p)
      else
        (let p1 = p\<lparr>zo_pipe := zo_pipe p @ [current_buf p], zo_current := (zo_current p + 1) mod 2\<rparr>
         in Ret (int buf_size, update_current (\<lambda>b. b\<lparr>zc_written := 0\<rparr>) p1)))"

definition quapi_zerocopy_pipe_flush :: "zc_out \<Rightarrow> zc_out outcome" where
  "quapi_zerocopy_pipe_flush p =
     (if zc_written (current_buf p) > 0
      then bind_outcome (flush_out p) (\<lambda>(n, p'). Ret p') else Ret p)"

definition ensure_space_free :: "nat \<Rightarrow> zc_out \<Rightarrow> (bool \<times> zc_out) outcome" where
  "ensure_space_free effective_size p =
     (if zc_written (current_buf p) + effective_size + counter_size \<ge> buf_size
      then bind_outcome (flush_out p) (\<lambda>(s, p'). Ret (s = int buf_size, p'))
      else Ret (True, p))"

text \<open>
  The data of a write lies at an address in a buffer, or elsewhere in memory. Bytes that
  are where \<open>prepared\<close> points are only counted.
\<close>

datatype zc_source = In_Buffer nat nat nat | In_Memory "byte list"

fun source_size :: "zc_source \<Rightarrow> nat" where
  "source_size (In_Buffer b off n) = n"
| "source_size (In_Memory bs) = length bs"

fun source_bytes :: "zc_out \<Rightarrow> zc_source \<Rightarrow> byte list" where
  "source_bytes p (In_Buffer b off n) = peek (zc_data (zo_buf p ! b)) off n"
| "source_bytes p (In_Memory bs) = bs"

fun is_prepared :: "zc_out \<Rightarrow> zc_source \<Rightarrow> bool" where
  "is_prepared p (In_Buffer b off n) = (zo_prepared p = Some (b, off))"
| "is_prepared p (In_Memory bs) = False"

definition quapi_zerocopy_pipe_write :: "zc_source \<Rightarrow> zc_out \<Rightarrow> (int \<times> zc_out) outcome" where
  "quapi_zerocopy_pipe_write data p =
     (let effective_size = source_size data in
      bind_outcome (ensure_space_free effective_size p)
        (\<lambda>(ok, p1).
           if \<not> ok then Ret (-1, p1)
           else
             (let p2 = (if is_prepared p1 data
                        then p1\<lparr>zo_prepared := map_option (\<lambda>(b, off). (b, off + effective_size)) (zo_prepared p1)\<rparr>
                        else update_current (\<lambda>b. b\<lparr>zc_data := poke (zc_data b) (zc_written b) (source_bytes p1 data)\<rparr>) p1)
              in Ret (1, update_current (\<lambda>b. b\<lparr>zc_written := zc_written b + effective_size\<rparr>) p2))))"

definition quapi_zerocopy_pipe_prepare_write :: "nat \<Rightarrow> zc_out \<Rightarrow> ((nat \<times> nat) option \<times> zc_out) outcome" where
  "quapi_zerocopy_pipe_prepare_write effective_size p =
     bind_outcome (ensure_space_free effective_size p)
       (\<lambda>(ok, p1).
          if \<not> ok then Ret (None, p1)
          else
            (let a = (zo_current p1, zc_written (current_buf p1)) in
             Ret (Some a, p1\<lparr>zo_prepared := Some a\<rparr>)))"

text \<open>Storing the bytes of a message at an address in a buffer.\<close>

definition store_at :: "nat \<times> nat \<Rightarrow> byte list \<Rightarrow> zc_out \<Rightarrow> zc_out" where
  "store_at a bs p =
     (let (b, off) = a; x = zo_buf p ! b in
      p\<lparr>zo_buf := (zo_buf p)[b := x\<lparr>zc_data := poke (zc_data x) off bs\<rparr>]\<rparr>)"

text \<open>
  \<open>QUAPI_GIVE_MSGS\<close>, the assignments to the message and the write: the message is built in
  the buffer. A null pointer from a failed preparation is written through.
\<close>

definition write_prepared :: "zc_out \<Rightarrow> byte list \<Rightarrow> (int \<times> zc_out) outcome" where
  "write_prepared p bs =
     bind_outcome (quapi_zerocopy_pipe_prepare_write (length bs) p)
       (\<lambda>(a, p1). case a of
          None \<Rightarrow> Undefined_Behaviour
        | Some (b, off) \<Rightarrow>
            quapi_zerocopy_pipe_write (In_Buffer b off (length bs)) (store_at (b, off) bs p1))"

section \<open>Reading\<close>

definition flush_read :: "zc_in \<Rightarrow> bool \<times> zc_in" where
  "flush_read p =
     (case zi_pipe p of
        [] \<Rightarrow> (False, p)
      | b # bs \<Rightarrow> (True, p\<lparr>zi_buf := b, zi_pipe := bs\<rparr>))"

definition quapi_zerocopy_pipe_read :: "nat \<Rightarrow> zc_in \<Rightarrow> (byte list option \<times> zc_in) outcome" where
  "quapi_zerocopy_pipe_read sz p =
     (let give = (\<lambda>p. Ret (Some (peek (zc_data (zi_buf p)) (zi_read_pos p) sz),
                           p\<lparr>zi_read_pos := zi_read_pos p + sz\<rparr>))
      in if zi_read_pos p + sz > zc_written (zi_buf p) then
           (if zi_read_pos p \<noteq> zc_written (zi_buf p) then Assert_Failed
            else
              (let (ok, p1) = flush_read p in
               if \<not> ok then Ret (None, p1)
               else if zc_written (zi_buf p1) > buf_size then Exited 1
               else give (p1\<lparr>zi_read_pos := 0\<rparr>)))
         else give p)"

section \<open>Closing\<close>

text \<open>
  What \<open>quapi_zerocopy_pipe_close\<close> gives back; \<open>current_read_memfd\<close> is the descriptor of the
  reader's memory file. A writer's buffers are freed with the bytes that were not flushed, and the
  descriptor of the pipe stays open on both sides.
\<close>

datatype zc_resource = Zc_Mapping | Zc_Memfd int | Zc_Memory nat | Zc_Pipe

definition quapi_zerocopy_pipe_close :: "int \<Rightarrow> (zc_in + zc_out) option \<Rightarrow> zc_resource list" where
  "quapi_zerocopy_pipe_close current_read_memfd pipe =
     (case pipe of
        None \<Rightarrow> []
      | Some (Inl r) \<Rightarrow> [Zc_Mapping] @ (if current_read_memfd \<noteq> 0 then [Zc_Memfd current_read_memfd] else []) @ [Zc_Pipe]
      | Some (Inr w) \<Rightarrow> map Zc_Memory [0..<length (zo_buf w)] @ [Zc_Pipe])"

lemma close_opened_writer:
  "quapi_zerocopy_pipe_fdopen mode mem0 mem1 bufs = Inr p \<Longrightarrow>
   quapi_zerocopy_pipe_close fd (Some (Inr p)) = [Zc_Memory 0, Zc_Memory 1, Zc_Pipe]"
  by (auto simp: quapi_zerocopy_pipe_fdopen_def quapi_zerocopy_pipe_close_def split: if_splits)

section \<open>Records in buffers\<close>

text \<open>A buffer holds the records \<open>rs\<close>, none of them empty.\<close>

definition buf_holds :: "zc_buf \<Rightarrow> byte list list \<Rightarrow> bool" where
  "buf_holds b rs \<longleftrightarrow> zc_written b = length (concat rs) \<and> zc_written b + counter_size \<le> buf_size
     \<and> length (zc_data b) = buf_size - counter_size \<and> peek (zc_data b) 0 (zc_written b) = concat rs
     \<and> [] \<notin> set rs"

definition zo_wf :: "zc_out \<Rightarrow> bool" where
  "zo_wf p \<longleftrightarrow> length (zo_buf p) = 2 \<and> zo_current p < 2
     \<and> (\<forall>b \<in> set (zo_buf p). length (zc_data b) = buf_size - counter_size)"

text \<open>Each buffer on the pipe holds some of the records, and the current one the rest.\<close>

definition zo_holds :: "zc_out \<Rightarrow> byte list list \<Rightarrow> bool" where
  "zo_holds p rs \<longleftrightarrow> zo_wf p \<and> \<not> zo_epipe p
     \<and> (\<exists>rss cur. rs = concat rss @ cur \<and> list_all2 buf_holds (zo_pipe p) rss \<and> [] \<notin> set rss
          \<and> buf_holds (current_buf p) cur)"

definition zo_arrived :: "zc_out \<Rightarrow> byte list list \<Rightarrow> bool" where
  "zo_arrived p rs \<longleftrightarrow> (\<exists>rss. rs = concat rss \<and> list_all2 buf_holds (zo_pipe p) rss \<and> [] \<notin> set rss)"

definition zi_carries :: "zc_in \<Rightarrow> byte list list \<Rightarrow> bool" where
  "zi_carries p rs \<longleftrightarrow>
     (\<exists>rss cur. rs = cur @ concat rss \<and> list_all2 buf_holds (zi_pipe p) rss \<and> [] \<notin> set rss
        \<and> [] \<notin> set cur \<and> zi_read_pos p + length (concat cur) = zc_written (zi_buf p)
        \<and> peek (zc_data (zi_buf p)) (zi_read_pos p) (length (concat cur)) = concat cur)"

definition zc_fits :: "nat \<Rightarrow> bool" where
  "zc_fits n \<longleftrightarrow> 0 < n \<and> n + counter_size < buf_size"

section \<open>The writer keeps the contract\<close>

lemma peek_poke_before: "i + n \<le> off \<Longrightarrow> off \<le> length mem \<Longrightarrow> peek (poke mem off xs) i n = peek mem i n"
  by (simp add: peek_def poke_def drop_take)

lemma buf_holds_Nil: "length (zc_data b) = buf_size - counter_size \<Longrightarrow> buf_holds (b\<lparr>zc_written := 0\<rparr>) []"
  by (simp add: buf_holds_def buf_size_def counter_size_def)

lemma buf_holds_add:
  assumes "buf_holds b cur" "r \<noteq> []" "zc_written b + length r + counter_size < buf_size"
  shows "buf_holds (b\<lparr>zc_data := poke (zc_data b) (zc_written b) r, zc_written := zc_written b + length r\<rparr>) (cur @ [r])"
proof -
  have l: "zc_written b + length r \<le> length (zc_data b)" using assms by (simp add: buf_holds_def)
  then have "peek (poke (zc_data b) (zc_written b) r) 0 (zc_written b + length r)
      = peek (zc_data b) 0 (zc_written b) @ r"
    by (simp add: peek_add peek_poke_before peek_poke_same)
  with assms l show ?thesis by (auto simp: buf_holds_def length_poke)
qed

lemma flush_out_holds:
  assumes h: "zo_holds p rs" and w: "zc_written (current_buf p) > 0"
  shows "\<exists>p'. flush_out p = Ret (int buf_size, p') \<and> zo_holds p' rs \<and> zc_written (current_buf p') = 0
    \<and> zo_arrived p' rs"
proof -
  obtain rss cur where r: "rs = concat rss @ cur" "list_all2 buf_holds (zo_pipe p) rss" "[] \<notin> set rss"
    "buf_holds (current_buf p) cur" and wf: "zo_wf p" "\<not> zo_epipe p"
    using h by (auto simp: zo_holds_def)
  let ?c = "(zo_current p + 1) mod 2"
  let ?b = "(zo_buf p ! ?c)\<lparr>zc_written := 0\<rparr>"
  let ?p = "p\<lparr>zo_pipe := zo_pipe p @ [current_buf p], zo_current := ?c, zo_buf := (zo_buf p)[?c := ?b]\<rparr>"
  have c: "?c < length (zo_buf p)" using wf by (simp add: zo_wf_def)
  have "\<not> zc_written (current_buf p) > buf_size" using r(4) by (simp add: buf_holds_def)
  then have "flush_out p = Ret (int buf_size, ?p)"
    using wf by (simp add: flush_out_def update_current_def Let_def)
  moreover have b: "buf_holds ?b []" using wf c by (intro buf_holds_Nil) (simp add: zo_wf_def)
  have "zo_wf ?p" using wf c b by (auto simp: zo_wf_def buf_holds_def dest!: set_update_subset_insert [THEN subsetD])
  have cur: "cur \<noteq> []" using r(4) w by (auto simp: buf_holds_def)
  have all: "list_all2 buf_holds (zo_pipe ?p) (rss @ [cur])"
    using r(2,4) by (simp add: list_all2_appendI)
  have "zo_holds ?p rs"
    unfolding zo_holds_def using \<open>zo_wf ?p\<close> wf r cur b c all
    by (intro conjI exI [of _ "rss @ [cur]"] exI [of _ "[]"]) auto
  moreover have "zo_arrived ?p rs"
    unfolding zo_arrived_def using r cur all by (intro exI [of _ "rss @ [cur]"]) auto
  ultimately show ?thesis using c by (intro exI [of _ ?p]) simp
qed

lemma ensure_space_free_holds:
  assumes h: "zo_holds p rs" and n: "zc_fits n"
  shows "\<exists>p'. ensure_space_free n p = Ret (True, p') \<and> zo_holds p' rs
    \<and> zc_written (current_buf p') + n + counter_size < buf_size"
proof (cases "zc_written (current_buf p) + n + counter_size \<ge> buf_size")
  case False
  then show ?thesis using h by (simp add: ensure_space_free_def)
next
  case True
  then have "zc_written (current_buf p) > 0" using n by (simp add: zc_fits_def)
  from flush_out_holds [OF h this] True n show ?thesis
    by (auto simp: ensure_space_free_def zc_fits_def)
qed

text \<open>A state in which one more record was put at the end of the current buffer.\<close>

lemma zo_holds_add:
  assumes h: "zo_holds p rs" and r: "r \<noteq> []" "zc_written (current_buf p) + length r + counter_size < buf_size"
    and q: "zo_buf q = (zo_buf p)[zo_current p := (current_buf p)\<lparr>zc_data := poke (zc_data (current_buf p)) (zc_written (current_buf p)) r,
        zc_written := zc_written (current_buf p) + length r\<rparr>]"
      "zo_current q = zo_current p" "zo_pipe q = zo_pipe p" "zo_epipe q = zo_epipe p"
  shows "zo_holds q (rs @ [r])"
proof -
  obtain rss cur where c: "rs = concat rss @ cur" "list_all2 buf_holds (zo_pipe p) rss" "[] \<notin> set rss"
    "buf_holds (current_buf p) cur" and wf: "zo_wf p" "\<not> zo_epipe p"
    using h by (auto simp: zo_holds_def)
  have l: "zo_current p < length (zo_buf p)" using wf by (simp add: zo_wf_def)
  have b: "buf_holds (current_buf q) (cur @ [r])"
    using buf_holds_add [OF c(4) r] q l by simp
  then have "zo_wf q"
    using wf q l by (auto simp: zo_wf_def buf_holds_def dest!: set_update_subset_insert [THEN subsetD])
  with b q c wf show ?thesis
    unfolding zo_holds_def by (intro conjI exI [of _ rss] exI [of _ "cur @ [r]"]) auto
qed

lemma write_copied_holds:
  assumes h: "zo_holds p rs" and n: "zc_fits (length r)"
  shows "\<exists>p'. quapi_zerocopy_pipe_write (In_Memory r) p = Ret (1, p') \<and> zo_holds p' (rs @ [r])"
proof -
  from ensure_space_free_holds [OF h n] obtain p1 where e: "ensure_space_free (length r) p = Ret (True, p1)"
    "zo_holds p1 rs" "zc_written (current_buf p1) + length r + counter_size < buf_size" by blast
  let ?c = "current_buf p1"
  let ?p = "update_current (\<lambda>b. b\<lparr>zc_written := zc_written b + length r\<rparr>)
      (update_current (\<lambda>b. b\<lparr>zc_data := poke (zc_data b) (zc_written b) r\<rparr>) p1)"
  have l: "zo_current p1 < length (zo_buf p1)" using e(2) by (simp add: zo_holds_def zo_wf_def)
  have "r \<noteq> []" using n by (auto simp: zc_fits_def)
  then have "zo_holds ?p (rs @ [r])"
    by (rule zo_holds_add [OF e(2) _ e(3)]) (use l in \<open>simp_all add: update_current_def\<close>)
  then show ?thesis using e(1) by (simp add: quapi_zerocopy_pipe_write_def)
qed

lemma write_prepared_holds:
  assumes h: "zo_holds p rs" and n: "zc_fits (length r)"
  shows "\<exists>p'. write_prepared p r = Ret (1, p') \<and> zo_holds p' (rs @ [r])"
proof -
  from ensure_space_free_holds [OF h n] obtain p1 where e: "ensure_space_free (length r) p = Ret (True, p1)"
    "zo_holds p1 rs" "zc_written (current_buf p1) + length r + counter_size < buf_size" by blast
  let ?c = "current_buf p1" and ?a = "(zo_current p1, zc_written (current_buf p1))"
  let ?s = "store_at ?a r (p1\<lparr>zo_prepared := Some ?a\<rparr>)"
  have l: "zo_current p1 < length (zo_buf p1)" using e(2) by (simp add: zo_holds_def zo_wf_def)
  have s: "current_buf ?s = ?c\<lparr>zc_data := poke (zc_data ?c) (zc_written ?c) r\<rparr>" "zo_prepared ?s = Some ?a"
    "zo_buf ?s = (zo_buf p1)[zo_current p1 := ?c\<lparr>zc_data := poke (zc_data ?c) (zc_written ?c) r\<rparr>]"
    "zo_current ?s = zo_current p1" "zo_pipe ?s = zo_pipe p1" "zo_epipe ?s = zo_epipe p1"
    using l by (simp_all add: store_at_def Let_def)
  have e2: "ensure_space_free (length r) ?s = Ret (True, ?s)"
    using e(3) s(1) by (simp add: ensure_space_free_def)
  let ?p = "update_current (\<lambda>b. b\<lparr>zc_written := zc_written b + length r\<rparr>)
      (?s\<lparr>zo_prepared := Some (zo_current p1, zc_written ?c + length r)\<rparr>)"
  have w: "write_prepared p r = Ret (1, ?p)"
    using e(1) e2 s(2) by (simp add: write_prepared_def quapi_zerocopy_pipe_prepare_write_def
        quapi_zerocopy_pipe_write_def Let_def)
  have "r \<noteq> []" using n by (auto simp: zc_fits_def)
  then have "zo_holds ?p (rs @ [r])"
    by (rule zo_holds_add [OF e(2) _ e(3)])
      (use l s in \<open>simp_all add: update_current_def\<close>)
  with w show ?thesis by blast
qed

lemma flush_holds:
  assumes h: "zo_holds p rs"
  shows "\<exists>p'. quapi_zerocopy_pipe_flush p = Ret p' \<and> zo_holds p' rs \<and> zo_arrived p' rs"
proof (cases "zc_written (current_buf p) > 0")
  case True
  from flush_out_holds [OF h True] True show ?thesis
    by (auto simp: quapi_zerocopy_pipe_flush_def)
next
  case False
  from h obtain rss cur where c: "rs = concat rss @ cur" "list_all2 buf_holds (zo_pipe p) rss" "[] \<notin> set rss"
    "buf_holds (current_buf p) cur" by (auto simp: zo_holds_def)
  have "cur = []" using c(4) False by (cases cur) (auto simp: buf_holds_def)
  with False h c show ?thesis by (auto simp: quapi_zerocopy_pipe_flush_def zo_arrived_def)
qed

definition zc_pwrite :: "zc_out \<Rightarrow> byte list \<Rightarrow> int \<times> zc_out" where
  "zc_pwrite p bs = (case quapi_zerocopy_pipe_write (In_Memory bs) p of Ret x \<Rightarrow> x | _ \<Rightarrow> (0, p))"

definition zc_pwrite_prepared :: "zc_out \<Rightarrow> byte list \<Rightarrow> int \<times> zc_out" where
  "zc_pwrite_prepared p bs = (case write_prepared p bs of Ret x \<Rightarrow> x | _ \<Rightarrow> (0, p))"

definition zc_pflush :: "zc_out \<Rightarrow> zc_out" where
  "zc_pflush p = (case quapi_zerocopy_pipe_flush p of Ret p' \<Rightarrow> p' | _ \<Rightarrow> p)"

interpretation zc_copied: record_sink zc_pwrite zc_pflush zc_fits zo_holds zo_arrived
proof
  show "zc_fits n" if "5 \<le> n" "n \<le> 44" for n
    using that by (simp add: zc_fits_def counter_size_def buf_size_def)
  show "\<exists>s'. zc_pwrite s r = (1, s') \<and> zo_holds s' (rs @ [r])" if "zo_holds s rs" "zc_fits (length r)" for s rs r
    using write_copied_holds [OF that] by (auto simp: zc_pwrite_def)
  show "zo_holds (zc_pflush s) rs" "zo_arrived (zc_pflush s) rs" if "zo_holds s rs" for s rs
    using flush_holds [OF that] by (auto simp: zc_pflush_def)
qed

interpretation zc_prepared: record_sink zc_pwrite_prepared zc_pflush zc_fits zo_holds zo_arrived
proof
  show "zc_fits n" if "5 \<le> n" "n \<le> 44" for n
    using that by (rule zc_copied.fits_frames)
  show "\<exists>s'. zc_pwrite_prepared s r = (1, s') \<and> zo_holds s' (rs @ [r])" if "zo_holds s rs" "zc_fits (length r)" for s rs r
    using write_prepared_holds [OF that] by (auto simp: zc_pwrite_prepared_def)
  show "zo_holds (zc_pflush s) rs" "zo_arrived (zc_pflush s) rs" if "zo_holds s rs" for s rs
    using that by (auto intro: zc_copied.flush_holds zc_copied.flush_arrives)
qed

section \<open>The reader keeps the contract\<close>

lemma peek_concat:
  assumes "peek mem i (length (xs @ ys)) = xs @ ys"
  shows "peek mem i (length xs) = xs" and "peek mem (i + length xs) (length ys) = ys"
proof -
  have "peek mem i (length xs) @ peek mem (i + length xs) (length ys) = xs @ ys"
    using assms by (simp add: peek_add)
  moreover have "length (peek mem i (length xs)) = length xs"
  proof -
    have "length (peek mem i (length (xs @ ys))) = length (xs @ ys)" using assms by simp
    then show ?thesis by (simp add: peek_def)
  qed
  ultimately show "peek mem i (length xs) = xs" "peek mem (i + length xs) (length ys) = ys" by simp_all
qed

text \<open>A read of the next bytes of the current buffer.\<close>

lemma read_current:
  assumes cur: "cur = (a @ b) # cs" "[] \<notin> set cur"
    and pos: "zi_read_pos p + length (concat cur) = zc_written (zi_buf p)"
    and data: "peek (zc_data (zi_buf p)) (zi_read_pos p) (length (concat cur)) = concat cur"
    and rest: "rs = cs @ concat rss" "list_all2 buf_holds (zi_pipe p) rss" "[] \<notin> set rss"
  shows "peek (zc_data (zi_buf p)) (zi_read_pos p) (length a) = a"
    and "zi_carries (p\<lparr>zi_read_pos := zi_read_pos p + length a\<rparr>) (if b = [] then rs else b # rs)"
    and "zi_read_pos p + length a \<le> zc_written (zi_buf p)"
proof -
  let ?cur = "if b = [] then cs else b # cs"
  have cc: "concat cur = a @ concat ?cur" using cur by simp
  note pk = peek_concat [of "zc_data (zi_buf p)" "zi_read_pos p" a "concat ?cur", folded cc, OF data]
  show "peek (zc_data (zi_buf p)) (zi_read_pos p) (length a) = a" by (rule pk(1))
  have ne: "[] \<notin> set ?cur" using cur by (cases "b = []") auto
  have len: "zi_read_pos p + length a + length (concat ?cur) = zc_written (zi_buf p)"
    using pos unfolding cc by simp
  then show "zi_read_pos p + length a \<le> zc_written (zi_buf p)" by simp
  show "zi_carries (p\<lparr>zi_read_pos := zi_read_pos p + length a\<rparr>) (if b = [] then rs else b # rs)"
    unfolding zi_carries_def
    using rest pk(2) ne len by (intro exI [of _ rss] exI [of _ ?cur]) auto
qed

lemma zc_read_part:
  assumes c: "zi_carries p ((a @ b) # rs)" and a: "a \<noteq> []"
  shows "\<exists>p'. quapi_zerocopy_pipe_read (length a) p = Ret (Some a, p') \<and> zi_carries p' (if b = [] then rs else b # rs)"
proof -
  obtain rss cur where r: "(a @ b) # rs = cur @ concat rss" and l: "list_all2 buf_holds (zi_pipe p) rss" "[] \<notin> set rss"
    and cur: "[] \<notin> set cur" "zi_read_pos p + length (concat cur) = zc_written (zi_buf p)"
      "peek (zc_data (zi_buf p)) (zi_read_pos p) (length (concat cur)) = concat cur"
    using c by (auto simp: zi_carries_def)
  show ?thesis
  proof (cases cur)
    case (Cons x cs)
    then have "cur = (a @ b) # cs" "rs = cs @ concat rss" using r by auto
    from read_current [OF this(1) cur this(2) l] show ?thesis
      by (auto simp: quapi_zerocopy_pipe_read_def)
  next
    case Nil
    then obtain r1 rss' where rss: "rss = r1 # rss'" using r by (cases rss) auto
    then obtain x bufs where p: "zi_pipe p = x # bufs" "buf_holds x r1" "list_all2 buf_holds bufs rss'"
      using l by (auto simp: list_all2_Cons2)
    have "r1 \<noteq> []" using l(2) rss by auto
    then obtain cs where r1: "r1 = (a @ b) # cs" "rs = cs @ concat rss'"
      using r Nil rss by (cases r1) auto
    let ?p = "p\<lparr>zi_buf := x, zi_pipe := bufs, zi_read_pos := 0\<rparr>"
    have x: "[] \<notin> set r1" "zi_read_pos ?p + length (concat r1) = zc_written (zi_buf ?p)"
      "peek (zc_data (zi_buf ?p)) (zi_read_pos ?p) (length (concat r1)) = concat r1"
      using p(2) by (auto simp: buf_holds_def)
    have nn: "[] \<notin> set rss'" "list_all2 buf_holds (zi_pipe ?p) rss'" using l(2) rss p by auto
    note rd = read_current [OF r1(1) x r1(2) nn(2,1)]
    have "\<not> zc_written x > buf_size" using p(2) by (simp add: buf_holds_def)
    moreover have "zi_read_pos p = zc_written (zi_buf p)" using cur(2) Nil by simp
    ultimately have "quapi_zerocopy_pipe_read (length a) p
        = Ret (Some (peek (zc_data (zi_buf ?p)) (zi_read_pos ?p) (length a)), ?p\<lparr>zi_read_pos := zi_read_pos ?p + length a\<rparr>)"
      using p(1) a by (simp add: quapi_zerocopy_pipe_read_def flush_read_def)
    with rd show ?thesis by auto
  qed
qed

lemma zc_read_end:
  assumes c: "zi_carries p []" and n: "0 < n"
  shows "\<exists>p'. quapi_zerocopy_pipe_read n p = Ret (None, p')"
proof -
  obtain rss where r: "concat rss = ([] :: byte list list)" "list_all2 buf_holds (zi_pipe p) rss" "[] \<notin> set rss"
    "zi_read_pos p = zc_written (zi_buf p)"
    using c by (auto simp: zi_carries_def)
  have "rss = []" using r(1,3) by (cases rss) auto
  then have "zi_pipe p = []" using r(2) by simp
  with r(4) n show ?thesis by (simp add: quapi_zerocopy_pipe_read_def flush_read_def)
qed

definition zc_pread :: "zc_in \<Rightarrow> nat \<Rightarrow> byte list option \<times> zc_in" where
  "zc_pread p n = (case quapi_zerocopy_pipe_read n p of Ret x \<Rightarrow> x | _ \<Rightarrow> (None, p))"

interpretation zc_source: record_source zc_pread zi_carries
proof
  show "\<exists>s'. zc_pread s (length a) = (Some a, s') \<and> zi_carries s' (if b = [] then rs else b # rs)"
    if "zi_carries s ((a @ b) # rs)" "a \<noteq> []" for s a b rs
    using zc_read_part [OF that] by (auto simp: zc_pread_def)
  show "\<exists>s'. zc_pread s n = (None, s')" if "zi_carries s []" "0 < n" for s n
    using zc_read_end [OF that] by (auto simp: zc_pread_def)
qed

text \<open>What has arrived is what a reader on the same pipe gets.\<close>

lemma zi_carries_arrived:
  assumes "zo_arrived p rs"
  shows "zi_carries \<lparr>zi_buf = empty_buf [], zi_read_pos = 0, zi_pipe = zo_pipe p\<rparr> rs"
proof -
  obtain rss where "rs = concat rss" "list_all2 buf_holds (zo_pipe p) rss" "[] \<notin> set rss"
    using assms by (auto simp: zo_arrived_def)
  then show ?thesis
    unfolding zi_carries_def by (intro exI [of _ rss] exI [of _ "[]"]) (auto simp: empty_buf_def)
qed

text \<open>
  The write of a message over a zero-copy pipe: a header message was serialised elsewhere in
  memory, every other one was built in the buffer.
\<close>

definition zc_write_msg :: "byte list \<Rightarrow> quapi_msg_header_data \<Rightarrow> zc_out \<Rightarrow> quapi_msg \<Rightarrow> (quapi_status \<times> zc_out) outcome" where
  "zc_write_msg u h p m =
     quapi_write_msg_to_file (if msg_type m = MSG_HEADER then zc_pwrite else zc_pwrite_prepared) zc_pflush True
       p u m (Some h)"

lemma zc_write_msg_holds:
  assumes "zo_holds p rs" "length u = 4"
  shows "\<exists>p'. zc_write_msg u h p m = Ret (QUAPI_OK, p') \<and> zo_holds p' (rs @ [frame u h m])"
  using zc_copied.write_msg [OF assms, of m "Some h" h] zc_prepared.write_msg [OF assms, of m "Some h" h]
  by (auto simp: zc_write_msg_def)

lemma zc_write_msgs_holds:
  assumes "zo_holds p rs" "length u = 4"
  shows "\<exists>p'. write_msgs (zc_write_msg u h) ms p = Ret p' \<and> zo_holds p' (rs @ map (frame u h) ms)"
  using assms(1)
proof (induction ms arbitrary: p rs)
  case (Cons m ms)
  from zc_write_msg_holds [OF Cons.prems assms(2), of h m] obtain p1
    where "zc_write_msg u h p m = Ret (QUAPI_OK, p1)" "zo_holds p1 (rs @ [frame u h m])" by blast
  with Cons.IH [of p1 "rs @ [frame u h m]"] show ?case by auto
qed auto

text \<open>A pipe that was just opened.\<close>

lemma zo_holds_opened:
  assumes "quapi_zerocopy_pipe_fdopen mode mem0 mem1 bufs = Inr p"
    and "length mem0 = buf_size - counter_size" "length mem1 = buf_size - counter_size"
  shows "zo_holds p []"
proof -
  let ?p = "\<lparr>zo_buf = [empty_buf mem0, empty_buf mem1], zo_current = 0, zo_prepared = None,
     zo_pipe = [], zo_epipe = False\<rparr>"
  have "p = ?p" using assms(1) by (auto simp: quapi_zerocopy_pipe_fdopen_def split: if_splits)
  moreover have "buf_holds (empty_buf mem0) []"
    using buf_holds_Nil [of "empty_buf mem0"] assms(2) by (simp add: empty_buf_def)
  then have "zo_holds ?p []"
    using assms(2,3) unfolding zo_holds_def
    by (intro conjI exI [of _ "[]"]) (auto simp: zo_wf_def empty_buf_def)
  ultimately show ?thesis by simp
qed

end
