(* ===== verification/Quapi_Protocol.thy ===== *)
theory Quapi_Protocol
  imports Quapi_System
begin

text \<open>
  The messages from the runtime to the library: what a forked solving process reports, and
  what the solve that waits for it answers. The events of one return of \<open>poll\<close> are taken in
  the order message, abort, output.
\<close>

section \<open>The runtime's side\<close>

text \<open>The runtime builds its messages from zeroed memory.\<close>

definition report_junk :: "byte list" where
  "report_junk = replicate 4 0"

lemma length_report_junk [simp]: "length report_junk = 4"
  by (simp add: report_junk_def)

lemma send_to_parent_bytes:
  "msg_type m \<noteq> MSG_HEADER \<Longrightarrow>
   send_to_parent m r = r\<lparr>rt_to_parent := rt_to_parent r @ msg_arr report_junk m\<rparr>"
  by (simp add: send_to_parent_def quapi_write_msg_to_fd_def pipe_write_def report_junk_def)

lemma fork_reports:
  assumes "rt_forks r = Fork_Parent pid st # fs"
  shows "rt_to_parent (fork_solving_child r w) = rt_to_parent r @ msg_arr report_junk (MFork_Report pid)
    @ (if w then msg_arr report_junk (MExit_Code (wait_exit_status st)) else [])"
  using assms by (simp add: fork_solving_child_def send_to_parent_bytes Let_def)

lemma wait_exit_status_range: "0 \<le> wait_exit_status st \<and> wait_exit_status st < 256"
  by (cases st) simp_all

section \<open>The library's side\<close>

lemma s_poll_return:
  assumes "\<not> revents_child d" "\<not> revents_eventfd d" "\<not> revents_solverchild d"
  shows "s_run S_POLL d (Poll_Return ms out n # script) =
    s_run S_POLL (d\<lparr>sd_solver := (sd_solver d)\<lparr>sv_messages := sv_messages (sd_solver d) @ ms,
        sv_output := sv_output (sd_solver d) @ out, sv_eventfd := sv_eventfd (sd_solver d) + n\<rparr>,
      revents_child := sv_messages (sd_solver d) @ ms \<noteq> [],
      revents_eventfd := 0 < sv_eventfd (sd_solver d) + n,
      revents_solverchild := poll_solverchild (sd_solver d) \<and> sv_output (sd_solver d) @ out \<noteq> [],
      hup_solverchild := False\<rparr>) script"
  by (rule s_run_next) (use assms in \<open>simp add: s_poll_def poll_arrived_def Let_def\<close>)

text \<open>An exit code ends the solve, whatever else has arrived.\<close>

lemma solve_machine_exit_code:
  assumes m: "sv_messages s @ ms = msg_arr u (MExit_Code c) @ rest" and u: "length u = 4" and c: "in32 c"
    and a: "c \<noteq> 0 \<or> stdout_cb s = None"
  shows "\<exists>d. s_run S_POLL (solve_data s) (Poll_Return ms out n # script) = Some (Ret d) \<and> retcode d = c
    \<and> sd_solver d = s\<lparr>sv_messages := rest, sv_output := sv_output s @ out, sv_eventfd := sv_eventfd s + n\<rparr>"
proof -
  let ?s = "s\<lparr>sv_messages := msg_arr u (MExit_Code c) @ rest, sv_output := sv_output s @ out,
    sv_eventfd := sv_eventfd s + n\<rparr>"
  let ?d = "(solve_data s)\<lparr>sd_solver := ?s, revents_child := True,
      revents_eventfd := 0 < sv_eventfd s + n, revents_solverchild := poll_solverchild s \<and> sv_output s @ out \<noteq> []\<rparr>"
  have ne: "msg_arr u (MExit_Code c) @ rest \<noteq> []" using length_msg_arr [OF u, of "MExit_Code c"] by auto
  have p: "s_run S_POLL (solve_data s) (Poll_Return ms out n # script) = s_run S_POLL ?d script"
    by (subst s_poll_return) (use ne in \<open>simp_all add: solve_data_def m\<close>)
  let ?e = "?d\<lparr>revents_child := False\<rparr>"
  have h: "s_run S_POLL ?d script = s_run S_HANDLE_CHILD ?e script"
    by (rule s_run_next) (simp add: s_poll_def)
  have r: "quapi_read_msg_from_fd (msg_arr u (MExit_Code c) @ rest) = Ret (Some (Some (MExit_Code c)), rest)"
    using quapi_read_msg_from_fd_msg [OF u, of "MExit_Code c" rest] c by simp
  have "s_run S_HANDLE_CHILD ?e script = Some (Ret (?e\<lparr>sd_solver := ?s\<lparr>sv_messages := rest\<rparr>, retcode := c\<rparr>))"
    by (rule s_run_null) (use r a in \<open>auto simp: s_handle_child_def solve_data_def Let_def\<close>)
  then show ?thesis unfolding p h by auto
qed

text \<open>An abort ends the solve and kills the solving process, whatever output has arrived.\<close>

lemma solve_machine_abort:
  assumes "sv_messages s @ ms = []" and "0 < sv_eventfd s + n"
  shows "\<exists>d. s_run S_POLL (solve_data s) (Poll_Return ms out n # script) = Some (Ret d) \<and> retcode d = 0
    \<and> sd_solver d = s\<lparr>sv_output := sv_output s @ out, sv_eventfd := 0,
        sv_killed := sv_killed s @ [solverchild_pid s]\<rparr>"
proof -
  let ?s = "s\<lparr>sv_messages := [], sv_output := sv_output s @ out, sv_eventfd := sv_eventfd s + n\<rparr>"
  let ?d = "(solve_data s)\<lparr>sd_solver := ?s, revents_child := False,
      revents_eventfd := True, revents_solverchild := poll_solverchild s \<and> sv_output s @ out \<noteq> []\<rparr>"
  have p: "s_run S_POLL (solve_data s) (Poll_Return ms out n # script) = s_run S_POLL ?d script"
    by (subst s_poll_return) (use assms in \<open>simp_all add: solve_data_def\<close>)
  let ?e = "?d\<lparr>revents_eventfd := False\<rparr>"
  have h: "s_run S_POLL ?d script = s_run S_HANDLE_EVENTFD ?e script"
    by (rule s_run_next) (simp add: s_poll_def)
  have "s_run S_HANDLE_EVENTFD ?e script =
      Some (Ret (?e\<lparr>sd_solver := abort_solverchild (?s\<lparr>sv_eventfd := 0\<rparr>), retcode := 0\<rparr>))"
    by (rule s_run_null) (simp add: s_handle_eventfd_def)
  then show ?thesis unfolding p h using assms(1) by (auto simp: abort_solverchild_def)
qed

section \<open>Whole solves\<close>

text \<open>The answer of a call, without the solver it leaves.\<close>

definition answer :: "(int, 'u) op_result option \<Rightarrow> int outcome option" where
  "answer res = map_option (\<lambda>r. bind_outcome r (\<lambda>(x, s). Ret x)) res"

lemma answer_finish:
  "answer (map_option (\<lambda>res. bind_outcome res finish_solve) m) =
   answer (map_option (\<lambda>res. bind_outcome res (\<lambda>d. Ret (retcode d, sd_solver d))) m)"
  by (cases m; cases "the m") (simp_all add: answer_def finish_solve_def Let_def)

text \<open>What a line means depends on the patterns and the callback only.\<close>

lemma decide_events: "same_events s s' \<Longrightarrow> fst (decide s ls) = fst (decide s' ls)"
proof (induction ls arbitrary: s s')
  case (Cons l ls)
  have "same_events (s\<lparr>stdout_cb_userdata := u\<rparr>) (s'\<lparr>stdout_cb_userdata := u\<rparr>)" for u
    using Cons.prems by (simp add: same_events_def)
  from Cons.IH [OF this] Cons.IH [OF Cons.prems] Cons.prems show ?case
    by (simp add: same_events_def Let_def split: option.splits prod.splits)
qed simp

lemma quiet_events: "same_events s s' \<Longrightarrow> sv_messages s' = [] \<Longrightarrow> poll_solverchild s \<Longrightarrow> sv_output s = [] \<Longrightarrow>
    sv_eventfd s = 0 \<Longrightarrow> quiet s'"
  by (simp add: same_events_def quiet_def)

text \<open>
  C4. The answer of a solve. However the solver's output is cut into the pieces that arrive between
  two calls of \<open>poll\<close>, \<open>quapi_solve\<close> answers what the first deciding line says: 10 or 20 for a
  line that matches a pattern, the callback's result for a line it does not ignore; without
  such a line it goes on waiting.
\<close>

theorem quapi_solve_output:
  assumes d: "describes s F" and c: "fs_clause F = []"
    and r: "fs_assumptions F = None \<Longrightarrow> reports (sv_messages s @ reply) p []"
    and m: "fs_assumptions F \<noteq> None \<Longrightarrow> sv_messages s = []"
    and u: "universal_depth (prefixdepth (sv_header s)) (fs_asked F) \<le> int (length (fs_units F)) \<or> allow"
    and q: "poll_solverchild s" "sv_output s = []" "sv_eventfd s = 0" and n: "NUL \<notin> set (concat outs)"
  shows "answer (quapi_solve allow reply (pieces outs) s) =
    map_option Ret (fst (decide s (fst (split_lines [] (concat outs)))))"
proof -
  from quapi_solve_request [OF d c r u] obtain s1 where
    e: "\<forall>script. quapi_solve allow reply script s =
        map_option (\<lambda>res. bind_outcome res finish_solve) (s_run S_POLL (solve_data s1) script)"
    and o: "solve_ordered s F p [] s1" .
  from o m have s1: "same_events s s1" "sv_messages s1 = []" by (auto simp: solve_ordered_def)
  from quiet_events [OF s1 q] have "quiet s1" .
  from solve_machine_output [OF this n] show ?thesis
    unfolding e [rule_format] answer_finish decide_events [OF s1(1)]
    by (cases "decide s1 (fst (split_lines [] (concat outs)))") (auto simp: answer_def split: option.splits)
qed

text \<open>A solver without patterns answers the exit code the runtime reports.\<close>

lemma quapi_solve_exit_code:
  assumes d: "describes s F" and c: "fs_clause F = []" and a: "fs_assumptions F = None"
    and r: "reports (sv_messages s @ reply) p []"
    and u: "universal_depth (prefixdepth (sv_header s)) (fs_asked F) \<le> 0 \<or> allow"
    and ms: "ms = msg_arr x (MExit_Code code)" "length x = 4" "in32 code" "code \<noteq> 0 \<or> stdout_cb s = None"
  shows "\<exists>s'. quapi_solve allow reply (Poll_Return ms out n # script) s = Some (Ret (code, s')) \<and> solverchild_pid s' = p"
proof -
  have u': "universal_depth (prefixdepth (sv_header s)) (fs_asked F) \<le> int (length (fs_units F)) \<or> allow"
    using u a by (simp add: fs_units_def)
  have r': "fs_assumptions F = None \<Longrightarrow> reports (sv_messages s @ reply) p []" using r by simp
  from quapi_solve_request [OF d c r' u'] obtain s1 where
    e: "\<forall>script. quapi_solve allow reply script s =
        map_option (\<lambda>res. bind_outcome res finish_solve) (s_run S_POLL (solve_data s1) script)"
    and o: "solve_ordered s F p [] s1" .
  from o a have s1: "same_events s s1" "sv_messages s1 = []" "solverchild_pid s1 = p"
    by (simp_all add: solve_ordered_def)
  have "sv_messages s1 @ ms = msg_arr x (MExit_Code code) @ []" using s1(2) ms(1) by simp
  from solve_machine_exit_code [OF this ms(2,3), of out n script] ms(4) s1 e show ?thesis
    by (auto simp: same_events_def finish_solve_def Let_def)
qed

text \<open>
  C6. Aborting. When \<open>quapi_terminate\<close> was called before or during the wait, a solve returns 0 at
  the next return of \<open>poll\<close> whatever output came with it, the child that was forked for
  it is killed, the eventfd is reset and the library is back in its input state.
\<close>

theorem quapi_solve_abort:
  assumes d: "describes s F" and c: "fs_clause F = []"
    and r: "fs_assumptions F = None \<Longrightarrow> reports (sv_messages s @ reply) p []"
    and m: "fs_assumptions F \<noteq> None \<Longrightarrow> sv_messages s = [] \<and> solverchild_pid s = p"
    and u: "universal_depth (prefixdepth (sv_header s)) (fs_asked F) \<le> int (length (fs_units F)) \<or> allow"
    and t: "0 < sv_eventfd s + n"
  shows "\<exists>s'. quapi_solve allow reply (Poll_Return [] out n # script) s = Some (Ret (0, s'))
    \<and> sv_killed s' = sv_killed s @ [p] \<and> sv_eventfd s' = 0 \<and> sv_state s' = QUAPI_INPUT_LITERALS"
proof -
  from quapi_solve_request [OF d c r u] obtain s1 where
    e: "\<forall>script. quapi_solve allow reply script s =
        map_option (\<lambda>res. bind_outcome res finish_solve) (s_run S_POLL (solve_data s1) script)"
    and o: "solve_ordered s F p [] s1" .
  from o m have s1: "same_events s s1" "sv_messages s1 @ [] = []" "solverchild_pid s1 = p"
    by (auto simp: solve_ordered_def)
  have "0 < sv_eventfd s1 + n" using s1(1) t by (simp add: same_events_def)
  from solve_machine_abort [OF s1(2) this, of out script] e s1 show ?thesis
    by (auto simp: same_events_def finish_solve_def Let_def)
qed

text \<open>
  C19. What earlier children still report (exit codes, destruction and so on) is passed over when the
  library waits for the process id of a new child, and nothing after the report is lost.
\<close>

theorem reports_stale:
  assumes "length u = 4" "\<forall>m \<in> set ms. msg_ok m \<and> msg_type m \<notin> {MSG_HEADER, MSG_FORK_REPORT}" "in32 p"
  shows "reports (concat (map (msg_arr u) ms) @ msg_arr u (MFork_Report p) @ rest) p rest"
  using assms by (induction ms) (simp_all add: reports_frame reports_skip)

end
