(* ===== verification/Quapi_Deviations.thy ===== *)
theory Quapi_Deviations
  imports Quapi_Protocol Quapi_Parse_Text Quapi_Descriptors
begin

text \<open>
  Behaviour of the code outside its contract, or that its authors would not want: endless
  loops of the runtime, text that is lost or malformed, assumptions that survive a
  reset, and a limit that is not kept.
\<close>

section \<open>Endless loops\<close>

lemma state_loop_stuck:
  assumes "rt_outbuf_len r = 0" "run_state r m = Ret r"
  shows "state_loop r m = None"
proof -
  have "\<not> (rt_outbuf_len r = 0 \<and> run_state r m = Ret r)" if "state_loop r m = Some res" for r m res
    by (rule state_loop.raw_induct [where P = "\<lambda>r m y. \<not> (rt_outbuf_len r = 0 \<and> run_state r m = Ret r)", OF _ that])
      (auto split: if_splits outcome.splits)
  with assms show ?thesis by (cases "state_loop r m") auto
qed

text \<open>
  C20. Messages a state does not expect make the runtime loop forever: a quantifier 0 in
  \<open>READING_PREFIX\<close>, and every message other than a literal, a fork or a solve in
  \<open>READING_MATRIX\<close>. The state gives no text and asks for no new message, and the solver's
  read never returns.
\<close>

theorem unexpected_message_loops:
  assumes "rt_outbuf_len r = 0"
    and "rt_state r = READING_PREFIX \<and> m = MQuantifier 0
       \<or> rt_state r = READING_MATRIX \<and> msg_type m \<notin> {MSG_LITERAL, MSG_FORK, MSG_SOLVE}"
  shows "state_loop r m = None"
proof (rule state_loop_stuck [OF assms(1)])
  from assms(2) show "run_state r m = Ret r"
    by (cases m) (auto simp: run_state_def st_reading_prefix_def st_reading_matrix_def)
qed

text \<open>
  C21. The end of the output makes the solve spin. While the seeding process lives, which keeps a
  write end of the output, \<open>poll\<close> waits for a solving child that ended without a message. When
  the seeding process ends, too, during the solve, only the library's own table is left, and no write end of the output
  is in it: \<open>poll\<close> returns with \<open>POLLHUP\<close>, whether the solve waits for output or not. The machine does
  not look at that bit. After any number of such returns it polls again, so the solve uses all of
  the processor's time and never answers.
\<close>

theorem hang_up_spins:
  assumes p: "pipes_opened k t fds t1" "fork_and_exec_child True conf fds t1 = Ret (prog, tc)"
      "tp = fork_and_exec_parent fds t1"
    and d: "describes s F" and c: "fs_clause F = []"
    and r: "fs_assumptions F = None \<Longrightarrow> reports (sv_messages s @ reply) p []"
    and m: "fs_assumptions F \<noteq> None \<Longrightarrow> sv_messages s = []"
    and u: "universal_depth (prefixdepth (sv_header s)) (fs_asked F) \<le> int (length (fs_units F)) \<or> allow"
    and q: "sv_output s = []" "sv_eventfd s = 0"
  shows "poll_empty_pipe (k + 3) [tp, tc] = None
    \<and> (\<exists>hup. poll_empty_pipe (k + 3) [tp] = Some hup
        \<and> (\<forall>n. quapi_solve allow reply (replicate n hup) s = None))"
proof -
  from quapi_solve_request [OF d c r u] obtain s1 where
    e: "\<forall>script. quapi_solve allow reply script s =
        map_option (\<lambda>res. bind_outcome res finish_solve) (s_run S_POLL (solve_data s1) script)"
    and o: "solve_ordered s F p [] s1" .
  from o m have "same_events s s1" "sv_messages s1 = []" by (auto simp: solve_ordered_def)
  then have "s_run S_POLL (solve_data s1) (replicate n (Poll_Hang_Up [] [] 0)) = None" for n
    using q by (intro s_run_hang_up) (simp_all add: solve_data_def same_events_def)
  with output_writers [OF p] show ?thesis by (simp add: poll_empty_pipe_def e)
qed

section \<open>Text that is lost or malformed\<close>

text \<open>
  C22. A read of size 0 loses what is waiting: the runtime takes it for an exhausted buffer,
  rewinds and advances its machine, so the text in the output buffer never reaches the solver.
\<close>

theorem read_of_nothing_loses_text:
  assumes "delivers h r txt"
  shows "\<exists>r'. quapi_read trace r [] = Some (Ret (0, [], r'))
    \<and> (drop (length (pending r)) txt \<noteq> [] \<longrightarrow> delivers h r' (drop (length (pending r)) txt))"
proof -
  from advance_state_drops [OF assms refl] obtain r'
    where r': "advance_state (r\<lparr>rt_outbuf := 0, rt_outbuf_written := 0\<rparr>) = Some (Ret r')"
      "supplied h r' (drop (length (pending r)) txt)" by blast
  have u: "update_buf trace x [] = (0, [], x)"
    if "rt_outbuf_len x = -2 \<or> rt_outbuf_written x \<le> rt_outbuf_len x" for x
    using that by (auto simp: update_buf_def Let_def)
  have "rt_outbuf_len r = -2 \<or> rt_outbuf_written r \<le> rt_outbuf_len r"
    using assms by (auto simp: delivers_def buffer_ok_def)
  moreover have "rt_outbuf_len r' = -2 \<or> rt_outbuf_written r' \<le> rt_outbuf_len r'"
    using r'(2) by (auto simp: supplied_def delivers_def buffer_ok_def split: if_splits)
  ultimately have "quapi_read trace r [] = Some (Ret (0, [], r'))"
    using u [of r] u [of r'] r'(1) by (simp add: quapi_read_def)
  with r'(2) show ?thesis by (auto simp: supplied_def)
qed

text \<open>
  An empty clause after the first one is printed without a line end and is not counted, so
  the next clause continues its line (\<open>01 2 0\<close>) and a filler is missing or surplus.
\<close>

theorem empty_clause_malformed:
  assumes "rt_wf r" and "rt_state r = READING_MATRIX" and "rt_outbuf_len r = 0" and "rt_outbuf_written r = 0"
  shows "\<exists>r'. state_loop r (MLiteral 0) = Some (Ret r') \<and> pending r' = ''0'' \<and> rt_state r' = READING_MATRIX
    \<and> rt_written_clauses r' = rt_written_clauses r"
proof -
  have l: "length (rt_outbuf_stack r) = outbuf_size" using assms(1) by (simp add: rt_wf_def)
  have i: "int_to_str 0 (rt_outbuf_stack r) outbuf_size = (poke (rt_outbuf_stack r) (outbuf_size - 1) ''0'', outbuf_size - 1)"
    using int_to_str_show [of 0 outbuf_size "rt_outbuf_stack r"] l by (simp add: lit_ok_def outbuf_size_def)
  let ?r = "(print_int False 0 outbuf_size r)\<lparr>rt_state := READING_MATRIX\<rparr>"
  have r: "?r = r\<lparr>rt_outbuf_stack := poke (rt_outbuf_stack r) (outbuf_size - 1) ''0'',
      rt_outbuf := outbuf_size - 1, rt_outbuf_len := 1, rt_state := READING_MATRIX\<rparr>"
    by (simp add: print_int_def i) (simp add: outbuf_size_def)
  have "run_state r (MLiteral 0) = Ret ?r"
    using assms(2) by (simp add: run_state_def st_reading_matrix_def Let_def)
  then have "state_loop r (MLiteral 0) = Some (Ret ?r)"
    using assms(3) r by (simp add: state_loop_step state_loop_stop)
  moreover have "peek (poke (rt_outbuf_stack r) (outbuf_size - 1) ''0'') (outbuf_size - 1) 1 = ''0''"
    using l by (subst peek_poke_same) (auto simp: outbuf_size_def)
  then have "pending ?r = ''0''" using assms(4) unfolding r by (simp add: pending_def)
  ultimately show ?thesis unfolding r by (intro exI) auto
qed

section \<open>Assumptions\<close>

text \<open>
  C24. Assumptions survive a reset. The reset kills the child that waits for them but leaves them in
  the buffer of the pipe; when none of it was passed on before, the child of the
  next solve reads them and is given the formula with the assumptions the client had withdrawn.
\<close>

theorem reset_keeps_assumptions:
  assumes d: "describes s F" and as: "fs_assumptions F = Some as" and ok: "solvable F"
    and kept: "fo_pipe (solverchild_write_pipe_stream s) = concat (frames s (fs_earlier F))"
    and r: "reports (sv_messages s @ reply) p rest"
    and u: "universal_depth (prefixdepth (sv_header s)) (fs_asked F) \<le> 0 \<or> allow"
    and fs: "parents fs" "length fs = length (fs_batches F)"
    and t: "t = solver_input F (prefixdepth (sv_header s)) (sv_header s)"
  shows "\<exists>s1 rt. (\<forall>script. quapi_solve allow reply script (quapi_reset_assumptions s) =
         map_option (\<lambda>res. bind_outcome res finish_solve) (s_run S_POLL (solve_data s1) script))
    \<and> child_runtime (fo_pipe (write_pipe_stream s1)) fs
        (drop (length (fo_pipe (solverchild_write_pipe_stream s))) (fo_pipe (solverchild_write_pipe_stream s1))) = Ret rt
    \<and> delivers (sv_header s) rt t"
proof -
  let ?s = "quapi_reset_assumptions s" and ?R = "fs_reset F" and ?h = "sv_header s" and ?u = "sv_junk s"
  have some: "fs_assumptions F \<noteq> None" using as by simp
  have F: "fs_clause F = []" "fs_clauses F = []" "int (fs_count F + length (fs_units F)) < 2 ^ 31"
    using ok some by (simp_all add: solvable_def)
  have dR: "describes ?s ?R" by (rule quapi_reset_assumptions_describes [OF d F(3) some])
  have same: "config ?s = config s" "sv_junk ?s = sv_junk s" "sv_messages ?s = sv_messages s"
    by (simp_all add: quapi_reset_assumptions_def abort_solverchild_def Let_def)
  have R: "fs_assumptions ?R = None" "fs_clause ?R = []" "fs_units ?R = []" "fs_asked ?R = fs_asked F"
    using F by (simp_all add: fs_reset_def fs_units_def)
  let ?w = "waits ?s"
  have rR: "fs_assumptions ?R = None \<Longrightarrow> reports (sv_messages ?s @ reply) p rest" using r same by simp
  have uR: "universal_depth (prefixdepth (sv_header ?s)) (fs_asked ?R) \<le> int (length (fs_units ?R)) \<or> allow"
    using u by (simp add: R same)
  from quapi_solve_request [OF dR R(2) rR uR] obtain s1 where
    q: "\<forall>script. quapi_solve allow reply script ?s =
        map_option (\<lambda>res. bind_outcome res finish_solve) (s_run S_POLL (solve_data s1) script)"
    and o: "solve_ordered ?s ?R p rest s1" .
  let ?F = "F\<lparr>fs_batches := fs_batches F @ [([], ?w)]\<rparr>"
  have eq: "fs_fork ?w ?F = ?F" "fs_units ?F = fs_units F" "fs_asked ?F = fs_asked F"
    using some by (auto simp: fs_fork_def fs_units_def)
  have msgs: "main_msgs d (fs_fork ?w ?R) = main_msgs d ?F" for d
    using F R by (simp add: main_msgs_def fs_fork_def fs_reset_def)
  have child: "child_msgs (fs_fork ?w ?R) = fs_earlier F @ clause_msgs (units (fs_units F))"
    using R by (simp add: child_msgs_def fs_fork_def fs_reset_def fs_units_def)
  have main: "fo_pipe (write_pipe_stream s1) = concat (map (frame ?u ?h) (main_msgs (prefixdepth ?h) (fs_fork ?w ?F)))"
    using o by (simp add: solve_ordered_def Let_def file_out_arrived_def frames_def same eq msgs)
  have "fo_pipe (solverchild_write_pipe_stream s1) =
      concat (frames s (fs_earlier F)) @ concat (map (frame ?u ?h) (clause_msgs (units (fs_units ?F)) @ [MSolve]))"
    using o by (simp add: solve_ordered_def Let_def file_out_arrived_def frames_def same eq child)
  then have ch: "drop (length (fo_pipe (solverchild_write_pipe_stream s))) (fo_pipe (solverchild_write_pipe_stream s1))
      = concat (map (frame ?u ?h) (clause_msgs (units (fs_units ?F)) @ [MSolve]))"
    by (simp add: kept)
  have b: "batch_clauses (fs_batches F @ [([], x)]) = batch_clauses (fs_batches F)" for x
    by (simp add: batch_clauses_def)
  have "fs_batches F \<noteq> []" using ok some by (simp add: solvable_def)
  then have ok': "solvable ?F" using ok some unfolding solvable_def
    by (simp add: fs_units_def fs_count_def b fs_fork_def)
  have len: "length fs + 1 = length (fs_batches (fs_fork ?w ?F))" using fs(2) by (simp add: eq)
  have "length ?u = 4" "header_ok ?h" using d by (simp_all add: describes_def)
  from child_runtime_delivers [OF this ok' fs(1) len main ch] obtain rt
    where rt: "child_runtime (fo_pipe (write_pipe_stream s1)) fs
        (drop (length (fo_pipe (solverchild_write_pipe_stream s))) (fo_pipe (solverchild_write_pipe_stream s1))) = Ret rt"
      "delivers ?h rt (solver_input ?F (prefixdepth ?h) ?h)" by blast
  have "solver_input ?F (prefixdepth ?h) ?h = t"
    by (simp add: t solver_input_def eq b)
  with q rt show ?thesis by (intro exI [of _ s1] exI [of _ rt]) simp
qed

text \<open>
  C25. The limit of assumptions is not kept: the announced number of clauses already includes the
  room for assumptions, and \<open>quapi_assume\<close> adds that room once more. With every
  announced clause used up it accepts another assumption, and the solver is then given more
  clauses than its header announces.
\<close>

theorem assumption_limit_exceeded:
  assumes d: "describes s F" and c: "fs_clause F = []" and st: "sv_state s \<noteq> QUAPI_INPUT" and a: "a \<noteq> 0"
    and r: "fs_assumptions F = None \<Longrightarrow> reports (sv_messages s @ reply) p rest"
    and full: "written_clauses s = clauses (sv_header s)"
    and depth: "0 < prefixdepth (sv_header s)" "clauses (sv_header s) + prefixdepth (sv_header s) < 2 ^ 31"
  shows "\<exists>s' F'. quapi_assume reply a s = Ret (True, s') \<and> describes s' F' \<and> fs_units F' = fs_units F @ [a]
    \<and> clauses (sv_header s') < int (length (solver_clauses (sv_header s') qs
        (batch_clauses (fs_batches F') @ fs_clauses F') (fs_units F')))"
proof -
  let ?F = "fs_assume (waits s) a F"
  have w: "written_clauses s = int (fs_count F + length (fs_units F))" using d by (simp add: describes_def counts_ok_def)
  then have "s32 (clauses (sv_header s) + prefixdepth (sv_header s)) = clauses (sv_header s) + prefixdepth (sv_header s)"
    using full depth by (intro s32_small) auto
  then have room: "written_clauses s < s32 (clauses (sv_header s) + prefixdepth (sv_header s))"
    using full depth by simp
  from quapi_assume_describes [OF d c st a r room] obtain s'
    where s': "quapi_assume reply a s = Ret (True, s')" "describes s' ?F" "config s' = config s" by blast
  have u: "fs_units ?F = fs_units F @ [a]" by (simp add: fs_assume_def fs_units_def)
  have "length (batch_clauses (fs_batches ?F) @ fs_clauses ?F) = fs_count F"
    by (auto simp: fs_assume_def fs_fork_def fs_count_def batch_clauses_def)
  then have "clauses (sv_header s') < int (length (solver_clauses (sv_header s') qs
      (batch_clauses (fs_batches ?F) @ fs_clauses ?F) (fs_units ?F)))"
    using full w s'(3) by (simp add: solver_clauses_def units_def u)
  with s' u show ?thesis by blast
qed

section \<open>The parser\<close>

lemma parse_body_surplus_zero:
  assumes "strict \<noteq> RELAXED_PARSING" "parsed b = cl"
  shows "parse_body strict vs cl b (CHR ''0'' # NL # rest) ln
    = (Some (''too many clauses '' @ TRY_RELAXED_PARSING), ln + 1, b)"
proof -
  have z: "isdigit (CHR ''0'')" "digit_value (CHR ''0'') = 0" by (simp_all add: isdigit_def digit_value_def)
  have n: "parse_number MAX_VARS 0 (NL # rest) = Some (0, NL # rest)" by (rule parse_number_stops) simp
  have "parse_token strict vs cl b (CHR ''0'') (NL # rest) ln
      = Inl (''too many clauses '' @ TRY_RELAXED_PARSING, ln + 1)"
    using assms z n digit_chars [OF z(1)]
    by (auto simp: parse_token_def parse_literal_def bind_sum_def after_literal_def)
  then show ?thesis by (subst parse_body.simps) simp
qed

text \<open>
  A prefix without clauses is rejected: outside relaxed parsing the zero that closes a quantifier
  block is counted against the announced clauses, so a well-formed file that announces 0 clauses
  and has quantifiers is refused with \<open>too many clauses\<close>.
\<close>

theorem prefix_without_clauses_rejected:
  assumes "strict \<noteq> RELAXED_PARSING" and "qs \<noteq> []" and qs: "lits_ok qs" "\<forall>q \<in> set qs. \<bar>q\<bar> \<le> literals h"
    and h: "literals h < 2 ^ 31" "clauses h = 0"
  shows "pr_error (kissat_parse_dimacs strict (formula_text h qs [])) =
    Some (''too many clauses '' @ TRY_RELAXED_PARSING)"
proof -
  obtain q qs' where q: "qs = q # qs'" using assms(2) by (cases qs) auto
  let ?blk = "q # takeWhile (\<lambda>x. (0 < x) = (0 < q)) qs'"
  let ?rest = "prefix_text (dropWhile (\<lambda>x. (0 < x) = (0 < q)) qs')"
  have t: "prefix_text qs = block_text ?blk @ ?rest" by (simp add: q prefix_text_def)
  have h0: "0 \<le> literals h" using qs(2) q by auto
  have "\<forall>x \<in> set ?blk. in_range strict (nat (literals h)) x \<and> x \<noteq> 0 \<and> (0 < x) = (0 < q)"
  proof
    fix x assume x: "x \<in> set ?blk"
    then have "x \<in> set qs" unfolding q by (auto dest: set_takeWhileD)
    moreover have "(0 < x) = (0 < q)" using x by (auto dest: set_takeWhileD)
    ultimately show "in_range strict (nat (literals h)) x \<and> x \<noteq> 0 \<and> (0 < x) = (0 < q)"
      using qs h0 by (auto simp: lits_ok_def lit_ok_def in_range_def)
  qed
  from parse_body_open_block [OF this _ , of start_state 0 ?rest 2] parse_body_surplus_zero [OF assms(1)]
  have "fst (parse_body strict (nat (literals h)) 0 start_state (prefix_text qs) 2)
      = Some (''too many clauses '' @ TRY_RELAXED_PARSING)"
    by (simp add: t start_state_def no_block_def)
  with header_of_formula_text [OF h0 h(1), of strict qs "[]"] h(2) show ?thesis
    by (auto simp: kissat_parse_dimacs_def parse_dimacs_def split: prod.splits)
qed

end
