(* ===== verification/Spec2Isabelle.thy ===== *)
theory Spec2Isabelle
  imports Quapi_Quapify_Examples Quapi_Start_Examples Quapi_Zerocopy Quapi_Deviations
begin

text \<open>
  QuAPI: a solver for (quantified) Boolean formulas that knows neither assumptions nor an
  interface is made incremental by replacing the way it reads its input.

  \<^bold>\<open>The program.\<close> A client calls the library (\<open>lib/src/quapi.c\<close>). \<open>quapi_init\<close> starts the solver's
  executable with a preload library in front of it and two pipes to it. Through the first pipe the library
  sends the formula as messages of five bytes, the first with a trailer (\<open>common/src/common.c\<close>, \<open>message.h\<close>). In the
  solver's process the preload library replaces the functions that read the standard input
  (\<open>preload/src/inject_read.c\<close>); each read drives a state machine (\<open>runtime.c\<close>) that turns the messages
  into QDIMACS text. A message \<open>FORK\<close> makes the runtime fork: the child goes on reading, now from the second
  pipe, where the library sends the assumptions as unit clauses and the order to solve; the
  missing clauses are filled up with tautologies, and the child then solves. Its output and its exit code
  come back to the library, which waits in a state machine of its own around \<open>poll\<close>. The tool
  Quapify (\<open>quapify/src\<close>) is a client: it parses a file, collects assumptions from the command line and
  from splits of the prefix into integers, and solves the formula under each of them.

  \<^bold>\<open>The theories,\<close> in the order they build on each other.

  \<^item> \<open>Quapi_Prelude\<close>: C integers (\<open>s32\<close>, \<open>in32\<close>), arrays with the two accesses the code makes, results of
    operations (\<open>outcome\<close>: returned, exited, failed assertion, undefined behaviour), decimal numbers.
  \<^item> \<open>Quapi_Definitions\<close>: \<open>definitions.h\<close> and the first part of \<open>common.c\<close>, the enumerations and the
    header. \<open>Quapi_Message\<close>: \<open>message.h\<close> and the rest of \<open>common.c\<close>, the bytes of a message, and the
    writing and reading of messages; the locales \<open>record_sink\<close> and \<open>record_source\<close> are what a stream has to promise, and
    are interpreted on streams and, in \<open>Quapi_Zerocopy\<close> (\<open>zero-copy-pipes-linux.c\<close>), on the
    zero-copy pipe. The bytes that a zero-copy reader gets cannot be written, which the reading of a header
    message does: the argument \<open>writable\<close> of \<open>quapi_read_msg_from_file\<close>.
  \<^item> \<open>Quapi_Int_To_Str\<close>: the integer printer of \<open>runtime.c\<close>. \<open>Quapi_Runtime\<close>: the state
    machine of \<open>runtime.c\<close>, one definition \<open>st_...\<close> for each state function, \<open>advance_state\<close>, \<open>update_buf\<close>,
    \<open>quapi_read\<close> and both sides of \<open>fork_solving_child\<close>. \<open>Quapi_Emission\<close> abstracts it from its
    buffers, \<open>Quapi_Read\<close> proves that reads of any sizes give the text it owes (\<open>delivers\<close>),
    \<open>Quapi_Type_Safety\<close> that reads of arbitrary bytes that return keep its state well formed,
    \<open>Quapi_Progress\<close> that they return when the bytes pass a check (\<open>conforms\<close>), which those of the library do, and \<open>Quapi_Inject\<close>
    has the replaced functions of \<open>inject_read.c\<close> and \<open>inject_main.c\<close>. Readers of blocks and of characters
    share the locales \<open>char_source\<close> and \<open>char_getter\<close>, which every replaced function and Quapify's own
    \<open>kissat_getc\<close> interpret.
  \<^item> \<open>Quapi_Formula\<close>: the specification of the text, \<open>formula_text\<close>, and of its meaning.
  \<^item> \<open>Quapi_Solver\<close>, \<open>Quapi_Solve\<close>, \<open>Quapi_Init\<close>: \<open>quapi.c\<close>, the operations that describe a formula, the
    \<open>S_...\<close> state machine of a solve, and starting and ending. \<open>Quapi_Descriptors\<close> has what starting,
    forking and releasing do to the tables of descriptors of the three processes: both sides of
    \<open>fork_and_exec\<close>, the child's side of \<open>fork_solving_child\<close>, and when a read of a pipe or \<open>poll\<close> waits (the
    output of the solving children is read with \<open>O_NONBLOCK\<close>). \<open>Quapi_Library\<close> relates the library to the
    formula its client has described (\<open>formula_state\<close>, \<open>describes\<close>), \<open>Quapi_Output\<close> the result of
    a solve to the lines of output (\<open>decide\<close>), \<open>Quapi_System\<close> joins library and runtime,
    \<open>Quapi_Protocol\<close> adds the messages that come back, and \<open>Quapi_Client\<close> has whole sessions of calls.
  \<^item> \<open>Quapi_Parse\<close>: the parser of \<open>quapify/src/parse.c\<close>; \<open>Quapi_Parse_Text\<close>: it reads \<open>formula_text\<close> back.
  \<^item> \<open>Quapi_Files\<close>: \<open>quapify/src/file.c\<close>, \<open>file.h\<close> and \<open>utilities.c\<close>. \<open>Quapi_Intsplit\<close>, \<open>Quapi_Cli\<close>,
    \<open>Quapi_Quapify\<close>: \<open>quapify.c\<close>, its assumptions and splits, its command line, and \<open>main\<close>.
    \<open>Quapi_Quapify_System\<close> joins the tool with the library and the runtime.
    \<open>Quapi_Timing\<close>: \<open>preload/src/timing.c\<close>. \<open>Quapi_Log\<close>: what all parts write on \<open>stderr\<close>, with an
    interpreter of the formats; the other theories leave the log out, except that an ill-typed argument of
    a report is undefined behaviour (\<open>invalid_type_report\<close>).
  \<^item> \<open>Quapi_Deviations\<close>, \<open>Quapi_Quapify_Deviations\<close>: behaviour outside the contract. \<open>Quapi_Examples\<close>,
    \<open>Quapi_Start_Examples\<close>, \<open>Quapi_Quapify_Examples\<close>: the properties at concrete inputs. This theory has the properties that span
    several parts.

  \<^bold>\<open>How the code is modelled.\<close> A \<open>struct\<close> is a record, an \<open>enum\<close> a datatype, a state function a constructor. An
  \<open>int\<close> is an \<open>int\<close> whose results are cut to 32 bits by \<open>s32\<close> where the code can overflow; the logarithm of
  the splits works on \<open>64 word\<close>. A pipe is the list of the bytes in it and a stream has its buffer, so that what is
  written and what has arrived differ until a flush; who can still write a pipe, which decides whether a
  read of an empty one waits, is in the tables of \<open>Quapi_Descriptors\<close> only, and \<open>quapi_init\<close> is given the bytes that a
  read gets (\<open>env_reply\<close>). The second pipe is only ever appended to by
  the library, and each child takes from it what was written for it: \<open>since\<close> in C1 is the part after what
  earlier children consumed. The operating system is a parameter: \<open>init_env\<close> for \<open>fork\<close>, \<open>pipe\<close>, files,
  environment and the compiled patterns of PCRE2, a script of results of \<open>poll\<close> with the bytes that came with
  them and the bit \<open>POLLHUP\<close> of the output, a list of results of \<open>fork\<close> in the runtime, \<open>file_env\<close> for the files and programs of Quapify, a list of
  readings for the clock. Memory is always allocated, and \<open>_POSIX_C_SOURCE\<close> is defined. A
  reader of a zero-copy pipe uses up a buffer before it fetches the next one.

  \<^bold>\<open>Loops and fuel.\<close> Loops that end are functions with a measure (the lines of a solve's buffer, the
  words of a command line, the directories of a search path, the printing of assumptions). Loops that may run on are
  \<open>partial_function\<close>s, where \<open>None\<close> is not returning: \<open>state_loop\<close> and \<open>message_loop\<close> of the runtime,
  \<open>inflate_loop\<close> of the splits, and everything on top of them. A solve, \<open>s_run\<close>, ends with the script
  of its results of \<open>poll\<close>: \<open>None\<close> is then a solve that still waits. That they return is
  part of the theorems, as \<open>= Some ...\<close>: for described formulas (C1, C16, C17), for solves that are answered or
  aborted (C4, C5, C6), for every stream that passes the check of C29, for splits (C31, C36); where they do not it is a theorem, too (C20, C21). The number
  \<open>n\<close> of \<open>read_msgs\<close> in C8 and C9 bounds the messages a reader asks for; one more than were written is enough to
  see the end of the file.

  \<^bold>\<open>What is proved.\<close> From the calls of a client to what the solver reads (C1, C2, C7) and what a
  parser understands (C3, C18), from the solver's output back to the client (C4, C5, C6, C19); messages over
  a stream (C8), and over a zero-copy pipe, where a header message is not survived (C9); starting (C10 to C13) and the descriptors of the processes (C13, C28), what of
  them is never closed (C23) and the reads that wait for it (C26); the integer printer (C14); readers (C15 to C17), also of arbitrary
  bytes, which keep the runtime well formed but let a read return only if they pass a check (C29); loops and losses outside the contract (C20 to C22, C24, C25); opening files (C27); splits (C30 to C32); the command line
  (C33, C34); the tool as a client whose session is legal and describes the file (C35, C36) and where it
  is not or its header counts too few variables (C37, C38); timing (C39); and the whole way from Quapify's command line and file to what the solver reads
  under each assumption (C40).

  \<^bold>\<open>Differences.\<close> An array of length 0 on the stack, which \<open>intsplit_state_to_assumption\<close> has when every
  split is the number 1, is undefined in C and empty in the model, as compilers make it. \<open>env_fork\<close> is what
  \<open>fork\<close> returns in the library's process, so -1 or positive; the branch of the child is
  \<open>fork_and_exec_child\<close>. Assertions are enabled.

  \<^bold>\<open>Not modelled.\<close> \<open>quapi_preload_state_func_to_state\<close>: a state function is a constructor
  here, so its name for the log is the constructor itself. The pages behind a zero-copy pipe (\<open>vmsplice\<close>,
  \<open>splice\<close>, \<open>mmap\<close>): a buffer is passed as a whole. The formatting of clock readings by \<open>printf\<close> in Quapify,
  whose text is a parameter. Freed memory, apart from the arrays and buffers that are given back
  (\<open>free_str_array\<close>, \<open>quapi_zerocopy_pipe_close\<close>). What PCRE2, the decompressors and the solvers do. The headers that only
  declare (\<open>quapi.h\<close>), the tests and scripts.
\<close>

section \<open>Library and runtime together\<close>

text \<open>
  C1. What the solver reads. When the client of the library has described a formula and
  orders a solve, the bytes on the library's two pipes make the child the runtime forked
  deliver to the solver exactly the QDIMACS text of that formula with its assumptions as unit
  clauses and the fillers, for every sequence of read sizes, with or without tracing,
  and after more reads than the text has characters the end of file was reported.
\<close>

theorem solver_reads_formula:
  assumes "describes s F" and "solvable F"
    and "fs_assumptions F = None \<Longrightarrow> reports (sv_messages s @ reply) p rest"
    and "universal_depth (prefixdepth (sv_header s)) (fs_asked F) \<le> int (length (fs_units F)) \<or> allow"
    and "parents fs" and "length fs + 1 = length (fs_batches (fs_fork (waits s) F))"
    and "\<forall>n \<in> set ns. 0 < n"
    and "txt = solver_input F (prefixdepth (sv_header s)) (sv_header s)"
  shows "\<exists>s1 rt out eof.
      (\<forall>script. quapi_solve allow reply script s =
         map_option (\<lambda>res. bind_outcome res finish_solve) (s_run S_POLL (solve_data s1) script))
    \<and> child_runtime (fo_pipe (write_pipe_stream s1)) fs
        (since s F (fo_pipe (solverchild_write_pipe_stream s1))) = Ret rt
    \<and> read_all (runtime_rd trace) ns rt = Some (out, eof) \<and> take (length out) txt = out
    \<and> (eof \<longrightarrow> out = txt) \<and> (length txt < length ns \<longrightarrow> eof)"
proof -
  from quapi_solve_delivers [OF assms(1-6)] obtain s1 rt where
    q: "\<forall>script. quapi_solve allow reply script s =
         map_option (\<lambda>res. bind_outcome res finish_solve) (s_run S_POLL (solve_data s1) script)"
    and rt: "child_runtime (fo_pipe (write_pipe_stream s1)) fs
        (since s F (fo_pipe (solverchild_write_pipe_stream s1))) = Ret rt"
    and d: "delivers (sv_header s) rt txt" using assms(8) by blast
  from runtime.read_all_text [OF d assms(7)] q rt show ?thesis by blast
qed

theorem solver_reads_formula_witness:
  "\<exists>s1 rt out eof.
      (\<forall>script. quapi_solve False demo_reply script (demo_solver demo_formula QUAPI_INPUT_LITERALS) =
         map_option (\<lambda>res. bind_outcome res finish_solve) (s_run S_POLL (solve_data s1) script))
    \<and> child_runtime (fo_pipe (write_pipe_stream s1)) []
        (since (demo_solver demo_formula QUAPI_INPUT_LITERALS) demo_formula
          (fo_pipe (solverchild_write_pipe_stream s1))) = Ret rt
    \<and> read_all (runtime_rd True) (replicate 60 7) rt = Some (out, eof) \<and> take (length out) demo_text = out
    \<and> (eof \<longrightarrow> out = demo_text) \<and> (length demo_text < length (replicate 60 (7 :: nat)) \<longrightarrow> eof)"
  by (rule solver_reads_formula [OF demo_describes [OF demo_phase] demo_solvable demo_reports])
    (simp_all add: demo_depth demo_input parents_def)

text \<open>
  C2. A whole session. Starting from a solver that \<open>quapi_init\<close> gave, every sequence of legal
  calls (quantifiers, literals, assumptions, resets, solves, aborts, callbacks, in any order
  the library allows) ends in a solver whose counters, state and pipes describe exactly the
  formula the calls built, with the header it was started with.
\<close>

theorem sessions_describe:
  assumes "starts e maxassumptions sat unsat"
    and "in32 litcount" "in32 clausecount" "in32 maxassumptions"
    and "env_environ e = c_array environ"
    and "quapi_read_msg_from_fd (env_reply e) = Ret (Some (Some (MStarted v)), rest)"
    and "quapi_init e (Some path) (Some (c_array args)) None litcount clausecount maxassumptions sat unsat u
      = Ret (Some s0)"
    and "session s0 start_formula calls s F"
  shows "describes s F \<and> F = fold (fs_call (sat = None)) calls start_formula
    \<and> sv_header s = started_header e litcount clausecount maxassumptions"
proof -
  from quapi_init_describes [OF assms(1-6), of path args u] assms(7)
  have s0: "describes s0 start_formula" "waits s0 = (sat = None)"
    "sv_header s0 = started_header e litcount clausecount maxassumptions" by auto
  from session_describes [OF assms(8) s0(1)] session_formula [OF assms(8) s0(1)] s0(2,3)
  show ?thesis by simp
qed

theorem sessions_describe_witness:
  "\<exists>s0 (s :: unit quapi_solver). quapi_init demo_env (Some ''solver'') (Some (c_array [])) None 2 1 1 None None () = Ret (Some s0)
    \<and> describes s demo_formula \<and> demo_formula = fold (fs_call True) (demo_calls :: unit client_call list) start_formula
    \<and> sv_header s = started_header demo_env 2 1 1"
proof -
  from demo_init obtain s0 s
    where i: "quapi_init demo_env (Some ''solver'') (Some (c_array [])) None 2 1 1 None None () = Ret (Some s0)"
      and c: "session s0 start_formula demo_calls s demo_formula" by blast
  from sessions_describe [OF demo_starts demo_range(1,2) demo_range(2) demo_environ demo_started i c] i
  show ?thesis by auto
qed

text \<open>
  C3. The formula survives the whole way. A parser that reads the text the solver is given accepts
  it at every level of strictness, finds exactly the prefix the client described, and clauses that
  a valuation satisfies exactly when it satisfies the client's clauses and makes every
  assumption true: the fillers add nothing.
\<close>

theorem parser_reads_formula:
  assumes "solvable F" and "1 \<le> literals h" "literals h < 2 ^ 31" and "0 < clauses h" "clauses h < 2 ^ 31"
    and "int (fs_count F + length (fs_units F)) \<le> clauses h"
    and "\<forall>l \<in> set (concat (batch_clauses (fs_batches F) @ fs_clauses F)) \<union> set (fs_units F)
           \<union> set (given_prefix d (fs_asked F)). \<bar>l\<bar> \<le> literals h"
  shows "\<exists>r. kissat_parse_dimacs strict (solver_input F d h) = r \<and> pr_error r = None
    \<and> event_quantifiers (pr_events r) = given_prefix d (fs_asked F)
    \<and> (\<forall>I. satisfies I (event_clauses [] (pr_events r)) =
         (satisfies I (batch_clauses (fs_batches F) @ fs_clauses F) \<and> (\<forall>a \<in> set (fs_units F). lit_true I a)))"
proof -
  let ?cs = "batch_clauses (fs_batches F) @ fs_clauses F" and ?qs = "given_prefix d (fs_asked F)"
  have ok: "clauses_ok ?cs" "lits_ok (fs_units F)" "lits_ok ?qs"
    using assms(1) by (simp_all add: solvable_def lits_ok_given_prefix)
  have "int (length ?cs + length (fs_units F)) \<le> clauses h" using assms(6) by (simp add: fs_count_def)
  from parse_solver_text [OF ok assms(2,3,5) this assms(7,4), of strict]
  obtain r where r: "parse_dimacs strict (solver_input F d h) = r" "pr_error r = None"
    "event_quantifiers (pr_events r) = ?qs" "event_clauses [] (pr_events r) = solver_clauses h ?qs ?cs (fs_units F)"
    by (auto simp: solver_input_def)
  moreover have "literals h \<noteq> 0 \<or> (?qs \<noteq> [] \<and> 0 < hd ?qs)" using assms(2) by simp
  note solver_clauses_models [OF this]
  ultimately show ?thesis by (intro exI [of _ r]) (simp add: kissat_parse_dimacs_def)
qed

theorem parser_reads_formula_witness:
  "\<exists>r. kissat_parse_dimacs PEDANTIC_PARSING (solver_input demo_formula 1 demo_header) = r \<and> pr_error r = None
    \<and> event_quantifiers (pr_events r) = given_prefix 1 (fs_asked demo_formula)
    \<and> (\<forall>I. satisfies I (event_clauses [] (pr_events r)) =
         (satisfies I (batch_clauses (fs_batches demo_formula) @ fs_clauses demo_formula)
            \<and> (\<forall>a \<in> set (fs_units demo_formula). lit_true I a)))"
  by (rule parser_reads_formula [OF demo_solvable])
    (auto simp: given_prefix_def demo_formula_defs less_Suc_eq)

theorem quapi_solve_output_witness:
  "answer (quapi_solve False demo_reply (pieces [''c '', ''x'' @ [NL] @ ''s SATI'', ''SFIABLE'' @ [NL] @ ''s''])
      (demo_solver demo_formula QUAPI_INPUT_LITERALS)) = Some (Ret 10)"
proof -
  let ?s = "demo_solver demo_formula QUAPI_INPUT_LITERALS"
  have "answer (quapi_solve False demo_reply (pieces [''c '', ''x'' @ [NL] @ ''s SATI'', ''SFIABLE'' @ [NL] @ ''s'']) ?s)
    = map_option Ret (fst (decide ?s (fst (split_lines []
        (concat [''c '', ''x'' @ [NL] @ ''s SATI'', ''SFIABLE'' @ [NL] @ ''s''])))))"
    by (rule quapi_solve_output [OF demo_describes [OF demo_phase]])
      (use demo_reports demo_depth in \<open>simp_all add: demo_solver_def\<close>)
  then show ?thesis
    by (simp add: demo_solver_def match_regex_def demo_sat_def demo_unsat_def)
qed

text \<open>
  C5. The exit code. When no patterns were given, the runtime reports the process id and then the
  exit code of its child, and a solve answers exactly this exit code, whatever else
  arrives with it; the library then knows the child's process id.
\<close>

theorem solve_answers_exit_code:
  assumes "describes s F" and "fs_clause F = []" and "fs_assumptions F = None" and "waits s" and "sv_messages s = []"
    and "universal_depth (prefixdepth (sv_header s)) (fs_asked F) \<le> 0 \<or> allow"
    and "rt_forks r = Fork_Parent pid st # fs" and "in32 pid"
    and "wait_exit_status st \<noteq> 0 \<or> stdout_cb s = None"
    and "sent = drop (length (rt_to_parent r)) (rt_to_parent (fork_solving_child r (waits s)))"
  shows "\<exists>s'. quapi_solve allow (take 5 sent) (Poll_Return (drop 5 sent) out n # script) s =
      Some (Ret (wait_exit_status st, s')) \<and> solverchild_pid s' = pid"
proof -
  have sent: "sent = msg_arr report_junk (MFork_Report pid) @ msg_arr report_junk (MExit_Code (wait_exit_status st))"
    using assms(4,10) fork_reports [OF assms(7)] by simp
  then have "take 5 sent = msg_arr report_junk (MFork_Report pid)"
    and d: "drop 5 sent = msg_arr report_junk (MExit_Code (wait_exit_status st))" by simp_all
  then have "reports (sv_messages s @ take 5 sent) pid []"
    using reports_frame [of report_junk pid "[]"] assms(5,8) by simp
  moreover have "in32 (wait_exit_status st)" using wait_exit_status_range [of st] by (simp add: in32_def)
  ultimately show ?thesis
    using quapi_solve_exit_code [OF assms(1-3) _ assms(6) d _ _ assms(9)] by simp
qed

theorem solve_answers_exit_code_witness:
  "\<exists>s'. quapi_solve True (take 5 (rt_to_parent (fork_solving_child demo_parent True)))
      (Poll_Return (drop 5 (rt_to_parent (fork_solving_child demo_parent True))) ''x'' 0 # [])
      (demo_plain demo_formula QUAPI_INPUT_LITERALS) = Some (Ret (wait_exit_status (Wait_Exited 10), s'))
    \<and> solverchild_pid s' = 77"
  by (rule solve_answers_exit_code [where r = demo_parent and fs = "[]", OF demo_plain_describes [OF demo_phase]])
    (simp_all add: demo_plain_def demo_solver_def waits_def demo_parent_def global_runtime_def in32_def)

theorem quapi_solve_abort_witness:
  "\<exists>s'. quapi_solve True demo_reply [Poll_Return [] ''c'' 1] (demo_solver demo_formula QUAPI_INPUT_LITERALS) = Some (Ret (0, s'))
    \<and> sv_killed s' = sv_killed (demo_solver demo_formula QUAPI_INPUT_LITERALS) @ [42]
    \<and> sv_eventfd s' = 0 \<and> sv_state s' = QUAPI_INPUT_LITERALS"
  by (rule quapi_solve_abort [OF demo_describes [OF demo_phase]]) (use demo_reports in simp_all)

theorem call_returns_witness:
  "\<exists>s'. call (Add 2) (demo_solver demo_formula QUAPI_INPUT_LITERALS) = Some (Ret s')"
  by (rule call_returns [OF demo_describes [OF demo_phase]]) (simp_all add: is_solve_def)

theorem reports_stale_witness:
  "reports (concat (map (msg_arr demo_junk) [MExit_Code 10, MDestructed]) @ msg_arr demo_junk (MFork_Report 42) @ [1]) 42 [1]"
  by (rule reports_stale) (simp_all add: in32_def)

section \<open>Messages\<close>

text \<open>
  C8. Messages over a stream. Every list of messages with values in range, a header with its
  trailer among them, written to a stream of any buffer size and flushed is read
  back exactly, then the end of the file; the bytes of an uninitialised message do not matter.
\<close>

theorem messages_over_file:
  assumes "length u = 4" and "header_ok h" and "\<forall>m \<in> set ms. msg_ok m" and "length ms < n"
  shows "\<exists>f. write_msgs (\<lambda>f m. quapi_write_msg_to_file file_write file_flush True f u m (Some h)) ms
        \<lparr>fo_buffer = [], fo_pipe = [], fo_capacity = k, fo_broken = False\<rparr> = Ret f
    \<and> read_msgs (\<lambda>s. quapi_read_msg_from_file True file_read s h) n (fo_pipe (file_flush f)) = Ret ms"
proof -
  have "file_out_holds \<lparr>fo_buffer = [], fo_pipe = [], fo_capacity = k, fo_broken = False\<rparr> []"
    by (simp add: file_out_holds_def)
  from file_sink.write_msgs [OF this assms(1), of h ms] obtain f
    where f: "write_msgs (\<lambda>f m. quapi_write_msg_to_file file_write file_flush True f u m (Some h)) ms
        \<lparr>fo_buffer = [], fo_pipe = [], fo_capacity = k, fo_broken = False\<rparr> = Ret f"
      "file_out_holds f (map (frame u h) ms)" by auto
  from file_sink.flush_arrives [OF f(2)] have "file_in_carries (fo_pipe (file_flush f)) (map (frame u h) ms)"
    by (simp add: file_out_arrived_def file_in_carries_def)
  from file_source.read_msgs [OF this assms(1,3,2,4), of True] f(1) show ?thesis by auto
qed

theorem messages_over_file_witness:
  "\<exists>f. write_msgs (\<lambda>f m. quapi_write_msg_to_file file_write file_flush True f demo_junk m (Some demo_header))
        [MHeader 3, MQuantifier (-1), MLiteral 0, MFork True, MSolve]
        \<lparr>fo_buffer = [], fo_pipe = [], fo_capacity = 8, fo_broken = False\<rparr> = Ret f
    \<and> read_msgs (\<lambda>s. quapi_read_msg_from_file True file_read s demo_header) 6 (fo_pipe (file_flush f))
        = Ret [MHeader 3, MQuantifier (-1), MLiteral 0, MFork True, MSolve]"
  by (rule messages_over_file [OF _ demo_header_ok]) (simp_all add: in32_def)

text \<open>
  C9. Messages over a zero-copy pipe. The pipe of two page-aligned buffers carries messages as well:
  what is written to a freshly opened pipe, header messages copied and all others built in place,
  and flushed is what a reader on the other end gets, across any number of buffers, as long as there is
  no header message. A header message ends the reader's process wherever it comes: its trailer is moved
  inside the reader's buffer, which is a mapping that cannot be written. The first message the library
  sends is a header, so a build with zero-copy pipes does not get beyond it.
\<close>

theorem messages_over_zero_copy:
  assumes "length u = 4" and "header_ok h" and "\<forall>m \<in> set ms. msg_ok m" and "length ms < n"
    and "quapi_zerocopy_pipe_fdopen ''w'' mem0 mem1 [] = Inr p"
    and "length mem0 = buf_size - counter_size" "length mem1 = buf_size - counter_size"
  shows "\<exists>p1 p2 r. write_msgs (zc_write_msg u h) ms p = Ret p1 \<and> quapi_zerocopy_pipe_flush p1 = Ret p2
    \<and> quapi_zerocopy_pipe_fdopen ''rb'' [] [] (zo_pipe p2) = Inl r
    \<and> read_msgs (\<lambda>s. quapi_read_msg_from_file False zc_pread s h) n r =
        (if \<exists>m \<in> set ms. msg_type m = MSG_HEADER then Undefined_Behaviour else Ret ms)"
proof -
  from zc_write_msgs_holds [OF zo_holds_opened [OF assms(5-7)] assms(1), of h ms] obtain p1
    where p1: "write_msgs (zc_write_msg u h) ms p = Ret p1" "zo_holds p1 (map (frame u h) ms)" by auto
  from flush_holds [OF p1(2)] obtain p2
    where p2: "quapi_zerocopy_pipe_flush p1 = Ret p2" "zo_arrived p2 (map (frame u h) ms)" by blast
  let ?r = "\<lparr>zi_buf = empty_buf [], zi_read_pos = 0, zi_pipe = zo_pipe p2\<rparr>"
  have "quapi_zerocopy_pipe_fdopen ''rb'' [] [] (zo_pipe p2) = Inl ?r"
    by (simp add: quapi_zerocopy_pipe_fdopen_def mode_contains_read_def)
  with p1 p2(1) zc_source.read_msgs [OF zi_carries_arrived [OF p2(2)] assms(1,3,2,4), of False] show ?thesis by auto
qed

theorem messages_over_zero_copy_witness:
  "\<exists>p p1 p2 r q1 q2 r'. quapi_zerocopy_pipe_fdopen ''w'' (replicate (buf_size - counter_size) 0)
      (replicate (buf_size - counter_size) 0) [] = Inr p
    \<and> write_msgs (zc_write_msg demo_junk demo_header) [MQuantifier 1, MLiteral 1, MLiteral 0, MSolve] p = Ret p1
    \<and> quapi_zerocopy_pipe_flush p1 = Ret p2
    \<and> quapi_zerocopy_pipe_fdopen ''rb'' [] [] (zo_pipe p2) = Inl r
    \<and> read_msgs (\<lambda>s. quapi_read_msg_from_file False zc_pread s demo_header) 5 r
        = Ret [MQuantifier 1, MLiteral 1, MLiteral 0, MSolve]
    \<and> write_msgs (zc_write_msg demo_junk demo_header) [MHeader 3, MSolve] p = Ret q1
    \<and> quapi_zerocopy_pipe_flush q1 = Ret q2
    \<and> quapi_zerocopy_pipe_fdopen ''rb'' [] [] (zo_pipe q2) = Inl r'
    \<and> read_msgs (\<lambda>s. quapi_read_msg_from_file False zc_pread s demo_header) 5 r' = Undefined_Behaviour"
proof -
  let ?mem = "replicate (buf_size - counter_size) (0 :: byte)"
  obtain p where p: "quapi_zerocopy_pipe_fdopen ''w'' ?mem ?mem [] = Inr p"
    by (simp add: quapi_zerocopy_pipe_fdopen_def mode_contains_read_def)
  have u: "length demo_junk = 4" by simp
  have "\<forall>m \<in> set [MQuantifier 1, MLiteral 1, MLiteral 0, MSolve]. msg_ok m"
    "length [MQuantifier 1, MLiteral 1, MLiteral 0, MSolve] < 5" by (simp_all add: in32_def)
  note plain = messages_over_zero_copy [OF u demo_header_ok this p]
  have "\<forall>m \<in> set [MHeader 3, MSolve]. msg_ok m" "length [MHeader 3, MSolve] < 5" by (simp_all add: in32_def)
  from plain messages_over_zero_copy [OF u demo_header_ok this p] p show ?thesis by simp
qed

section \<open>Starting a solver\<close>

text \<open>
  C10. Failing to start. \<open>quapi_init\<close> gives the null pointer, and no half-started solver, whenever one
  of its steps fails: no path, a negative number of assumptions, no preload library, only one of
  the two patterns, a pattern that does not compile, no eventfd, no nonblocking pipe, no child
  process, or a read of the first message that gets too few bytes or another message than the start message.
  (That this read need not return when the child has ended is C26.)
\<close>

theorem quapi_init_fails:
  assumes "env_environ e = c_array environ" and "quapi_read_msg_from_fd (env_reply e) = Ret (msg, rest)"
    and "path = None \<or> maxassumptions < 0 \<or> fst (get_preload_so_path e None) = None \<or> (sat = None) \<noteq> (unsat = None)
      \<or> (\<exists>x \<in> set_option sat \<union> set_option unsat. env_pcre2_compile e x = None)
      \<or> \<not> env_eventfd_ok e \<or> \<not> env_fcntl_ok e \<or> env_fork e \<le> 0 \<or> (\<forall>v. msg \<noteq> Some (Some (MStarted v)))"
  shows "quapi_init e path (Some (c_array args)) None litcount clausecount maxassumptions sat unsat u = Ret None"
proof -
  have start: "start_solver e s = Ret None"
    if "\<not> env_eventfd_ok e \<or> \<not> env_fcntl_ok e \<or> env_fork e \<le> 0 \<or> (\<forall>v. msg \<noteq> Some (Some (MStarted v)))"
    for s :: "'a quapi_solver"
    using start_solver_none [OF assms(2) that] .
  show ?thesis
    using assms(1,3) start
    by (cases path; cases sat; cases unsat)
      (auto simp: quapi_init_def setup_regex_def compile_regex_def executable_args_c_array executable_env_c_array
        initial_solver_def Let_def split: option.splits)
qed

theorem quapi_init_fails_witness:
  "quapi_init (demo_env\<lparr>env_fork := -1\<rparr>) (Some ''solver'') (Some (c_array [])) None 2 1 1 None None () = Ret None"
  by (rule quapi_init_fails [where msg = "Some (Some (MStarted 3))" and rest = "[]" and environ = "[''HOME=h'']"])
    (use demo_environ demo_started in simp_all)

text \<open>
  C11. The child process. A solver that started runs the program under its own path as first
  argument (not doubled when the caller already passed it) and with \<open>LD_PRELOAD\<close> naming the
  preload library as the first variable of its environment, ahead of the caller's own.
\<close>

theorem solver_process:
  assumes "starts e maxassumptions sat unsat"
    and "in32 litcount" "in32 clausecount" "in32 maxassumptions"
    and "env_environ e = c_array environ"
    and "quapi_read_msg_from_fd (env_reply e) = Ret (Some (Some (MStarted v)), rest)"
  shows "\<exists>s preload. quapi_init e (Some path) (Some (c_array args)) None litcount clausecount maxassumptions sat unsat u
      = Ret (Some s)
    \<and> env_file_exists e preload
    \<and> executable_argv (config s) = c_array (path # (if args \<noteq> [] \<and> hd args = path then tl args else args))
    \<and> executable_envp (config s) = c_array ((''LD_PRELOAD='' @ preload) # environ)
    \<and> file_out_arrived (write_pipe_stream s) (frames s [MHeader QUAPI_API_VERSION])"
proof -
  obtain preload where p: "fst (get_preload_so_path e None) = Some preload" using assms(1) by (auto simp: starts_def)
  then have "env_file_exists e preload"
    using get_preload_so_path_exists [of e preload] by (cases "get_preload_so_path e None") auto
  moreover have "(if args \<noteq> [] \<and> hd args = path then args else path # args)
      = path # (if args \<noteq> [] \<and> hd args = path then tl args else args)" by (cases args) auto
  ultimately show ?thesis using quapi_init_describes [OF assms, of path args u] p by auto
qed

theorem solver_process_witness:
  "\<exists>(s :: unit quapi_solver) preload.
      quapi_init demo_env (Some ''solver'') (Some (c_array [''-q''])) None 2 1 1 None None () = Ret (Some s)
    \<and> env_file_exists demo_env preload
    \<and> executable_argv (config s) = c_array (''solver'' # (if [''-q''] \<noteq> [] \<and> hd [''-q''] = ''solver'' then tl [''-q''] else [''-q'']))
    \<and> executable_envp (config s) = c_array ((''LD_PRELOAD='' @ preload) # [''HOME=h''])
    \<and> file_out_arrived (write_pipe_stream s) (frames s [MHeader QUAPI_API_VERSION])"
  by (rule solver_process [OF demo_starts demo_range(1,2) demo_range(2) demo_environ demo_started])

text \<open>
  C12. The preload library. A path found before is used again; otherwise a path that is returned
  names an existing file, \<open>QUAPI_PRELOAD_PATH\<close> wins when its file exists, and no path is
  returned only when neither the variable, nor the file beside the executable, nor any
  of the fixed places has one.
\<close>

theorem preload_path_found:
  assumes "get_preload_so_path e p = (q, p')"
  shows "if p \<noteq> None then q = p \<and> p' = p
    else (case q of
        Some x \<Rightarrow> env_file_exists e x \<and> (found e (env_preload_path e) \<longrightarrow> env_preload_path e = Some x)
      | None \<Rightarrow> \<not> found e (env_preload_path e) \<and> (\<forall>x \<in> set preload_so_paths. \<not> env_file_exists e x)
          \<and> (\<forall>exe. env_self_exe e = Some exe \<longrightarrow> exe \<noteq> [] \<longrightarrow> \<not> env_file_exists e (self_preload_path exe)))"
proof (cases p)
  case (Some x)
  with assms show ?thesis by (auto simp: get_preload_so_path_def)
next
  case None
  show ?thesis
  proof (cases q)
    case None
    with assms \<open>p = None\<close> show ?thesis
      by (auto simp: get_preload_so_path_def found_def find_None_iff Let_def split: if_splits option.splits)
  next
    case (Some x)
    with assms \<open>p = None\<close> get_preload_so_path_exists [of e x p'] show ?thesis
      by (auto simp: get_preload_so_path_def found_def Let_def split: if_splits)
  qed
qed

theorem preload_path_found_witness:
  "if None \<noteq> (None :: string option) then Some ''p.so'' = None \<and> Some ''p.so'' = None
    else (case Some ''p.so'' of
        Some x \<Rightarrow> env_file_exists demo_env x \<and> (found demo_env (env_preload_path demo_env) \<longrightarrow> env_preload_path demo_env = Some x)
      | None \<Rightarrow> \<not> found demo_env (env_preload_path demo_env) \<and> (\<forall>x \<in> set preload_so_paths. \<not> env_file_exists demo_env x)
          \<and> (\<forall>exe. env_self_exe demo_env = Some exe \<longrightarrow> exe \<noteq> [] \<longrightarrow> \<not> env_file_exists demo_env (self_preload_path exe)))"
  by (rule preload_path_found) (simp add: get_preload_so_path_def found_def demo_env_def)

section \<open>The runtime and the replaced functions\<close>

text \<open>
  C14. Printing integers. \<open>int_to_str\<close> puts the decimal text of every 32-bit integer above the
  least one into the last bytes of the area it is given, returns its start, and leaves
  every other byte of the memory alone.
\<close>

theorem int_to_str_decimal:
  assumes "\<bar>i\<bar> < 2 ^ 31" and "11 \<le> sz" and "sz \<le> length mem"
  shows "\<exists>mem' out. int_to_str i mem sz = (mem', out) \<and> peek mem' out (sz - out) = show_int i
    \<and> take out mem' = take out mem \<and> drop sz mem' = drop sz mem \<and> length mem' = length mem"
proof -
  let ?out = "sz - length (show_int i)"
  have i: "lit_ok i" using assms(1) by (auto simp: lit_ok_def)
  then have l: "length (show_int i) \<le> 11" by (simp add: length_show_int c_int)
  then have "peek (poke mem ?out (show_int i)) ?out (sz - ?out) = show_int i"
    using assms(2,3) by (simp add: peek_poke_same)
  moreover have "drop sz (poke mem ?out (show_int i)) = drop sz mem" "take ?out (poke mem ?out (show_int i)) = take ?out mem"
    using assms(2,3) l by (simp_all add: poke_def)
  ultimately show ?thesis
    using int_to_str_show [OF i assms(2,3)] assms(2,3) l by (auto simp: length_poke)
qed

theorem int_to_str_decimal_witness:
  "\<exists>mem' out. int_to_str (-1203) (replicate 64 NUL) 64 = (mem', out) \<and> peek mem' out (64 - out) = show_int (-1203)
    \<and> take out mem' = take out (replicate 64 NUL) \<and> drop 64 mem' = drop 64 (replicate 64 NUL)
    \<and> length mem' = length (replicate 64 NUL)"
  by (rule int_to_str_decimal) simp_all

text \<open>
  C16. Block readers. A solver that reads its standard input with \<open>read\<close>, with \<open>fread\<close> on any stream
  that stands for it (the default one, the mock for \<open>/dev/stdin\<close> or one on descriptor 0), or with
  \<open>gzread\<close> gets exactly the text the runtime owes, in order and without loss, for every
  sequence of buffer sizes, and the end of file after it.
\<close>

theorem block_readers_deliver:
  assumes "delivers h (pl_runtime s) t" and "\<forall>n \<in> set ns. 0 < n" and "stdin_stream f s" and "g = quapi_gzFile_stdin s"
    and "rd \<in> {read_fd trace c STDIN_FILENO, fread trace c sz f, gzread trace c g}"
  shows "\<exists>out eof. read_all (as_source rd) ns s = Some (out, eof) \<and> take (length out) t = out
    \<and> (eof \<longrightarrow> out = t) \<and> (length t < length ns \<longrightarrow> eof)"
  using assms(5) stdin_read.read_all_text [of h s t ns trace c] stdin_fread.read_all_text [of f s h t ns trace c sz]
    stdin_gzread.read_all_text [of g s h t ns trace c] assms(1-4) by auto

theorem block_readers_deliver_witness:
  "\<exists>rt out eof. read_all (as_source (fread True demo_libc 1 Default_Stdin)) (replicate 50 3) (demo_process rt) = Some (out, eof)
    \<and> take (length out) demo_text = out \<and> (eof \<longrightarrow> out = demo_text)
    \<and> (length demo_text < length (replicate 50 (3 :: nat)) \<longrightarrow> eof)"
proof -
  obtain rt where rt: "delivers demo_header rt demo_text" using demo_delivers by blast
  have "delivers demo_header (pl_runtime (demo_process rt)) demo_text" using rt by simp
  from block_readers_deliver [OF this, of "replicate 50 3" Default_Stdin Gz_Stdin
      "fread True demo_libc 1 Default_Stdin" True demo_libc 1]
  show ?thesis by (auto simp: stdin_stream_def demo_process_def)
qed

text \<open>
  C17. Character readers. \<open>fgetc\<close>, \<open>getc\<close> and their unlocked variants give the owed text character by
  character, across refills of the 64-byte buffer, and then \<open>EOF\<close>, on the default standard input
  and on the mock.
\<close>

theorem character_readers_deliver:
  assumes "stream_owes h f s t" and "get \<in> {fgetc trace c f, fgetc_unlocked trace c f, getc trace c f, getc_unlocked trace c f}"
  shows "get_all (as_getter get) n s = Some (take n t, length t < n)"
  using assms(2) stdin_fgetc.get_all_text [OF assms(1)] stdin_fgetc_unlocked.get_all_text [OF assms(1)]
    stdin_getc.get_all_text [OF assms(1)] stdin_getc_unlocked.get_all_text [OF assms(1)] by auto

theorem character_readers_deliver_witness:
  "\<exists>rt. delivers demo_header rt demo_text \<and> get_all (as_getter (getc_unlocked False demo_libc Default_Stdin)) 100 (demo_process rt)
    = Some (take 100 demo_text, length demo_text < 100)"
proof -
  obtain rt where rt: "delivers demo_header rt demo_text" using demo_delivers by blast
  with character_readers_deliver [OF demo_stream_owes [OF rt],
      of "getc_unlocked False demo_libc Default_Stdin" False demo_libc 100]
  show ?thesis by auto
qed

lemma demo_parses: "pr_error (parse_dimacs strict demo_text) = None"
proof -
  let ?cs = "batch_clauses (fs_batches demo_formula) @ fs_clauses demo_formula"
    and ?qs = "given_prefix 1 (fs_asked demo_formula)"
  have q: "?qs = [1, 2]" and c: "?cs = [[1, -2]]"
    by (simp_all add: given_prefix_def demo_formula_defs upt_rec)
  have "\<exists>r. parse_dimacs strict (formula_text demo_header ?qs (solver_clauses demo_header ?qs ?cs (fs_units demo_formula))) = r
      \<and> pr_error r = None \<and> event_quantifiers (pr_events r) = ?qs
      \<and> event_clauses [] (pr_events r) = solver_clauses demo_header ?qs ?cs (fs_units demo_formula)"
    by (rule parse_solver_text) (simp_all add: q c lit_ok_def)
  then show ?thesis unfolding demo_input [symmetric] solver_input_def by auto
qed

theorem parse_dimacs_mono_witness:
  "parse_dimacs RELAXED_PARSING demo_text = parse_dimacs PEDANTIC_PARSING demo_text"
  by (rule parse_dimacs_mono [OF demo_parses]) (simp add: less_eq_strictness_def)

section \<open>Inputs outside the contract\<close>

theorem unexpected_message_loops_witness:
  "state_loop ((global_runtime [] [])\<lparr>rt_state := READING_PREFIX\<rparr>) (MQuantifier 0) = None"
  by (rule unexpected_message_loops) (simp_all add: global_runtime_def)

theorem hang_up_spins_witness:
  "poll_empty_pipe 3 [fork_and_exec_parent demo_fds demo_opened, demo_child] = None
    \<and> (\<exists>hup. poll_empty_pipe 3 [fork_and_exec_parent demo_fds demo_opened] = Some hup
        \<and> (\<forall>n. quapi_solve True demo_reply (replicate n hup) (demo_solver demo_formula QUAPI_INPUT_LITERALS) = None))"
  using hang_up_spins [OF demo_pipes_opened demo_child_table [of demo_config] refl demo_describes [OF demo_phase], of demo_reply 42 True]
    demo_reports by (simp add: demo_solver_def)

theorem read_of_nothing_loses_text_witness:
  "\<exists>rt r'. delivers demo_header rt demo_text \<and> pending rt \<noteq> [] \<and> quapi_read False rt [] = Some (Ret (0, [], r'))
    \<and> (drop (length (pending rt)) demo_text \<noteq> [] \<longrightarrow> delivers demo_header r' (drop (length (pending rt)) demo_text))"
proof -
  obtain rt where rt: "delivers demo_header rt demo_text" using demo_delivers by blast
  have "\<exists>rt. delivers demo_header rt demo_text \<and> pending rt \<noteq> []"
  proof (cases "pending rt = []")
    case True
    with advance_state_drops [OF rt refl] obtain r' where "supplied demo_header r' demo_text" by auto
    then show ?thesis by (auto simp: supplied_def demo_text_def)
  qed (use rt in blast)
  then obtain rt' where rt': "delivers demo_header rt' demo_text" "pending rt' \<noteq> []" by blast
  with read_of_nothing_loses_text [OF rt'(1), of False] show ?thesis by blast
qed

theorem empty_clause_malformed_witness:
  "\<exists>r'. state_loop ((global_runtime [] [])\<lparr>rt_state := READING_MATRIX, rt_filler_clause_len := 7\<rparr>) (MLiteral 0) = Some (Ret r')
    \<and> pending r' = ''0'' \<and> rt_state r' = READING_MATRIX
    \<and> rt_written_clauses r' = rt_written_clauses ((global_runtime [] [])\<lparr>rt_state := READING_MATRIX, rt_filler_clause_len := 7\<rparr>)"
  by (rule empty_clause_malformed) (simp_all add: global_runtime_def rt_wf_def in32_def filler_size_def)

theorem reset_keeps_assumptions_witness:
  "\<exists>s1 rt. (\<forall>script. quapi_solve True demo_reply script (quapi_reset_assumptions demo_assuming) =
         map_option (\<lambda>res. bind_outcome res finish_solve) (s_run S_POLL (solve_data s1) script))
    \<and> child_runtime (fo_pipe (write_pipe_stream s1)) [Fork_Parent 42 Wait_Failed]
        (drop (length (fo_pipe (solverchild_write_pipe_stream demo_assuming))) (fo_pipe (solverchild_write_pipe_stream s1))) = Ret rt
    \<and> delivers (sv_header demo_assuming) rt (solver_input demo_assumed 1 demo_header)"
proof (rule reset_keeps_assumptions [OF demo_assuming_describes demo_assumed_simps(2) demo_assumed_solvable])
  show "fo_pipe (solverchild_write_pipe_stream demo_assuming) = concat (frames demo_assuming (fs_earlier demo_assumed))"
    by (simp add: demo_assuming_fields frames_def)
  show "reports (sv_messages demo_assuming @ demo_reply) 42 []"
    using demo_reports [of demo_assumed] by (simp add: demo_assuming_fields)
  show "solver_input demo_assumed 1 demo_header
      = solver_input demo_assumed (prefixdepth (sv_header demo_assuming)) (sv_header demo_assuming)"
    by (simp add: demo_assuming_fields)
qed (simp_all add: parents_def)

theorem assumption_limit_exceeded_witness:
  "\<exists>s' F'. quapi_assume demo_reply 2 (demo_solver (demo_formula\<lparr>fs_clauses := [[1], [2], [1, 2]]\<rparr>) QUAPI_INPUT_LITERALS)
      = Ret (True, s') \<and> describes s' F' \<and> fs_units F' = fs_units (demo_formula\<lparr>fs_clauses := [[1], [2], [1, 2]]\<rparr>) @ [2]
    \<and> clauses (sv_header s') < int (length (solver_clauses (sv_header s') [1, 2]
        (batch_clauses (fs_batches F') @ fs_clauses F') (fs_units F')))"
  by (rule assumption_limit_exceeded [OF demo_describes])
    (use demo_reports in \<open>simp_all add: phase_ok_def demo_formula_defs\<close>)

theorem prefix_without_clauses_rejected_witness:
  "pr_error (kissat_parse_dimacs NORMAL_PARSING (formula_text (demo_header\<lparr>clauses := 0\<rparr>) [1, -2] [])) =
    Some (''too many clauses '' @ TRY_RELAXED_PARSING)"
  by (rule prefix_without_clauses_rejected) (simp, simp, simp add: lit_ok_def, simp, simp, simp)

end
